(* ===== verification/Itch_Prelude.thy ===== *)
theory Itch_Prelude
  imports Main "HOL-Library.Word" "HOL-Library.Monad_Syntax"
begin

text \<open>
  Shared vocabulary of the development: the machine types of the C++ sources, the fact
  collections that the component theories fill, decimal printing as \<^verbatim>\<open>std::to_string\<close> does it,
  and the generic lemmas on words, lists and finite sums that several components use.
\<close>

unbundle bit_operations_syntax

type_synonym u8 = "8 word"
type_synonym u16 = "16 word"
type_synonym u32 = "32 word"
type_synonym u64 = "64 word"

named_theorems layout_simps \<open>facts that evaluate reads of a byte buffer built by concatenation\<close>
named_theorems engine_simps \<open>frame facts of the order book engine\<close>

section \<open>Big-endian values of byte lists\<close>

text \<open>
  The reference meaning of a big-endian field: the value of a byte list, most significant
  byte first, and its inverse at a fixed width.
\<close>

primrec be_val_acc :: "nat \<Rightarrow> u8 list \<Rightarrow> nat" where
  "be_val_acc a [] = a"
| "be_val_acc a (b # bs) = be_val_acc (a * 256 + unat b) bs"

definition be_val :: "u8 list \<Rightarrow> nat" where
  "be_val bs = be_val_acc 0 bs"

primrec be_bytes :: "nat \<Rightarrow> nat \<Rightarrow> u8 list" where
  "be_bytes 0 v = []"
| "be_bytes (Suc n) v = be_bytes n (v div 256) @ [word_of_nat v]"

lemma be_val_acc_append: "be_val_acc a (xs @ ys) = be_val_acc (be_val_acc a xs) ys"
  by (induction xs arbitrary: a) simp_all

lemma be_val_Nil [simp]: "be_val [] = 0"
  by (simp add: be_val_def)

lemma be_val_snoc [simp]: "be_val (xs @ [b]) = be_val xs * 256 + unat b"
  by (simp add: be_val_def be_val_acc_append)

lemma unat_u8_less [simp]: "unat (b :: u8) < 256"
  using unsigned_less [of b] by simp

lemma unat_u8_div [simp]: "unat (b :: u8) div 256 = 0"
  by simp

lemma unat_word_of_nat_u8 [simp]: "unat (word_of_nat v :: u8) = v mod 256"
  by (simp add: unsigned_of_nat take_bit_eq_mod)

lemma length_be_bytes [simp, layout_simps]: "length (be_bytes n v) = n"
  by (induction n arbitrary: v) simp_all

lemma be_val_bound: "be_val bs < 256 ^ length bs"
proof (induction bs rule: rev_induct)
  case (snoc b bs)
  have "be_val bs * 256 + unat b < (be_val bs + 1) * 256" by simp
  also have "\<dots> \<le> 256 ^ length bs * 256"
    using snoc.IH by (intro mult_le_mono) simp_all
  finally show ?case by (simp add: mult.commute)
qed simp

lemma be_val_be_bytes: "be_val (be_bytes n v) = v mod 256 ^ n"
proof (induction n arbitrary: v)
  case (Suc n)
  have "v mod (256 * 256 ^ n) = 256 * (v div 256 mod 256 ^ n) + v mod 256"
    by (rule mod_mult2_eq)
  with Suc show ?case by (simp add: mult.commute)
qed simp

lemma be_bytes_be_val: "be_bytes (length bs) (be_val bs) = bs"
proof (induction bs rule: rev_induct)
  case (snoc b bs)
  have "word_of_nat (be_val bs * 256 + unat b) = b"
    unfolding word_unat_eq_iff unat_word_of_nat_u8 by simp
  with snoc.IH show ?case by simp
qed simp

section \<open>Decimal printing\<close>

text \<open>\<^verbatim>\<open>std::to_string\<close> of an unsigned integer.\<close>

definition digit_char :: "nat \<Rightarrow> char" where
  "digit_char d = char_of (48 + d)"

fun to_string :: "nat \<Rightarrow> string" where
  "to_string n =
     (if n < 10 then [digit_char n] else to_string (n div 10) @ [digit_char (n mod 10)])"

declare to_string.simps [simp del]

lemma digit_char_inject: "d < 10 \<Longrightarrow> e < 10 \<Longrightarrow> digit_char d = digit_char e \<Longrightarrow> d = e"
  using char_of_eq_iff [of "48 + d" "digit_char e"] of_char_mod_256 [of "digit_char e"]
  by (auto simp: digit_char_def of_char_of)

lemma to_string_nonempty [simp]: "to_string n \<noteq> []" "[] \<noteq> to_string n"
  by (subst to_string.simps, simp)+

lemma to_string_inject: "to_string m = to_string n \<Longrightarrow> m = n"
proof (induction m arbitrary: n rule: to_string.induct)
  case (1 m)
  have unfold_n: "to_string k = (if k < 10 then [digit_char k] else to_string (k div 10) @ [digit_char (k mod 10)])" for k
    by (rule to_string.simps)
  show ?case
  proof (cases "m < 10")
    case True
    with "1.prems" show ?thesis
      unfolding unfold_n [of m] unfold_n [of n]
      by (auto split: if_splits intro: digit_char_inject)
  next
    case False
    with "1.prems" have n: "\<not> n < 10" and e: "to_string (m div 10) = to_string (n div 10)"
      and d: "digit_char (m mod 10) = digit_char (n mod 10)"
      unfolding unfold_n [of m] unfold_n [of n] by (auto split: if_splits)
    from "1.IH" [OF False e] have "m div 10 = n div 10" .
    moreover from d have "m mod 10 = n mod 10" by (rule digit_char_inject [rotated 2]) simp_all
    ultimately show ?thesis by (metis div_mult_mod_eq)
  qed
qed

section \<open>Words\<close>

lemma or_eq_plus_if_disjoint:
  fixes x y :: "'a::len word"
  assumes "x AND y = 0"
  shows "x OR y = x + y"
  using word_plus_and_or [of x y] assms by simp

lemma push_bit_8_and_byte: "push_bit 8 x AND ucast (b :: u8) = (0 :: 'a::len word)"
  by (rule bit_word_eqI) (auto simp: bit_simps dest: bit_imp_le_length)

lemma unat_push_byte:
  fixes a :: "'a::len word"
  assumes "unat a * 256 + 256 \<le> 2 ^ LENGTH('a)" and "8 \<le> LENGTH('a)"
  shows "unat (push_bit 8 a OR ucast (b :: u8)) = unat a * 256 + unat b"
proof -
  have b: "unat (ucast b :: 'a word) = unat b"
  proof -
    have "(256 :: nat) \<le> 2 ^ LENGTH('a)"
      using power_increasing [OF assms(2), of "2 :: nat"] by simp
    then have "unat b < 2 ^ LENGTH('a)" using unat_u8_less [of b] by linarith
    then show ?thesis by (simp add: unsigned_ucast_eq take_bit_nat_eq_self_iff)
  qed
  have "unat (push_bit 8 a :: 'a word) = unat a * 256"
  proof -
    have "take_bit LENGTH('a) (push_bit 8 (unat a)) = unat a * 256"
      using assms(1) by (simp add: push_bit_eq_mult take_bit_nat_eq_self_iff)
    then show ?thesis by (simp only: unsigned_push_bit_eq)
  qed
  moreover have "unat a * 256 + unat b < 2 ^ LENGTH('a)"
    using assms(1) unat_u8_less [of b] by linarith
  ultimately show ?thesis
    using b by (simp add: or_eq_plus_if_disjoint [OF push_bit_8_and_byte] unat_word_ariths)
qed

lemma unat_of_nat_u32: "n < 2 ^ 32 \<Longrightarrow> unat (word_of_nat n :: u32) = n"
  by (simp add: unsigned_of_nat take_bit_nat_eq_self_iff)

lemma unat_of_nat_u64: "n < 2 ^ 64 \<Longrightarrow> unat (word_of_nat n :: u64) = n"
  by (simp add: unsigned_of_nat take_bit_nat_eq_self_iff)

lemma unat_of_nat_u16: "n < 2 ^ 16 \<Longrightarrow> unat (word_of_nat n :: u16) = n"
  by (simp add: unsigned_of_nat take_bit_nat_eq_self_iff)

lemma of_nat_u32_eq_0: "n < 2 ^ 32 \<Longrightarrow> (word_of_nat n :: u32) = 0 \<longleftrightarrow> n = 0"
  by (simp only: unat_eq_0 [symmetric] unat_of_nat_u32)

end
