(* ===== verification/Byte_Order.thy ===== *)
theory Byte_Order
  imports Itch_Prelude
begin

text \<open>
  \<^verbatim>\<open>include/itch/byte_order.h\<close>: the big-endian readers. A C++ reader dereferences a raw pointer
  \<^verbatim>\<open>p + off\<close>; here it reads the buffer at an offset and is \<^const>\<open>None\<close> when one of the bytes it
  touches is outside the buffer, so that an out-of-bounds read is visible in the model.
\<close>

definition read_be16 :: "u8 list \<Rightarrow> nat \<Rightarrow> u16 option" where
  "read_be16 p off =
     (if off + 2 \<le> length p
      then Some (push_bit 8 (ucast (p ! off)) OR ucast (p ! (off + 1)))
      else None)"

definition read_be32 :: "u8 list \<Rightarrow> nat \<Rightarrow> u32 option" where
  "read_be32 p off =
     (if off + 4 \<le> length p
      then Some (push_bit 24 (ucast (p ! off)) OR
                 push_bit 16 (ucast (p ! (off + 1))) OR
                 push_bit 8 (ucast (p ! (off + 2))) OR
                 ucast (p ! (off + 3)))
      else None)"

definition read_be48 :: "u8 list \<Rightarrow> nat \<Rightarrow> u64 option" where
  "read_be48 p off =
     (if off + 6 \<le> length p
      then Some (push_bit 40 (ucast (p ! off)) OR
                 push_bit 32 (ucast (p ! (off + 1))) OR
                 push_bit 24 (ucast (p ! (off + 2))) OR
                 push_bit 16 (ucast (p ! (off + 3))) OR
                 push_bit 8 (ucast (p ! (off + 4))) OR
                 ucast (p ! (off + 5)))
      else None)"

definition read_be64 :: "u8 list \<Rightarrow> nat \<Rightarrow> u64 option" where
  "read_be64 p off =
     (if off + 8 \<le> length p
      then Some (push_bit 56 (ucast (p ! off)) OR
                 push_bit 48 (ucast (p ! (off + 1))) OR
                 push_bit 40 (ucast (p ! (off + 2))) OR
                 push_bit 32 (ucast (p ! (off + 3))) OR
                 push_bit 24 (ucast (p ! (off + 4))) OR
                 push_bit 16 (ucast (p ! (off + 5))) OR
                 push_bit 8 (ucast (p ! (off + 6))) OR
                 ucast (p ! (off + 7)))
      else None)"

section \<open>The readers compute the big-endian value\<close>

text \<open>
  Each reader is Horner's scheme on shifted words; \<open>be_word\<close> is that scheme over a byte list,
  and it agrees with the reference value as long as the word is wide enough.
\<close>

definition be_word :: "u8 list \<Rightarrow> 'a::len word" where
  "be_word bs = foldl (\<lambda>a b. push_bit 8 a OR ucast b) 0 bs"

lemma be_word_snoc: "be_word (bs @ [b]) = push_bit 8 (be_word bs) OR ucast b"
  by (simp add: be_word_def)

lemma unat_be_word:
  assumes "8 * length bs \<le> LENGTH('a::len)"
  shows "unat (be_word bs :: 'a word) = be_val bs"
  using assms
proof (induction bs rule: rev_induct)
  case Nil
  then show ?case by (simp add: be_word_def)
next
  case (snoc b bs)
  then have IH: "unat (be_word bs :: 'a word) = be_val bs" by simp
  have "be_val bs * 256 + 256 = (be_val bs + 1) * 256" by simp
  also have "\<dots> \<le> 256 ^ length bs * 256"
    using be_val_bound [of bs] by (intro mult_le_mono) simp_all
  also have "\<dots> = 2 ^ (8 * length (bs @ [b]))"
    by (simp add: power_mult power_add)
  also have "\<dots> \<le> 2 ^ LENGTH('a)"
    using snoc.prems by (intro power_increasing) simp_all
  finally have "unat (be_word bs :: 'a word) * 256 + 256 \<le> 2 ^ LENGTH('a)"
    by (simp only: IH)
  moreover have "8 \<le> LENGTH('a)" using snoc.prems by simp
  ultimately show ?case
    by (simp add: be_word_snoc unat_push_byte IH)
qed

text \<open>The bytes a reader touches, as one byte_slice of the buffer.\<close>

abbreviation byte_slice :: "'b list \<Rightarrow> nat \<Rightarrow> nat \<Rightarrow> 'b list" where
  "byte_slice p off n \<equiv> take n (drop off p)"

lemma take_Suc_drop_nth:
  "off < length p \<Longrightarrow> take (Suc n) (drop off p) = p ! off # take n (drop (Suc off) p)"
  by (simp add: Cons_nth_drop_Suc [symmetric])

lemma be_word_Nil: "be_word [] = 0"
  by (simp add: be_word_def)

lemmas be_word_shifts =
  be_word_def foldl.simps push_bit_or push_bit_push_bit push_bit_of_0 or.left_neutral or.assoc
  arith_simps

lemma read_be16_eq:
  "read_be16 p off = (if off + 2 \<le> length p then Some (be_word (byte_slice p off 2)) else None)"
proof -
  have "be_word [a, b] = push_bit 8 (ucast a) OR (ucast b :: u16)" for a b :: u8
    by (simp only: be_word_shifts)
  moreover have "off + 2 \<le> length p \<Longrightarrow> byte_slice p off 2 = [p ! off, p ! (off + 1)]"
    by (simp add: take_Suc_drop_nth numeral_eq_Suc)
  ultimately show ?thesis by (simp only: read_be16_def cong: if_cong)
qed

lemma read_be32_eq:
  "read_be32 p off = (if off + 4 \<le> length p then Some (be_word (byte_slice p off 4)) else None)"
proof -
  have "be_word [a, b, c, d] =
      push_bit 24 (ucast a) OR push_bit 16 (ucast b) OR push_bit 8 (ucast c) OR (ucast d :: u32)"
    for a b c d :: u8
    by (simp only: be_word_shifts)
  moreover have "off + 4 \<le> length p \<Longrightarrow>
      byte_slice p off 4 = [p ! off, p ! (off + 1), p ! (off + 2), p ! (off + 3)]"
    by (simp add: take_Suc_drop_nth numeral_eq_Suc)
  ultimately show ?thesis by (simp only: read_be32_def cong: if_cong)
qed

lemma read_be48_eq:
  "read_be48 p off = (if off + 6 \<le> length p then Some (be_word (byte_slice p off 6)) else None)"
proof -
  have "be_word [a, b, c, d, e, f] =
      push_bit 40 (ucast a) OR push_bit 32 (ucast b) OR push_bit 24 (ucast c) OR
      push_bit 16 (ucast d) OR push_bit 8 (ucast e) OR (ucast f :: u64)"
    for a b c d e f :: u8
    by (simp only: be_word_shifts)
  moreover have "off + 6 \<le> length p \<Longrightarrow>
      byte_slice p off 6 = [p ! off, p ! (off + 1), p ! (off + 2), p ! (off + 3), p ! (off + 4), p ! (off + 5)]"
    by (simp add: take_Suc_drop_nth numeral_eq_Suc)
  ultimately show ?thesis by (simp only: read_be48_def cong: if_cong)
qed

lemma read_be64_eq:
  "read_be64 p off = (if off + 8 \<le> length p then Some (be_word (byte_slice p off 8)) else None)"
proof -
  have "be_word [a, b, c, d, e, f, g, h] =
      push_bit 56 (ucast a) OR push_bit 48 (ucast b) OR push_bit 40 (ucast c) OR
      push_bit 32 (ucast d) OR push_bit 24 (ucast e) OR push_bit 16 (ucast f) OR
      push_bit 8 (ucast g) OR (ucast h :: u64)"
    for a b c d e f g h :: u8
    by (simp only: be_word_shifts)
  moreover have "off + 8 \<le> length p \<Longrightarrow>
      byte_slice p off 8 = [p ! off, p ! (off + 1), p ! (off + 2), p ! (off + 3),
        p ! (off + 4), p ! (off + 5), p ! (off + 6), p ! (off + 7)]"
    by (simp add: take_Suc_drop_nth numeral_eq_Suc)
  ultimately show ?thesis by (simp only: read_be64_def cong: if_cong)
qed

lemmas read_be_eqs = read_be16_eq read_be32_eq read_be48_eq read_be64_eq

text \<open>Evaluation of a read by word arithmetic instead of bit operations.\<close>

lemma be_word_arith [code]: "be_word bs = foldl (\<lambda>a b. a * 256 + ucast b) 0 bs"
proof -
  have "push_bit 8 a OR ucast b = a * 256 + (ucast b :: 'a word)" for a :: "'a word" and b :: u8
  proof -
    have "push_bit 8 a OR ucast b = push_bit 8 a + (ucast b :: 'a word)"
      by (rule disjunctive_add [symmetric]) (auto simp: bit_push_bit_iff bit_unsigned_iff dest: bit_imp_le_length)
    then show ?thesis by (simp add: push_bit_eq_mult)
  qed
  then show ?thesis by (simp add: be_word_def)
qed

declare read_be_eqs [code]

text \<open>A field written big-endian is read back.\<close>

lemma be_word_be_bytes:
  assumes "8 * n \<le> LENGTH('a::len)" and "unat w < 256 ^ n"
  shows "be_word (be_bytes n (unat w)) = (w :: 'a word)"
  by (rule word_unat_eq_iff [THEN iffD2]) (simp add: assms unat_be_word be_val_be_bytes)

lemma be_word_be_bytes_u16 [layout_simps]: "be_word (be_bytes 2 (unat w)) = (w :: u16)"
  using unsigned_less [of w] by (intro be_word_be_bytes) simp_all

lemma be_word_be_bytes_u32 [layout_simps]: "be_word (be_bytes 4 (unat w)) = (w :: u32)"
  using unsigned_less [of w] by (intro be_word_be_bytes) simp_all

lemma be_word_be_bytes_u64 [layout_simps]: "be_word (be_bytes 8 (unat w)) = (w :: u64)"
  using unsigned_less [of w] by (intro be_word_be_bytes) simp_all

lemma be_word_be_bytes_u48 [layout_simps]:
  "unat w < 2 ^ 48 \<Longrightarrow> be_word (be_bytes 6 (unat w)) = (w :: u64)"
  by (intro be_word_be_bytes) simp_all

text \<open>Conversely, writing what was read gives the bytes back.\<close>

lemma be_bytes_be_word:
  assumes "8 * length bs \<le> LENGTH('a::len)" and "length bs = n"
  shows "be_bytes n (unat (be_word bs :: 'a word)) = bs"
  using be_bytes_be_val [of bs] assms by (simp add: unat_be_word)

end
