(* ===== verification/Messages.thy ===== *)
theory Messages
  imports Byte_Order
begin

text \<open>
  The data of \<^verbatim>\<open>include/itch/price.h\<close>, \<^verbatim>\<open>message_buffer.h\<close> and \<^verbatim>\<open>messages.h\<close>: the fixed-point
  price with its ordering, the raw message buffer, the nine message structs and the variant
  \<^verbatim>\<open>ParsedMessage\<close>. A struct is a record whose fields carry a two-letter tag of the message.
\<close>

type_synonym MessageBuffer = "u8 list"

section \<open>Price\<close>

text \<open>The defaulted \<^verbatim>\<open>operator<=>\<close> of the one-field struct compares \<^verbatim>\<open>raw\<close>.\<close>

datatype Price = Price (raw: u32)

instantiation Price :: linorder
begin

definition less_eq_Price :: "Price \<Rightarrow> Price \<Rightarrow> bool" where
  "less_eq_Price a b \<longleftrightarrow> raw a \<le> raw b"

definition less_Price :: "Price \<Rightarrow> Price \<Rightarrow> bool" where
  "less_Price a b \<longleftrightarrow> raw a < raw b"

instance
  by standard (auto simp: less_eq_Price_def less_Price_def intro: Price.expand)

end

section \<open>Bytes and characters\<close>

text \<open>\<^verbatim>\<open>static_cast<char>\<close> of a byte and back keep the eight bits.\<close>

definition char_of_byte :: "u8 \<Rightarrow> char" where
  "char_of_byte b = char_of (unat b)"

definition byte_of_char :: "char \<Rightarrow> u8" where
  "byte_of_char c = word_of_nat (of_char c)"

lemma byte_of_char_of_byte [simp]: "byte_of_char (char_of_byte b) = b"
  by (simp add: char_of_byte_def byte_of_char_def)

lemma char_of_byte_of_char [simp]: "char_of_byte (byte_of_char c) = c"
  by (simp add: char_of_byte_def byte_of_char_def)

lemma char_of_byte_eq_iff: "char_of_byte b = c \<longleftrightarrow> b = byte_of_char c"
  by auto

section \<open>Message structs\<close>

record StockDirectoryMsg =
  sd_stock_locate :: u16
  sd_tracking_number :: u16
  sd_timestamp :: u64
  sd_stock :: string
  sd_market_category :: char
  sd_financial_status :: char
  sd_round_lot_size :: u32
  sd_round_lots_only :: char
  sd_issue_classification :: char
  sd_issue_sub_type :: string
  sd_authenticity :: char
  sd_short_sale_threshold :: char
  sd_ipo_flag :: char
  sd_luld_ref_price_tier :: char
  sd_etp_flag :: char
  sd_etp_leverage_factor :: u32
  sd_inverse_indicator :: char

record StockTradingActionMsg =
  ta_stock_locate :: u16
  ta_tracking_number :: u16
  ta_timestamp :: u64
  ta_stock :: string
  ta_trading_state :: char
  ta_reserved :: char
  ta_reason :: string

record AddOrderMsg =
  ao_stock_locate :: u16
  ao_tracking_number :: u16
  ao_timestamp :: u64
  ao_order_ref :: u64
  ao_side :: char
  ao_shares :: u32
  ao_stock :: string
  ao_price :: Price

record AddOrderMPIDMsg =
  am_stock_locate :: u16
  am_tracking_number :: u16
  am_timestamp :: u64
  am_order_ref :: u64
  am_side :: char
  am_shares :: u32
  am_stock :: string
  am_price :: Price
  am_attribution :: string

record OrderExecutedMsg =
  oe_stock_locate :: u16
  oe_tracking_number :: u16
  oe_timestamp :: u64
  oe_order_ref :: u64
  oe_executed_shares :: u32
  oe_match_number :: u64

record OrderExecutedPriceMsg =
  op_stock_locate :: u16
  op_tracking_number :: u16
  op_timestamp :: u64
  op_order_ref :: u64
  op_executed_shares :: u32
  op_match_number :: u64
  op_printable :: char
  op_execution_price :: Price

record OrderCancelMsg =
  oc_stock_locate :: u16
  oc_tracking_number :: u16
  oc_timestamp :: u64
  oc_order_ref :: u64
  oc_cancelled_shares :: u32

record OrderDeleteMsg =
  od_stock_locate :: u16
  od_tracking_number :: u16
  od_timestamp :: u64
  od_order_ref :: u64

record OrderReplaceMsg =
  or_stock_locate :: u16
  or_tracking_number :: u16
  or_timestamp :: u64
  or_original_order_ref :: u64
  or_new_order_ref :: u64
  or_shares :: u32
  or_price :: Price

datatype ParsedMessage =
    StockDirectory StockDirectoryMsg
  | StockTradingAction StockTradingActionMsg
  | AddOrder AddOrderMsg
  | AddOrderMPID AddOrderMPIDMsg
  | OrderExecuted OrderExecutedMsg
  | OrderExecutedPrice OrderExecutedPriceMsg
  | OrderCancel OrderCancelMsg
  | OrderDelete OrderDeleteMsg
  | OrderReplace OrderReplaceMsg

end
