(* ===== verification/Parser.thy ===== *)
theory Parser
  imports Messages
begin

text \<open>
  \<^verbatim>\<open>src/parser.cpp\<close>: the length guards, the nine per-type deserialisers and the dispatcher, in
  both of its compiled forms (the switch and the computed-goto table). A thrown
  \<^verbatim>\<open>std::runtime_error\<close> is the left summand of the result; the option inside the right summand
  is the \<^verbatim>\<open>std::optional\<close>. \<open>OutOfBoundsRead\<close> stands for the undefined behaviour of reading past
  the buffer; no input reaches it.
\<close>

datatype parser_exn =
    EmptyBuffer
  | Truncated string nat nat
  | OutOfBoundsRead

type_synonym 'a parse_result = "parser_exn + 'a"

section \<open>Fixed-width alpha fields\<close>

fun find_last_not_of :: "string \<Rightarrow> char \<Rightarrow> nat option" where
  "find_last_not_of [] c = None"
| "find_last_not_of (x # xs) c =
     (case find_last_not_of xs c of
        Some i \<Rightarrow> Some (Suc i)
      | None \<Rightarrow> if x = c then None else Some 0)"

definition strip_spaces :: "string \<Rightarrow> string" where
  "strip_spaces s =
     (case find_last_not_of s CHR '' '' of
        None \<Rightarrow> []
      | Some last_idx \<Rightarrow> take (last_idx + 1) s)"

definition read_alpha :: "u8 list \<Rightarrow> nat \<Rightarrow> nat \<Rightarrow> string option" where
  "read_alpha p off len =
     (if off + len \<le> length p
      then Some (strip_spaces (map char_of_byte (take len (drop off p))))
      else None)"

definition read_char :: "u8 list \<Rightarrow> nat \<Rightarrow> char option" where
  "read_char p off = (if off < length p then Some (char_of_byte (p ! off)) else None)"

section \<open>Length guards\<close>

definition require :: "MessageBuffer \<Rightarrow> nat \<Rightarrow> string \<Rightarrow> unit parse_result" where
  "require buf needed msg_type =
     (if length buf < needed then Inl (Truncated msg_type needed (length buf)) else Inr ())"

text \<open>A deserialiser: the guard first, then the field reads.\<close>

definition guarded :: "unit parse_result \<Rightarrow> 'a option \<Rightarrow> 'a parse_result" where
  "guarded g body =
     (case g of
        Inl e \<Rightarrow> Inl e
      | Inr _ \<Rightarrow> (case body of None \<Rightarrow> Inl OutOfBoundsRead | Some m \<Rightarrow> Inr m))"

section \<open>Per-type deserialisers\<close>

definition parse_stock_directory :: "MessageBuffer \<Rightarrow> StockDirectoryMsg parse_result" where
  "parse_stock_directory buf = guarded (require buf 39 ''StockDirectory'')
     (do {
        stock_locate \<leftarrow> read_be16 buf 1;
        tracking_number \<leftarrow> read_be16 buf 3;
        timestamp \<leftarrow> read_be48 buf 5;
        stock \<leftarrow> read_alpha buf 11 8;
        market_category \<leftarrow> read_char buf 19;
        financial_status \<leftarrow> read_char buf 20;
        round_lot_size \<leftarrow> read_be32 buf 21;
        round_lots_only \<leftarrow> read_char buf 25;
        issue_classification \<leftarrow> read_char buf 26;
        issue_sub_type \<leftarrow> read_alpha buf 27 2;
        authenticity \<leftarrow> read_char buf 29;
        short_sale_threshold \<leftarrow> read_char buf 30;
        ipo_flag \<leftarrow> read_char buf 31;
        luld_ref_price_tier \<leftarrow> read_char buf 32;
        etp_flag \<leftarrow> read_char buf 33;
        etp_leverage_factor \<leftarrow> read_be32 buf 34;
        inverse_indicator \<leftarrow> read_char buf 38;
        Some \<lparr>sd_stock_locate = stock_locate, sd_tracking_number = tracking_number,
              sd_timestamp = timestamp, sd_stock = stock, sd_market_category = market_category,
              sd_financial_status = financial_status, sd_round_lot_size = round_lot_size,
              sd_round_lots_only = round_lots_only,
              sd_issue_classification = issue_classification,
              sd_issue_sub_type = issue_sub_type, sd_authenticity = authenticity,
              sd_short_sale_threshold = short_sale_threshold, sd_ipo_flag = ipo_flag,
              sd_luld_ref_price_tier = luld_ref_price_tier, sd_etp_flag = etp_flag,
              sd_etp_leverage_factor = etp_leverage_factor,
              sd_inverse_indicator = inverse_indicator\<rparr>
      })"

definition parse_trading_action :: "MessageBuffer \<Rightarrow> StockTradingActionMsg parse_result" where
  "parse_trading_action buf = guarded (require buf 25 ''StockTradingAction'')
     (do {
        stock_locate \<leftarrow> read_be16 buf 1;
        tracking_number \<leftarrow> read_be16 buf 3;
        timestamp \<leftarrow> read_be48 buf 5;
        stock \<leftarrow> read_alpha buf 11 8;
        trading_state \<leftarrow> read_char buf 19;
        reserved \<leftarrow> read_char buf 20;
        reason \<leftarrow> read_alpha buf 21 4;
        Some \<lparr>ta_stock_locate = stock_locate, ta_tracking_number = tracking_number,
              ta_timestamp = timestamp, ta_stock = stock, ta_trading_state = trading_state,
              ta_reserved = reserved, ta_reason = reason\<rparr>
      })"

definition parse_add_order :: "MessageBuffer \<Rightarrow> AddOrderMsg parse_result" where
  "parse_add_order buf = guarded (require buf 36 ''AddOrder'')
     (do {
        stock_locate \<leftarrow> read_be16 buf 1;
        tracking_number \<leftarrow> read_be16 buf 3;
        timestamp \<leftarrow> read_be48 buf 5;
        order_ref \<leftarrow> read_be64 buf 11;
        side \<leftarrow> read_char buf 19;
        shares \<leftarrow> read_be32 buf 20;
        stock \<leftarrow> read_alpha buf 24 8;
        price_raw \<leftarrow> read_be32 buf 32;
        Some \<lparr>ao_stock_locate = stock_locate, ao_tracking_number = tracking_number,
              ao_timestamp = timestamp, ao_order_ref = order_ref, ao_side = side,
              ao_shares = shares, ao_stock = stock, ao_price = Price price_raw\<rparr>
      })"

definition parse_add_order_mpid :: "MessageBuffer \<Rightarrow> AddOrderMPIDMsg parse_result" where
  "parse_add_order_mpid buf = guarded (require buf 40 ''AddOrderMPID'')
     (do {
        stock_locate \<leftarrow> read_be16 buf 1;
        tracking_number \<leftarrow> read_be16 buf 3;
        timestamp \<leftarrow> read_be48 buf 5;
        order_ref \<leftarrow> read_be64 buf 11;
        side \<leftarrow> read_char buf 19;
        shares \<leftarrow> read_be32 buf 20;
        stock \<leftarrow> read_alpha buf 24 8;
        price_raw \<leftarrow> read_be32 buf 32;
        attribution \<leftarrow> read_alpha buf 36 4;
        Some \<lparr>am_stock_locate = stock_locate, am_tracking_number = tracking_number,
              am_timestamp = timestamp, am_order_ref = order_ref, am_side = side,
              am_shares = shares, am_stock = stock, am_price = Price price_raw,
              am_attribution = attribution\<rparr>
      })"

definition parse_order_executed :: "MessageBuffer \<Rightarrow> OrderExecutedMsg parse_result" where
  "parse_order_executed buf = guarded (require buf 31 ''OrderExecuted'')
     (do {
        stock_locate \<leftarrow> read_be16 buf 1;
        tracking_number \<leftarrow> read_be16 buf 3;
        timestamp \<leftarrow> read_be48 buf 5;
        order_ref \<leftarrow> read_be64 buf 11;
        executed_shares \<leftarrow> read_be32 buf 19;
        match_number \<leftarrow> read_be64 buf 23;
        Some \<lparr>oe_stock_locate = stock_locate, oe_tracking_number = tracking_number,
              oe_timestamp = timestamp, oe_order_ref = order_ref,
              oe_executed_shares = executed_shares, oe_match_number = match_number\<rparr>
      })"

definition parse_order_executed_price :: "MessageBuffer \<Rightarrow> OrderExecutedPriceMsg parse_result" where
  "parse_order_executed_price buf = guarded (require buf 36 ''OrderExecutedPrice'')
     (do {
        stock_locate \<leftarrow> read_be16 buf 1;
        tracking_number \<leftarrow> read_be16 buf 3;
        timestamp \<leftarrow> read_be48 buf 5;
        order_ref \<leftarrow> read_be64 buf 11;
        executed_shares \<leftarrow> read_be32 buf 19;
        match_number \<leftarrow> read_be64 buf 23;
        printable \<leftarrow> read_char buf 31;
        execution_price_raw \<leftarrow> read_be32 buf 32;
        Some \<lparr>op_stock_locate = stock_locate, op_tracking_number = tracking_number,
              op_timestamp = timestamp, op_order_ref = order_ref,
              op_executed_shares = executed_shares, op_match_number = match_number,
              op_printable = printable, op_execution_price = Price execution_price_raw\<rparr>
      })"

definition parse_order_cancel :: "MessageBuffer \<Rightarrow> OrderCancelMsg parse_result" where
  "parse_order_cancel buf = guarded (require buf 23 ''OrderCancel'')
     (do {
        stock_locate \<leftarrow> read_be16 buf 1;
        tracking_number \<leftarrow> read_be16 buf 3;
        timestamp \<leftarrow> read_be48 buf 5;
        order_ref \<leftarrow> read_be64 buf 11;
        cancelled_shares \<leftarrow> read_be32 buf 19;
        Some \<lparr>oc_stock_locate = stock_locate, oc_tracking_number = tracking_number,
              oc_timestamp = timestamp, oc_order_ref = order_ref,
              oc_cancelled_shares = cancelled_shares\<rparr>
      })"

definition parse_order_delete :: "MessageBuffer \<Rightarrow> OrderDeleteMsg parse_result" where
  "parse_order_delete buf = guarded (require buf 19 ''OrderDelete'')
     (do {
        stock_locate \<leftarrow> read_be16 buf 1;
        tracking_number \<leftarrow> read_be16 buf 3;
        timestamp \<leftarrow> read_be48 buf 5;
        order_ref \<leftarrow> read_be64 buf 11;
        Some \<lparr>od_stock_locate = stock_locate, od_tracking_number = tracking_number,
              od_timestamp = timestamp, od_order_ref = order_ref\<rparr>
      })"

definition parse_order_replace :: "MessageBuffer \<Rightarrow> OrderReplaceMsg parse_result" where
  "parse_order_replace buf = guarded (require buf 35 ''OrderReplace'')
     (do {
        stock_locate \<leftarrow> read_be16 buf 1;
        tracking_number \<leftarrow> read_be16 buf 3;
        timestamp \<leftarrow> read_be48 buf 5;
        original_order_ref \<leftarrow> read_be64 buf 11;
        new_order_ref \<leftarrow> read_be64 buf 19;
        shares \<leftarrow> read_be32 buf 27;
        price_raw \<leftarrow> read_be32 buf 31;
        Some \<lparr>or_stock_locate = stock_locate, or_tracking_number = tracking_number,
              or_timestamp = timestamp, or_original_order_ref = original_order_ref,
              or_new_order_ref = new_order_ref, or_shares = shares, or_price = Price price_raw\<rparr>
      })"

section \<open>Dispatcher\<close>

definition as_msg :: "('m \<Rightarrow> ParsedMessage) \<Rightarrow> 'm parse_result \<Rightarrow> ParsedMessage option parse_result" where
  "as_msg wrap r = (case r of Inl e \<Rightarrow> Inl e | Inr m \<Rightarrow> Inr (Some (wrap m)))"

definition parse :: "MessageBuffer \<Rightarrow> ParsedMessage option parse_result" where
  "parse buf =
     (if buf = [] then Inl EmptyBuffer
      else let c = char_of_byte (buf ! 0) in
        if c = CHR ''R'' then as_msg StockDirectory (parse_stock_directory buf)
        else if c = CHR ''H'' then as_msg StockTradingAction (parse_trading_action buf)
        else if c = CHR ''A'' then as_msg AddOrder (parse_add_order buf)
        else if c = CHR ''F'' then as_msg AddOrderMPID (parse_add_order_mpid buf)
        else if c = CHR ''E'' then as_msg OrderExecuted (parse_order_executed buf)
        else if c = CHR ''C'' then as_msg OrderExecutedPrice (parse_order_executed_price buf)
        else if c = CHR ''X'' then as_msg OrderCancel (parse_order_cancel buf)
        else if c = CHR ''D'' then as_msg OrderDelete (parse_order_delete buf)
        else if c = CHR ''U'' then as_msg OrderReplace (parse_order_replace buf)
        else Inr None)"

text \<open>The computed-goto build: a 256-entry table of labels indexed by the type byte.\<close>

datatype dispatch_label = L_unknown | L_R | L_H | L_A | L_F | L_E | L_C | L_X | L_D | L_U

definition dispatch :: "u8 \<Rightarrow> dispatch_label" where
  "dispatch = (\<lambda>_. L_unknown)
     (0x52 := L_R, 0x48 := L_H, 0x41 := L_A, 0x46 := L_F, 0x45 := L_E,
      0x43 := L_C, 0x58 := L_X, 0x44 := L_D, 0x55 := L_U)"

definition parse_computed_goto :: "MessageBuffer \<Rightarrow> ParsedMessage option parse_result" where
  "parse_computed_goto buf =
     (if buf = [] then Inl EmptyBuffer
      else case dispatch (buf ! 0) of
        L_R \<Rightarrow> as_msg StockDirectory (parse_stock_directory buf)
      | L_H \<Rightarrow> as_msg StockTradingAction (parse_trading_action buf)
      | L_A \<Rightarrow> as_msg AddOrder (parse_add_order buf)
      | L_F \<Rightarrow> as_msg AddOrderMPID (parse_add_order_mpid buf)
      | L_E \<Rightarrow> as_msg OrderExecuted (parse_order_executed buf)
      | L_C \<Rightarrow> as_msg OrderExecutedPrice (parse_order_executed_price buf)
      | L_X \<Rightarrow> as_msg OrderCancel (parse_order_cancel buf)
      | L_D \<Rightarrow> as_msg OrderDelete (parse_order_delete buf)
      | L_U \<Rightarrow> as_msg OrderReplace (parse_order_replace buf)
      | L_unknown \<Rightarrow> Inr None)"

end
