(* ===== verification/Wire_Format.thy ===== *)
theory Wire_Format
  imports Parser
begin

text \<open>
  The ITCH 5.0 wire format as a specification: an encoder per message type, written with the
  field widths of the format and the space padding that the test helpers use
  (\<^verbatim>\<open>tests/test_parser.cpp\<close>). The parser inverts it on well-formed messages and loses nothing on
  any buffer it accepts; it never reads outside the buffer, and both dispatchers agree.
\<close>

section \<open>Encoder\<close>

definition write_alpha :: "string \<Rightarrow> nat \<Rightarrow> u8 list" where
  "write_alpha s width =
     map (\<lambda>i. byte_of_char (if i < length s then s ! i else CHR '' '')) [0..<width]"

definition encode_header :: "char \<Rightarrow> u16 \<Rightarrow> u16 \<Rightarrow> u64 \<Rightarrow> u8 list" where
  "encode_header c locate tracking ts =
     byte_of_char c # be_bytes 2 (unat locate) @ be_bytes 2 (unat tracking) @ be_bytes 6 (unat ts)"

fun encode :: "ParsedMessage \<Rightarrow> u8 list" where
  "encode (StockDirectory m) =
     encode_header CHR ''R'' (sd_stock_locate m) (sd_tracking_number m) (sd_timestamp m) @
     write_alpha (sd_stock m) 8 @ [byte_of_char (sd_market_category m)] @
     [byte_of_char (sd_financial_status m)] @ be_bytes 4 (unat (sd_round_lot_size m)) @
     [byte_of_char (sd_round_lots_only m)] @ [byte_of_char (sd_issue_classification m)] @
     write_alpha (sd_issue_sub_type m) 2 @ [byte_of_char (sd_authenticity m)] @
     [byte_of_char (sd_short_sale_threshold m)] @ [byte_of_char (sd_ipo_flag m)] @
     [byte_of_char (sd_luld_ref_price_tier m)] @ [byte_of_char (sd_etp_flag m)] @
     be_bytes 4 (unat (sd_etp_leverage_factor m)) @ [byte_of_char (sd_inverse_indicator m)]"
| "encode (StockTradingAction m) =
     encode_header CHR ''H'' (ta_stock_locate m) (ta_tracking_number m) (ta_timestamp m) @
     write_alpha (ta_stock m) 8 @ [byte_of_char (ta_trading_state m)] @
     [byte_of_char (ta_reserved m)] @ write_alpha (ta_reason m) 4"
| "encode (AddOrder m) =
     encode_header CHR ''A'' (ao_stock_locate m) (ao_tracking_number m) (ao_timestamp m) @
     be_bytes 8 (unat (ao_order_ref m)) @ [byte_of_char (ao_side m)] @
     be_bytes 4 (unat (ao_shares m)) @ write_alpha (ao_stock m) 8 @
     be_bytes 4 (unat (raw (ao_price m)))"
| "encode (AddOrderMPID m) =
     encode_header CHR ''F'' (am_stock_locate m) (am_tracking_number m) (am_timestamp m) @
     be_bytes 8 (unat (am_order_ref m)) @ [byte_of_char (am_side m)] @
     be_bytes 4 (unat (am_shares m)) @ write_alpha (am_stock m) 8 @
     be_bytes 4 (unat (raw (am_price m))) @ write_alpha (am_attribution m) 4"
| "encode (OrderExecuted m) =
     encode_header CHR ''E'' (oe_stock_locate m) (oe_tracking_number m) (oe_timestamp m) @
     be_bytes 8 (unat (oe_order_ref m)) @ be_bytes 4 (unat (oe_executed_shares m)) @
     be_bytes 8 (unat (oe_match_number m))"
| "encode (OrderExecutedPrice m) =
     encode_header CHR ''C'' (op_stock_locate m) (op_tracking_number m) (op_timestamp m) @
     be_bytes 8 (unat (op_order_ref m)) @ be_bytes 4 (unat (op_executed_shares m)) @
     be_bytes 8 (unat (op_match_number m)) @ [byte_of_char (op_printable m)] @
     be_bytes 4 (unat (raw (op_execution_price m)))"
| "encode (OrderCancel m) =
     encode_header CHR ''X'' (oc_stock_locate m) (oc_tracking_number m) (oc_timestamp m) @
     be_bytes 8 (unat (oc_order_ref m)) @ be_bytes 4 (unat (oc_cancelled_shares m))"
| "encode (OrderDelete m) =
     encode_header CHR ''D'' (od_stock_locate m) (od_tracking_number m) (od_timestamp m) @
     be_bytes 8 (unat (od_order_ref m))"
| "encode (OrderReplace m) =
     encode_header CHR ''U'' (or_stock_locate m) (or_tracking_number m) (or_timestamp m) @
     be_bytes 8 (unat (or_original_order_ref m)) @ be_bytes 8 (unat (or_new_order_ref m)) @
     be_bytes 4 (unat (or_shares m)) @ be_bytes 4 (unat (raw (or_price m)))"

text \<open>
  The messages the format can carry: a timestamp of six bytes, and alpha fields that fit their
  width and do not end in the padding character.
\<close>

definition alpha_ok :: "string \<Rightarrow> nat \<Rightarrow> bool" where
  "alpha_ok s width \<longleftrightarrow> length s \<le> width \<and> (s = [] \<or> last s \<noteq> CHR '' '')"

definition ts_ok :: "u64 \<Rightarrow> bool" where
  "ts_ok t \<longleftrightarrow> unat t < 2 ^ 48"

fun encodable :: "ParsedMessage \<Rightarrow> bool" where
  "encodable (StockDirectory m) \<longleftrightarrow>
     ts_ok (sd_timestamp m) \<and> alpha_ok (sd_stock m) 8 \<and> alpha_ok (sd_issue_sub_type m) 2"
| "encodable (StockTradingAction m) \<longleftrightarrow>
     ts_ok (ta_timestamp m) \<and> alpha_ok (ta_stock m) 8 \<and> alpha_ok (ta_reason m) 4"
| "encodable (AddOrder m) \<longleftrightarrow> ts_ok (ao_timestamp m) \<and> alpha_ok (ao_stock m) 8"
| "encodable (AddOrderMPID m) \<longleftrightarrow>
     ts_ok (am_timestamp m) \<and> alpha_ok (am_stock m) 8 \<and> alpha_ok (am_attribution m) 4"
| "encodable (OrderExecuted m) \<longleftrightarrow> ts_ok (oe_timestamp m)"
| "encodable (OrderExecutedPrice m) \<longleftrightarrow> ts_ok (op_timestamp m)"
| "encodable (OrderCancel m) \<longleftrightarrow> ts_ok (oc_timestamp m)"
| "encodable (OrderDelete m) \<longleftrightarrow> ts_ok (od_timestamp m)"
| "encodable (OrderReplace m) \<longleftrightarrow> ts_ok (or_timestamp m)"

text \<open>The length of each message on the wire.\<close>

fun wire_length :: "ParsedMessage \<Rightarrow> nat" where
  "wire_length (StockDirectory m) = 39"
| "wire_length (StockTradingAction m) = 25"
| "wire_length (AddOrder m) = 36"
| "wire_length (AddOrderMPID m) = 40"
| "wire_length (OrderExecuted m) = 31"
| "wire_length (OrderExecutedPrice m) = 36"
| "wire_length (OrderCancel m) = 23"
| "wire_length (OrderDelete m) = 19"
| "wire_length (OrderReplace m) = 35"

section \<open>Alpha fields\<close>

lemma find_last_not_of_None: "find_last_not_of s c = None \<longleftrightarrow> s = replicate (length s) c"
  by (induction s) (auto split: option.splits)

lemma strip_spaces_pad:
  assumes "s = [] \<or> last s \<noteq> CHR '' ''"
  shows "strip_spaces (s @ replicate n CHR '' '') = s"
proof (cases "s = []")
  case True
  have "find_last_not_of (replicate n CHR '' '') CHR '' '' = None"
    by (simp add: find_last_not_of_None)
  with True show ?thesis by (simp add: strip_spaces_def)
next
  case False
  have "s \<noteq> [] \<Longrightarrow> last s \<noteq> c \<Longrightarrow>
      find_last_not_of (s @ replicate n c) c = Some (length s - 1)" for c
  proof (induction s)
    case (Cons x xs)
    show ?case
    proof (cases "xs = []")
      case True
      have "find_last_not_of (replicate n c) c = None" by (simp add: find_last_not_of_None)
      with True Cons.prems show ?thesis by simp
    next
      case False
      with Cons show ?thesis by simp
    qed
  qed simp
  with False assms show ?thesis by (simp add: strip_spaces_def)
qed

lemma strip_spaces_split:
  "\<exists>n. s = strip_spaces s @ replicate n CHR '' '' \<and> (strip_spaces s = [] \<or> last (strip_spaces s) \<noteq> CHR '' '')"
proof (induction s rule: rev_induct)
  case Nil
  show ?case by (simp add: strip_spaces_def)
next
  case (snoc x xs)
  show ?case
  proof (cases "x = CHR '' ''")
    case True
    from snoc.IH obtain n where n: "xs = strip_spaces xs @ replicate n CHR '' ''"
      and l: "strip_spaces xs = [] \<or> last (strip_spaces xs) \<noteq> CHR '' ''" by blast
    have "xs @ [x] = strip_spaces xs @ replicate (Suc n) CHR '' ''"
      using n True by (metis append.assoc replicate_append_same replicate_Suc)
    with l strip_spaces_pad [OF l, of "Suc n"] show ?thesis by metis
  next
    case False
    then show ?thesis using strip_spaces_pad [of "xs @ [x]" 0] by (intro exI [of _ 0]) simp
  qed
qed

lemma write_alpha_eq:
  "length s \<le> width \<Longrightarrow>
     write_alpha s width = map byte_of_char (s @ replicate (width - length s) CHR '' '')"
  by (rule nth_equalityI) (simp_all add: write_alpha_def nth_append)

lemma length_write_alpha [simp, layout_simps]: "length (write_alpha s width) = width"
  by (simp add: write_alpha_def)

lemma strip_write_alpha [layout_simps]:
  "alpha_ok s width \<Longrightarrow> strip_spaces (map char_of_byte (write_alpha s width)) = s"
  by (auto simp: alpha_ok_def write_alpha_eq o_def strip_spaces_pad)

lemma strip_spaces_alpha:
  fixes bs :: "u8 list"
  shows "alpha_ok (strip_spaces (map char_of_byte bs)) (length bs)"
    and "write_alpha (strip_spaces (map char_of_byte bs)) (length bs) = bs"
proof -
  let ?s = "map char_of_byte bs"
  obtain n where n: "?s = strip_spaces ?s @ replicate n CHR '' ''"
    and l: "strip_spaces ?s = [] \<or> last (strip_spaces ?s) \<noteq> CHR '' ''"
    using strip_spaces_split [of ?s] by blast
  have len: "length (strip_spaces ?s) + n = length bs"
    using arg_cong [OF n, of length] by simp
  then show "alpha_ok (strip_spaces ?s) (length bs)" using l by (simp add: alpha_ok_def)
  have "write_alpha (strip_spaces ?s) (length bs) =
      map byte_of_char (strip_spaces ?s @ replicate n CHR '' '')"
    using len by (subst write_alpha_eq) (auto simp: diff_add_inverse)
  also have "\<dots> = map byte_of_char ?s" using n by simp
  finally show "write_alpha (strip_spaces ?s) (length bs) = bs" by (simp add: o_def)
qed

section \<open>Parsing what was encoded\<close>

lemmas read_simps = guarded_def require_def read_be_eqs read_alpha_def read_char_def as_msg_def

lemmas parse_simps =
  parse_stock_directory_def parse_trading_action_def parse_add_order_def
  parse_add_order_mpid_def parse_order_executed_def parse_order_executed_price_def
  parse_order_cancel_def parse_order_delete_def parse_order_replace_def

lemma parse_type_byte:
  "parse (byte_of_char c # bs) =
     (if c = CHR ''R'' then as_msg StockDirectory (parse_stock_directory (byte_of_char c # bs))
      else if c = CHR ''H'' then as_msg StockTradingAction (parse_trading_action (byte_of_char c # bs))
      else if c = CHR ''A'' then as_msg AddOrder (parse_add_order (byte_of_char c # bs))
      else if c = CHR ''F'' then as_msg AddOrderMPID (parse_add_order_mpid (byte_of_char c # bs))
      else if c = CHR ''E'' then as_msg OrderExecuted (parse_order_executed (byte_of_char c # bs))
      else if c = CHR ''C'' then as_msg OrderExecutedPrice (parse_order_executed_price (byte_of_char c # bs))
      else if c = CHR ''X'' then as_msg OrderCancel (parse_order_cancel (byte_of_char c # bs))
      else if c = CHR ''D'' then as_msg OrderDelete (parse_order_delete (byte_of_char c # bs))
      else if c = CHR ''U'' then as_msg OrderReplace (parse_order_replace (byte_of_char c # bs))
      else Inr None)"
  by (simp add: parse_def Let_def)

lemmas wire_simps =
  encode_header_def parse_type_byte parse_simps read_simps layout_simps ts_ok_def nth_append

lemma parse_encode_append: "encodable m \<Longrightarrow> parse (encode m @ rest) = Inr (Some m)"
  by (cases m) (simp_all add: wire_simps)

section \<open>Encoding what was parsed\<close>

text \<open>
  Re-encoding a field gives back the bytes it was read from; neighbouring slices join, so that
  the encoding of the parsed message is a prefix of the buffer.
\<close>

definition sub_bytes :: "u8 list \<Rightarrow> nat \<Rightarrow> nat \<Rightarrow> u8 list" where
  "sub_bytes p off n = take n (drop off p)"

lemma sub_bytes_join:
  "off' = off + a \<Longrightarrow> sub_bytes p off a @ sub_bytes p off' b = sub_bytes p off (a + b)"
  by (simp add: sub_bytes_def take_add add.commute)

lemma sub_bytes_join_append:
  "off' = off + a \<Longrightarrow> sub_bytes p off a @ sub_bytes p off' b @ r = sub_bytes p off (a + b) @ r"
  using sub_bytes_join [of off' off a p b] by (metis append.assoc)

lemma nth_sub_bytes: "off < length p \<Longrightarrow> p ! off # r = sub_bytes p off 1 @ r"
  using take_Suc_drop_nth [of off p 0] by (simp add: sub_bytes_def)

lemma sub_bytes_fields:
  "off + 2 \<le> length p \<Longrightarrow> be_bytes 2 (unat (be_word (byte_slice p off 2) :: u16)) = sub_bytes p off 2"
  "off + 4 \<le> length p \<Longrightarrow> be_bytes 4 (unat (be_word (byte_slice p off 4) :: u32)) = sub_bytes p off 4"
  "off + 6 \<le> length p \<Longrightarrow> be_bytes 6 (unat (be_word (byte_slice p off 6) :: u64)) = sub_bytes p off 6"
  "off + 8 \<le> length p \<Longrightarrow> be_bytes 8 (unat (be_word (byte_slice p off 8) :: u64)) = sub_bytes p off 8"
  unfolding sub_bytes_def by (rule be_bytes_be_word; simp)+

lemma sub_bytes_alpha:
  "off + n \<le> length p \<Longrightarrow>
     write_alpha (strip_spaces (map char_of_byte (byte_slice p off n))) n = sub_bytes p off n"
  using strip_spaces_alpha(2) [of "byte_slice p off n"] by (simp add: sub_bytes_def)

lemma sub_bytes_alpha_ok:
  "off + n \<le> length p \<Longrightarrow> alpha_ok (strip_spaces (map char_of_byte (byte_slice p off n))) n"
  using strip_spaces_alpha(1) [of "byte_slice p off n"] by simp

lemma sub_bytes_ts_ok:
  assumes "off + 6 \<le> length p"
  shows "ts_ok (be_word (byte_slice p off 6))"
  using assms be_val_bound [of "byte_slice p off 6"] by (simp add: ts_ok_def unat_be_word)

lemma sub_bytes_whole: "sub_bytes p 0 n = take n p"
  by (simp add: sub_bytes_def)

lemmas sub_bytes_simps =
  sub_bytes_join sub_bytes_join_append nth_sub_bytes sub_bytes_fields sub_bytes_alpha
  sub_bytes_alpha_ok sub_bytes_ts_ok

text \<open>What the dispatcher establishes about a buffer it accepts.\<close>

fun accepted_as :: "MessageBuffer \<Rightarrow> ParsedMessage \<Rightarrow> bool" where
  "accepted_as buf (StockDirectory x) \<longleftrightarrow>
     byte_of_char CHR ''R'' = buf ! 0 \<and> parse_stock_directory buf = Inr x \<and> 39 \<le> length buf"
| "accepted_as buf (StockTradingAction x) \<longleftrightarrow>
     byte_of_char CHR ''H'' = buf ! 0 \<and> parse_trading_action buf = Inr x \<and> 25 \<le> length buf"
| "accepted_as buf (AddOrder x) \<longleftrightarrow>
     byte_of_char CHR ''A'' = buf ! 0 \<and> parse_add_order buf = Inr x \<and> 36 \<le> length buf"
| "accepted_as buf (AddOrderMPID x) \<longleftrightarrow>
     byte_of_char CHR ''F'' = buf ! 0 \<and> parse_add_order_mpid buf = Inr x \<and> 40 \<le> length buf"
| "accepted_as buf (OrderExecuted x) \<longleftrightarrow>
     byte_of_char CHR ''E'' = buf ! 0 \<and> parse_order_executed buf = Inr x \<and> 31 \<le> length buf"
| "accepted_as buf (OrderExecutedPrice x) \<longleftrightarrow>
     byte_of_char CHR ''C'' = buf ! 0 \<and> parse_order_executed_price buf = Inr x \<and> 36 \<le> length buf"
| "accepted_as buf (OrderCancel x) \<longleftrightarrow>
     byte_of_char CHR ''X'' = buf ! 0 \<and> parse_order_cancel buf = Inr x \<and> 23 \<le> length buf"
| "accepted_as buf (OrderDelete x) \<longleftrightarrow>
     byte_of_char CHR ''D'' = buf ! 0 \<and> parse_order_delete buf = Inr x \<and> 19 \<le> length buf"
| "accepted_as buf (OrderReplace x) \<longleftrightarrow>
     byte_of_char CHR ''U'' = buf ! 0 \<and> parse_order_replace buf = Inr x \<and> 35 \<le> length buf"

lemma guarded_InrD: "guarded (require buf n t) body = Inr m \<Longrightarrow> n \<le> length buf"
  by (auto simp: guarded_def require_def split: if_splits)

lemma as_msg_Inr_Some:
  "as_msg f r = Inr (Some m) \<longleftrightarrow> (\<exists>x. r = Inr x \<and> m = f x)"
  by (auto simp: as_msg_def split: sum.splits)

lemma parse_lengths:
  "parse_stock_directory buf = Inr x1 \<Longrightarrow> 39 \<le> length buf"
  "parse_trading_action buf = Inr x2 \<Longrightarrow> 25 \<le> length buf"
  "parse_add_order buf = Inr x3 \<Longrightarrow> 36 \<le> length buf"
  "parse_add_order_mpid buf = Inr x4 \<Longrightarrow> 40 \<le> length buf"
  "parse_order_executed buf = Inr x5 \<Longrightarrow> 31 \<le> length buf"
  "parse_order_executed_price buf = Inr x6 \<Longrightarrow> 36 \<le> length buf"
  "parse_order_cancel buf = Inr x7 \<Longrightarrow> 23 \<le> length buf"
  "parse_order_delete buf = Inr x8 \<Longrightarrow> 19 \<le> length buf"
  "parse_order_replace buf = Inr x9 \<Longrightarrow> 35 \<le> length buf"
  unfolding parse_simps by (erule guarded_InrD)+

lemma parse_accepted: "parse buf = Inr (Some m) \<Longrightarrow> buf \<noteq> [] \<and> accepted_as buf m"
  by (auto simp: parse_def Let_def as_msg_Inr_Some char_of_byte_eq_iff
      intro: parse_lengths split: if_splits)

lemma encode_accepted:
  assumes "accepted_as buf m" and "buf \<noteq> []"
  shows "encodable m \<and> encode m = sub_bytes buf 0 (wire_length m)"
  using assms
  by (cases m) (auto simp: parse_simps read_simps encode_header_def sub_bytes_simps)

lemma length_encode: "length (encode m) = wire_length m"
  by (cases m) (simp_all add: encode_header_def)

section \<open>Properties of the parser\<close>

text \<open>The in-scope types with the guard each deserialiser checks.\<close>

definition guard_of :: "char \<Rightarrow> (string \<times> nat) option" where
  "guard_of = Map.empty
     (CHR ''R'' \<mapsto> (''StockDirectory'', 39), CHR ''H'' \<mapsto> (''StockTradingAction'', 25),
      CHR ''A'' \<mapsto> (''AddOrder'', 36), CHR ''F'' \<mapsto> (''AddOrderMPID'', 40),
      CHR ''E'' \<mapsto> (''OrderExecuted'', 31), CHR ''C'' \<mapsto> (''OrderExecutedPrice'', 36),
      CHR ''X'' \<mapsto> (''OrderCancel'', 23), CHR ''D'' \<mapsto> (''OrderDelete'', 19),
      CHR ''U'' \<mapsto> (''OrderReplace'', 35))"

text \<open>
  (C10) The parser is total and its outcome is decided by the type byte and the length alone: an
  empty buffer throws, an out-of-scope type is discarded, a buffer shorter than the type's
  layout throws the truncation error with the needed and the actual length, and every other
  buffer is parsed. In particular no field is read outside the buffer.
\<close>

theorem parse_outcome:
  "case buf of
     [] \<Rightarrow> parse buf = Inl EmptyBuffer
   | b # _ \<Rightarrow>
       (case guard_of (char_of_byte b) of
          None \<Rightarrow> parse buf = Inr None
        | Some (name, need) \<Rightarrow>
            if length buf < need then parse buf = Inl (Truncated name need (length buf))
            else \<exists>m. parse buf = Inr (Some m) \<and> wire_length m = need)"
proof (cases buf)
  case Nil
  then show ?thesis by (simp add: parse_def)
next
  case (Cons b bs)
  obtain c where "b = byte_of_char c" by (metis byte_of_char_of_byte)
  with Cons show ?thesis
    by (simp add: guard_of_def parse_type_byte parse_simps read_simps)
qed

text \<open>
  (C8) Round trip: a message the format can carry, encoded and followed by any further bytes,
  parses back to itself.
\<close>

theorem parse_encode: "encodable m \<Longrightarrow> parse (encode m @ rest) = Inr (Some m)"
  by (rule parse_encode_append)

text \<open>An add order of 200 shares at 150.25, encoded and parsed back.\<close>

theorem parse_encode_witness:
  "parse (encode (AddOrder \<lparr>ao_stock_locate = 7, ao_tracking_number = 0,
       ao_timestamp = 34200000000000, ao_order_ref = 42, ao_side = CHR ''B'', ao_shares = 200,
       ao_stock = ''AAPL'', ao_price = Price 1502500\<rparr>) @ [0]) =
   Inr (Some (AddOrder \<lparr>ao_stock_locate = 7, ao_tracking_number = 0,
       ao_timestamp = 34200000000000, ao_order_ref = 42, ao_side = CHR ''B'', ao_shares = 200,
       ao_stock = ''AAPL'', ao_price = Price 1502500\<rparr>))"
  by (rule parse_encode) (simp add: ts_ok_def alpha_ok_def)

text \<open>
  (C9) Nothing is lost: the encoding of a parsed message is exactly the prefix of the buffer that
  the message occupies, so every byte of that prefix is accounted for by a field, and the parsed
  message is one the format can carry.
\<close>

theorem encode_parse:
  assumes "parse buf = Inr (Some m)"
  shows "encodable m \<and> encode m = take (wire_length m) buf"
  using parse_accepted [OF assms] encode_accepted [of buf m] by (simp add: sub_bytes_whole)

text \<open>An order delete of 19 bytes.\<close>

theorem encode_parse_witness:
  "encode (OrderDelete \<lparr>od_stock_locate = 1, od_tracking_number = 2, od_timestamp = 3,
      od_order_ref = 4\<rparr>) =
   [0x44, 0, 1, 0, 2, 0, 0, 0, 0, 0, 3, 0, 0, 0, 0, 0, 0, 0, 4]"
proof -
  let ?buf = "[0x44, 0, 1, 0, 2, 0, 0, 0, 0, 0, 3, 0, 0, 0, 0, 0, 0, 0, 4] :: u8 list"
  have "parse ?buf = Inr (Some (OrderDelete \<lparr>od_stock_locate = 1, od_tracking_number = 2,
      od_timestamp = 3, od_order_ref = 4\<rparr>))"
    by (simp add: parse_def Let_def char_of_byte_eq_iff byte_of_char_def parse_simps read_simps
        be_word_def)
  from encode_parse [OF this] show ?thesis by simp
qed

text \<open>The computed-goto build dispatches every buffer exactly as the switch does.\<close>

lemma parse_computed_goto_eq: "parse_computed_goto buf = parse buf"
proof (cases "buf = []")
  case True
  then show ?thesis by (simp add: parse_def parse_computed_goto_def)
next
  case False
  have "byte_of_char CHR ''R'' = 0x52" "byte_of_char CHR ''H'' = 0x48"
    "byte_of_char CHR ''A'' = 0x41" "byte_of_char CHR ''F'' = 0x46" "byte_of_char CHR ''E'' = 0x45"
    "byte_of_char CHR ''C'' = 0x43" "byte_of_char CHR ''X'' = 0x58" "byte_of_char CHR ''D'' = 0x44"
    "byte_of_char CHR ''U'' = 0x55"
    by (simp_all add: byte_of_char_def)
  with False show ?thesis
    by (simp add: parse_def parse_computed_goto_def dispatch_def char_of_byte_eq_iff Let_def)
qed

end
