(* ===== verification/Std_Map.thy ===== *)
theory Std_Map
  imports Itch_Prelude
begin

text \<open>
  The standard-library containers the sources rely on: \<^verbatim>\<open>std::map\<close> with a comparator, as an
  association list kept in comparator order (iteration order is list order), and
  \<^verbatim>\<open>std::lower_bound\<close> as the halving loop of the library. The locale \<open>key_order\<close> is the
  interface between them and their clients: a comparator that is a strict total order.
\<close>

type_synonym ('k, 'v) std_map = "('k \<times> 'v) list"

text \<open>\<^verbatim>\<open>m[k] = v\<close>: overwrite the mapped value of an equivalent key, or insert in order.\<close>

fun std_insert :: "('k \<Rightarrow> 'k \<Rightarrow> bool) \<Rightarrow> 'k \<Rightarrow> 'v \<Rightarrow> ('k, 'v) std_map \<Rightarrow> ('k, 'v) std_map" where
  "std_insert lt k v [] = [(k, v)]"
| "std_insert lt k v ((k', v') # m) =
     (if lt k k' then (k, v) # (k', v') # m
      else if lt k' k then (k', v') # std_insert lt k v m
      else (k', v) # m)"

text \<open>\<^verbatim>\<open>m.erase(it)\<close> for the iterator that \<^verbatim>\<open>find(k)\<close> returned.\<close>

fun std_erase :: "'k \<Rightarrow> ('k, 'v) std_map \<Rightarrow> ('k, 'v) std_map" where
  "std_erase k [] = []"
| "std_erase k ((k', v') # m) = (if k' = k then m else (k', v') # std_erase k m)"

abbreviation keys :: "('k, 'v) std_map \<Rightarrow> 'k list" where
  "keys m \<equiv> map fst m"

locale key_order =
  fixes lt :: "'k \<Rightarrow> 'k \<Rightarrow> bool"
  assumes lt_irrefl: "\<not> lt a a"
    and lt_trans: "lt a b \<Longrightarrow> lt b c \<Longrightarrow> lt a c"
    and lt_total: "lt a b \<or> a = b \<or> lt b a"
begin

lemma lt_asym: "lt a b \<Longrightarrow> \<not> lt b a"
  using lt_irrefl lt_trans by blast

lemma keys_insert: "set (keys (std_insert lt k v m)) = insert k (set (keys m))"
proof (induction m)
  case (Cons e m)
  obtain k' v' where e: "e = (k', v')" by (cases e)
  show ?case using Cons.IH lt_total [of k k'] by (auto simp: e)
qed simp

lemma insert_mem: "(a, b) \<in> set (std_insert lt k v m) \<Longrightarrow> a = k \<or> a \<in> fst ` set m"
  using keys_insert [of k v m] by force

lemma erase_mem: "e \<in> set (std_erase k m) \<Longrightarrow> e \<in> set m"
  by (induction m) (auto split: if_splits)

lemma sorted_insert: "sorted_wrt lt (keys m) \<Longrightarrow> sorted_wrt lt (keys (std_insert lt k v m))"
proof (induction m)
  case (Cons e m)
  then show ?case by (cases e) (auto intro: lt_trans dest!: insert_mem)
qed simp

lemma sorted_erase: "sorted_wrt lt (keys m) \<Longrightarrow> sorted_wrt lt (keys (std_erase k m))"
proof (induction m)
  case (Cons e m)
  then show ?case by (cases e) (auto dest: erase_mem)
qed simp

lemma sorted_distinct: "sorted_wrt lt xs \<Longrightarrow> distinct xs"
  using lt_irrefl by (induction xs) auto

lemma find_insert:
  "sorted_wrt lt (keys m) \<Longrightarrow> map_of (std_insert lt k v m) = (map_of m)(k \<mapsto> v)"
proof (induction m)
  case (Cons e m)
  obtain k' v' where e: "e = (k', v')" by (cases e)
  show ?case
    using Cons lt_irrefl lt_total [of k k'] by (auto simp: e fun_eq_iff)
qed (simp add: fun_eq_iff)

lemma find_erase:
  "sorted_wrt lt (keys m) \<Longrightarrow> map_of (std_erase k m) = (map_of m)(k := None)"
proof (induction m)
  case (Cons e m)
  obtain k' v' where e: "e = (k', v')" by (cases e)
  have "map_of m k' = None"
    using Cons.prems lt_irrefl by (auto simp: e map_of_eq_None_iff)
  with Cons show ?case by (auto simp: e fun_eq_iff)
qed (simp add: fun_eq_iff)

lemma begin_is_best:
  assumes "sorted_wrt lt (keys m)" and "m = (k, v) # m'" and "k' \<in> dom (map_of m)"
  shows "k' = k \<or> lt k k'"
  using assms by (auto simp: dom_map_of_conv_image_fst)

text \<open>The iteration order is determined by the contents.\<close>

lemma sorted_map_unique:
  assumes "sorted_wrt lt (keys m)" and "sorted_wrt lt (keys n)" and "map_of m = map_of n"
  shows "m = n"
  using assms
proof (induction m arbitrary: n)
  case Nil
  then have "map_of n = Map.empty" by simp
  then show ?case by (simp only: map_of_eq_empty_iff)
next
  case (Cons e m)
  obtain k v where e: "e = (k, v)" by (cases e)
  have "n \<noteq> []" using fun_cong [OF Cons.prems(3), of k] by (auto simp: e)
  then obtain k' v' n' where n: "n = (k', v') # n'" by (cases n) auto
  have "k' \<in> dom (map_of (e # m))" by (simp only: Cons.prems(3) n) (simp add: dom_def)
  moreover have "k \<in> dom (map_of n)" by (simp only: Cons.prems(3) [symmetric] e) (simp add: dom_def)
  ultimately have k: "k' = k"
    using begin_is_best [OF Cons.prems(1), of k v m k'] begin_is_best [OF Cons.prems(2) n, of k]
      lt_asym [of k k'] by (auto simp only: e)
  have "map_of m k = None" "map_of n' k = None"
    using Cons.prems(1,2) lt_irrefl by (auto simp: e n k map_of_eq_None_iff)
  then have "map_of m x = map_of n' x" for x
    using fun_cong [OF Cons.prems(3), of x] by (cases "x = k") (simp_all add: e n k)
  then have "map_of m = map_of n'" by blast
  moreover have "v' = v" using fun_cong [OF Cons.prems(3), of k] by (simp add: e n k)
  moreover have "sorted_wrt lt (keys m)" "sorted_wrt lt (keys n')"
    using Cons.prems(1,2) by (simp_all add: e n)
  ultimately show ?case using Cons.IH [of n'] by (simp add: e n k)
qed

text \<open>The operations by position: where the keys before \<open>k\<close> end.\<close>

definition pos :: "'k \<Rightarrow> ('k, 'v) std_map \<Rightarrow> nat" where
  "pos k m = length (takeWhile (\<lambda>e. lt (fst e) k) m)"

lemma pos_Nil [simp]: "pos k [] = 0"
  by (simp add: pos_def)

lemma pos_Cons [simp]: "pos k (e # m) = (if lt (fst e) k then Suc (pos k m) else 0)"
  by (simp add: pos_def)

lemma find_at:
  "sorted_wrt lt (keys m) \<Longrightarrow>
     map_of m k = (if pos k m < length m \<and> fst (m ! pos k m) = k then Some (snd (m ! pos k m)) else None)"
proof (induction m)
  case (Cons e m)
  have "map_of m k = None" if "\<not> lt (fst e) k" "fst e \<noteq> k"
    using Cons.prems that lt_trans lt_total [of k "fst e"] by (auto simp: map_of_eq_None_iff)
  with Cons lt_irrefl show ?case by (cases e; cases "fst e = k") auto
qed simp

lemma insert_at:
  "sorted_wrt lt (keys m) \<Longrightarrow>
     std_insert lt k v m =
       (if pos k m < length m \<and> fst (m ! pos k m) = k then m[pos k m := (k, v)]
        else take (pos k m) m @ (k, v) # drop (pos k m) m)"
proof (induction m)
  case (Cons e m)
  obtain k' v' where e: "e = (k', v')" by (cases e)
  show ?case using Cons lt_total [of k k'] lt_asym lt_irrefl by (auto simp: e)
qed simp

lemma erase_at:
  "sorted_wrt lt (keys m) \<Longrightarrow>
     std_erase k m =
       (if pos k m < length m \<and> fst (m ! pos k m) = k then take (pos k m) m @ drop (Suc (pos k m)) m
        else m)"
proof (induction m)
  case (Cons e m)
  obtain k' v' where e: "e = (k', v')" by (cases e)
  have "std_erase k m = m" if "\<not> lt k' k" "k' \<noteq> k"
  proof -
    have "map_of m k = None"
      using Cons.prems that lt_trans lt_total [of k k'] by (auto simp: e map_of_eq_None_iff)
    then show ?thesis using Cons find_at [of m k] by (auto split: if_splits)
  qed
  with Cons lt_irrefl show ?case by (auto simp: e)
qed simp

end

section \<open>Binary search\<close>

text \<open>
  \<^verbatim>\<open>std::lower_bound\<close> on the range of \<open>len\<close> elements from \<open>first\<close>; \<open>before\<close> is the predicate
  "the element is before the searched value". The loop halves the remaining length.
\<close>

function lower_bound :: "('a \<Rightarrow> bool) \<Rightarrow> 'a list \<Rightarrow> nat \<Rightarrow> nat \<Rightarrow> nat" where
  "lower_bound before xs first len =
     (if len = 0 then first
      else let half = len div 2; mid = first + half
           in if before (xs ! mid) then lower_bound before xs (mid + 1) (len - half - 1)
              else lower_bound before xs first half)"
  by pat_completeness auto
termination
  by (relation "measure (\<lambda>(before, xs, first, len). len)") auto

declare lower_bound.simps [simp del]

lemma lower_bound_partition:
  assumes "first + len \<le> length xs" and "i \<le> length xs" and "first \<le> i" and "i \<le> first + len"
    and "\<And>j. j < i \<Longrightarrow> before (xs ! j)" and "\<And>j. i \<le> j \<Longrightarrow> j < length xs \<Longrightarrow> \<not> before (xs ! j)"
  shows "lower_bound before xs first len = i"
  using assms
proof (induction before xs first len rule: lower_bound.induct)
  case (1 before xs first len)
  let ?half = "len div 2" let ?mid = "first + len div 2"
  show ?case
  proof (cases "len = 0")
    case True
    with "1.prems" show ?thesis by (simp add: lower_bound.simps)
  next
    case False
    then have mid: "?mid < length xs" "?mid < first + len" using "1.prems"(1) by linarith+
    show ?thesis
    proof (cases "before (xs ! ?mid)")
      case True
      then have "?mid < i" using "1.prems"(6) mid(1) by (meson not_less)
      then have "lower_bound before xs (?mid + 1) (len - ?half - 1) = i"
        using "1.prems" False True by (intro "1.IH"(1) [OF _ refl refl]) auto
      with False True show ?thesis by (simp add: lower_bound.simps [of before xs first len])
    next
      case cm: False
      then have "i \<le> ?mid" using "1.prems"(5) by (meson not_le)
      then have "lower_bound before xs first ?half = i"
        using "1.prems" False cm mid by (intro "1.IH"(2) [OF _ refl refl]) auto
      with False cm show ?thesis by (simp add: lower_bound.simps [of before xs first len])
    qed
  qed
qed

text \<open>On a range partitioned by the predicate, the result is the partition point.\<close>

lemma lower_bound_takeWhile:
  assumes "\<And>i j. i < j \<Longrightarrow> j < length xs \<Longrightarrow> before (xs ! j) \<Longrightarrow> before (xs ! i)"
  shows "lower_bound before xs 0 (length xs) = length (takeWhile before xs)"
proof (rule lower_bound_partition)
  show "\<not> before (xs ! j)" if "length (takeWhile before xs) \<le> j" "j < length xs" for j
  proof
    assume "before (xs ! j)"
    have lt: "length (takeWhile before xs) < length xs" using that by simp
    then have "\<not> before (xs ! length (takeWhile before xs))" by (rule nth_length_takeWhile)
    with \<open>before (xs ! j)\<close> that assms [of "length (takeWhile before xs)" j] show False
      by (metis le_neq_implies_less)
  qed
  show "before (xs ! j)" if "j < length (takeWhile before xs)" for j
    using that by (metis nth_mem set_takeWhileD takeWhile_nth)
qed (simp_all add: length_takeWhile_le)

end
