(* ===== verification/Order_Book.thy ===== *)
theory Order_Book
  imports Messages Std_Map
begin

text \<open>
  \<^verbatim>\<open>include/itch/order_book.h\<close>, \<^verbatim>\<open>order_record.h\<close> and \<^verbatim>\<open>instrument_info.h\<close>: the structs of the
  engine's state, with value initialisation as the default constructor gives it. The cached
  pointers \<^verbatim>\<open>best_bid\<close> and \<^verbatim>\<open>best_ask\<close> point at a node of the side's \<^verbatim>\<open>std::map\<close>; a node is named
  by its key, and \<^const>\<open>None\<close> is the null pointer.
\<close>

section \<open>Sides and price levels\<close>

datatype Side = Bid | Ask

text \<open>\<^verbatim>\<open>std::greater\<close> on bids, \<^verbatim>\<open>std::less\<close> on asks: the better price comes first.\<close>

definition map_compare :: "Side \<Rightarrow> Price \<Rightarrow> Price \<Rightarrow> bool" where
  "map_compare S a b = (case S of Bid \<Rightarrow> a > b | Ask \<Rightarrow> a < b)"

interpretation side_order: key_order "map_compare S"
  by unfold_locales (auto simp: map_compare_def split: Side.splits)

record PriceLevel =
  pl_price :: Price
  pl_total_shares :: u64
  pl_order_count :: u32

definition empty_level :: PriceLevel where
  "empty_level = \<lparr>pl_price = Price 0, pl_total_shares = 0, pl_order_count = 0\<rparr>"

type_synonym level_map = "(Price, PriceLevel) std_map"

text \<open>\<^verbatim>\<open>side_map[p]\<close> as an lvalue: the mapped level, value-initialised when the key is absent.\<close>

definition level_at :: "level_map \<Rightarrow> Price \<Rightarrow> PriceLevel" where
  "level_at m p = (case map_of m p of Some lvl \<Rightarrow> lvl | None \<Rightarrow> empty_level)"

section \<open>Books, orders, instruments\<close>

record OrderBook =
  ob_stock_locate :: u16
  ob_last_update_timestamp :: u64
  ob_bids :: level_map
  ob_asks :: level_map
  ob_best_bid :: "Price option"
  ob_best_ask :: "Price option"

definition empty_book :: OrderBook where
  "empty_book = \<lparr>ob_stock_locate = 0, ob_last_update_timestamp = 0, ob_bids = [], ob_asks = [],
     ob_best_bid = None, ob_best_ask = None\<rparr>"

record OrderRecord =
  rec_shares :: u32
  rec_price :: Price
  rec_stock_locate :: u16
  rec_side :: char
  rec_mpid :: string

definition empty_record :: OrderRecord where
  "empty_record = \<lparr>rec_shares = 0, rec_price = Price 0, rec_stock_locate = 0,
     rec_side = CHR 0x00, rec_mpid = replicate 4 (CHR 0x00)\<rparr>"

text \<open>Trailing spaces and NULs are stripped for display: the loop shrinks \<open>n\<close> from the right.\<close>

fun mpid_len :: "string \<Rightarrow> nat \<Rightarrow> nat" where
  "mpid_len mpid 0 = 0"
| "mpid_len mpid (Suc n) =
     (if mpid ! n = CHR '' '' \<or> mpid ! n = CHR 0x00 then mpid_len mpid n else Suc n)"

definition mpid_view :: "OrderRecord \<Rightarrow> string" where
  "mpid_view r = take (mpid_len (rec_mpid r) (length (rec_mpid r))) (rec_mpid r)"

text \<open>Fill the four characters with spaces, then copy at most four.\<close>

definition set_mpid_from :: "string \<Rightarrow> OrderRecord \<Rightarrow> OrderRecord" where
  "set_mpid_from s r =
     (let n = min (length s) 4
      in r\<lparr>rec_mpid := take n s @ drop n (replicate 4 CHR '' '')\<rparr>)"

record InstrumentInfo =
  in_stock_locate :: u16
  in_symbol :: string
  in_trading_state :: char
  in_round_lot_size :: u32
  in_market_category :: char
  in_financial_status :: char

definition empty_instrument :: InstrumentInfo where
  "empty_instrument = \<lparr>in_stock_locate = 0, in_symbol = [], in_trading_state = CHR 0x00,
     in_round_lot_size = 0, in_market_category = CHR 0x00, in_financial_status = CHR 0x00\<rparr>"

section \<open>Storing and displaying a market participant id\<close>

lemma length_set_mpid: "length (rec_mpid (set_mpid_from s r)) = 4"
  by (simp add: set_mpid_from_def Let_def)

lemma mpid_len_pad:
  "s = [] \<or> last s \<notin> {CHR '' '', CHR 0x00} \<Longrightarrow>
     mpid_len (s @ replicate k CHR '' '') (length s + k) = length s"
proof (induction k)
  case 0
  show ?case
  proof (cases s rule: rev_cases)
    case (snoc ys y)
    with 0 show ?thesis by simp
  qed simp
next
  case (Suc k)
  have "mpid_len (s @ replicate (Suc k) CHR '' '') n = mpid_len (s @ replicate k CHR '' '') n"
    if "n \<le> length s + k" for n
    using that
  proof (induction n)
    case (Suc n)
    have "(s @ replicate (Suc k) CHR '' '') ! n = (s @ replicate k CHR '' '') ! n"
      using Suc.prems by (simp add: nth_append nth_replicate del: replicate_Suc)
    with Suc show ?case by simp
  qed simp
  with Suc show ?case
    by (simp add: nth_append nth_replicate del: replicate_Suc)
qed

text \<open>
  A market participant id of at most four characters that does not end in a space or NUL is
  displayed as it was stored.
\<close>

lemma mpid_roundtrip:
  assumes "length s \<le> 4" and "s = [] \<or> last s \<notin> {CHR '' '', CHR 0x00}"
  shows "mpid_view (set_mpid_from s r) = s"
  using mpid_len_pad [OF assms(2), of "4 - length s"] assms(1)
  by (simp add: mpid_view_def set_mpid_from_def Let_def)

end
