(* ===== verification/Price_Ladder.thy ===== *)
theory Price_Ladder
  imports Order_Book
begin

text \<open>
  \<^verbatim>\<open>include/itch/price_ladder.h\<close>: the three ladder classes behind one interface. The side is the
  C++ template parameter. \<open>MapLadder\<close> is a \<^verbatim>\<open>std::map\<close>, \<open>FlatLadder\<close> a vector kept best-first and
  searched with \<^verbatim>\<open>std::lower_bound\<close>, \<open>ArrayLadder\<close> a dense array of \<open>SLOTS\<close> levels. The locale
  \<open>ladder_contract\<close> states what the interface promises against an abstract ladder, a map from
  price to total and count; each class is an interpretation of it, and from the contract
  follows that the classes agree on every legal sequence of operations.
\<close>

section \<open>MapLadder\<close>

definition ml_add_shares :: "Side \<Rightarrow> Price \<Rightarrow> u32 \<Rightarrow> level_map \<Rightarrow> level_map" where
  "ml_add_shares S p shares levels =
     (let lvl = level_at levels p
      in std_insert (map_compare S) p
           (lvl\<lparr>pl_price := p,
                pl_total_shares := pl_total_shares lvl + ucast shares,
                pl_order_count := pl_order_count lvl + 1\<rparr>) levels)"

definition ml_remove_shares :: "Side \<Rightarrow> Price \<Rightarrow> u32 \<Rightarrow> bool \<Rightarrow> level_map \<Rightarrow> level_map" where
  "ml_remove_shares S p shares full_removal levels =
     (case map_of levels p of
        None \<Rightarrow> levels
      | Some lvl \<Rightarrow>
          let lvl1 = lvl\<lparr>pl_total_shares := pl_total_shares lvl - ucast shares\<rparr>;
              lvl2 = (if full_removal then lvl1\<lparr>pl_order_count := pl_order_count lvl1 - 1\<rparr> else lvl1)
          in if pl_order_count lvl2 = 0 then std_erase p levels
             else std_insert (map_compare S) p lvl2 levels)"

definition ml_best :: "level_map \<Rightarrow> PriceLevel option" where
  "ml_best levels = (case levels of [] \<Rightarrow> None | (_, lvl) # _ \<Rightarrow> Some lvl)"

definition ml_size :: "level_map \<Rightarrow> nat" where
  "ml_size levels = length levels"

definition ml_for_each :: "level_map \<Rightarrow> PriceLevel list" where
  "ml_for_each levels = map snd levels"

section \<open>FlatLadder\<close>

definition fl_better :: "Side \<Rightarrow> Price \<Rightarrow> Price \<Rightarrow> bool" where
  "fl_better S a b = (case S of Bid \<Rightarrow> raw a > raw b | Ask \<Rightarrow> raw a < raw b)"

definition fl_find :: "Side \<Rightarrow> Price \<Rightarrow> PriceLevel list \<Rightarrow> nat" where
  "fl_find S p levels = lower_bound (\<lambda>lvl. fl_better S (pl_price lvl) p) levels 0 (length levels)"

definition fl_add_shares :: "Side \<Rightarrow> Price \<Rightarrow> u32 \<Rightarrow> PriceLevel list \<Rightarrow> PriceLevel list" where
  "fl_add_shares S p shares levels =
     (let it = fl_find S p levels
      in if it < length levels \<and> pl_price (levels ! it) = p
         then let lvl = levels ! it
              in levels[it := lvl\<lparr>pl_total_shares := pl_total_shares lvl + ucast shares,
                                  pl_order_count := pl_order_count lvl + 1\<rparr>]
         else let nl = \<lparr>pl_price = p, pl_total_shares = ucast shares, pl_order_count = 1\<rparr>
              in take it levels @ nl # drop it levels)"

definition fl_remove_shares :: "Side \<Rightarrow> Price \<Rightarrow> u32 \<Rightarrow> bool \<Rightarrow> PriceLevel list \<Rightarrow> PriceLevel list" where
  "fl_remove_shares S p shares full_removal levels =
     (let it = fl_find S p levels
      in if it = length levels \<or> pl_price (levels ! it) \<noteq> p then levels
         else let lvl = levels ! it;
                  lvl1 = lvl\<lparr>pl_total_shares := pl_total_shares lvl - ucast shares\<rparr>;
                  lvl2 = (if full_removal then lvl1\<lparr>pl_order_count := pl_order_count lvl1 - 1\<rparr> else lvl1)
              in if pl_order_count lvl2 = 0 then take it levels @ drop (Suc it) levels
                 else levels[it := lvl2])"

definition fl_best :: "PriceLevel list \<Rightarrow> PriceLevel option" where
  "fl_best levels = (case levels of [] \<Rightarrow> None | lvl # _ \<Rightarrow> Some lvl)"

definition fl_size :: "PriceLevel list \<Rightarrow> nat" where
  "fl_size levels = length levels"

definition fl_for_each :: "PriceLevel list \<Rightarrow> PriceLevel list" where
  "fl_for_each levels = levels"

section \<open>ArrayLadder\<close>

text \<open>
  \<open>SLOTS\<close> and \<open>TICK\<close> are the template parameters. An index is below \<open>2 ^ 32\<close> because it is a
  quotient of a \<^verbatim>\<open>uint32_t\<close>, so indices are natural numbers; \<open>best_idx = SLOTS\<close> is the sentinel.
\<close>

record ArrayLadder =
  al_base_raw :: u32
  al_best_idx :: nat
  al_nonempty_count :: u32
  al_levels :: "PriceLevel list"

definition al_make :: "nat \<Rightarrow> u32 \<Rightarrow> ArrayLadder" where
  "al_make SLOTS base = \<lparr>al_base_raw = base, al_best_idx = SLOTS, al_nonempty_count = 0,
     al_levels = replicate SLOTS empty_level\<rparr>"

definition al_set_base :: "u32 \<Rightarrow> ArrayLadder \<Rightarrow> ArrayLadder" where
  "al_set_base base l = l\<lparr>al_base_raw := base\<rparr>"

definition al_idx_of :: "nat \<Rightarrow> u32 \<Rightarrow> Price \<Rightarrow> ArrayLadder \<Rightarrow> nat" where
  "al_idx_of SLOTS TICK p l =
     (if raw p < al_base_raw l then SLOTS else unat ((raw p - al_base_raw l) div TICK))"

definition al_update_best_after_add :: "Side \<Rightarrow> nat \<Rightarrow> ArrayLadder \<Rightarrow> ArrayLadder" where
  "al_update_best_after_add S i l =
     (if al_nonempty_count l = 1 then l\<lparr>al_best_idx := i\<rparr>
      else case S of
        Bid \<Rightarrow> if i > al_best_idx l then l\<lparr>al_best_idx := i\<rparr> else l
      | Ask \<Rightarrow> if i < al_best_idx l then l\<lparr>al_best_idx := i\<rparr> else l)"

text \<open>The two scanning loops: downwards from below \<open>i\<close>, upwards from above \<open>i\<close>.\<close>

fun al_scan_down :: "PriceLevel list \<Rightarrow> nat \<Rightarrow> nat option" where
  "al_scan_down levels 0 = None"
| "al_scan_down levels (Suc i) =
     (if pl_order_count (levels ! i) > 0 then Some i else al_scan_down levels i)"

function al_scan_up :: "nat \<Rightarrow> PriceLevel list \<Rightarrow> nat \<Rightarrow> nat option" where
  "al_scan_up SLOTS levels i =
     (if i + 1 < SLOTS
      then if pl_order_count (levels ! (i + 1)) > 0 then Some (i + 1)
           else al_scan_up SLOTS levels (i + 1)
      else None)"
  by pat_completeness auto
termination
  by (relation "measure (\<lambda>(SLOTS, levels, i). SLOTS - i)") auto

declare al_scan_up.simps [simp del]

definition al_advance_best_from :: "Side \<Rightarrow> nat \<Rightarrow> nat \<Rightarrow> ArrayLadder \<Rightarrow> ArrayLadder" where
  "al_advance_best_from S SLOTS i l =
     (if al_nonempty_count l = 0 then l\<lparr>al_best_idx := SLOTS\<rparr>
      else case (case S of Bid \<Rightarrow> al_scan_down (al_levels l) i | Ask \<Rightarrow> al_scan_up SLOTS (al_levels l) i) of
        Some j \<Rightarrow> l\<lparr>al_best_idx := j\<rparr>
      | None \<Rightarrow> l\<lparr>al_best_idx := SLOTS\<rparr>)"

definition al_add_shares :: "Side \<Rightarrow> nat \<Rightarrow> u32 \<Rightarrow> Price \<Rightarrow> u32 \<Rightarrow> ArrayLadder \<Rightarrow> ArrayLadder" where
  "al_add_shares S SLOTS TICK p shares l =
     (let i = al_idx_of SLOTS TICK p l
      in if i \<ge> SLOTS then l
         else let l1 = (if pl_order_count (al_levels l ! i) = 0
                        then al_update_best_after_add S i
                               (l\<lparr>al_nonempty_count := al_nonempty_count l + 1,
                                  al_levels := (al_levels l)[i := (al_levels l ! i)\<lparr>pl_price := p\<rparr>]\<rparr>)
                        else l);
                  lvl = al_levels l1 ! i
              in l1\<lparr>al_levels := (al_levels l1)[i :=
                    lvl\<lparr>pl_total_shares := pl_total_shares lvl + ucast shares,
                        pl_order_count := pl_order_count lvl + 1\<rparr>]\<rparr>)"

definition al_remove_shares ::
    "Side \<Rightarrow> nat \<Rightarrow> u32 \<Rightarrow> Price \<Rightarrow> u32 \<Rightarrow> bool \<Rightarrow> ArrayLadder \<Rightarrow> ArrayLadder" where
  "al_remove_shares S SLOTS TICK p shares full_removal l =
     (let i = al_idx_of SLOTS TICK p l
      in if i \<ge> SLOTS then l
         else let lvl = al_levels l ! i
              in if pl_order_count lvl = 0 then l
                 else let lvl1 = lvl\<lparr>pl_total_shares := pl_total_shares lvl - ucast shares\<rparr>;
                          lvl2 = (if full_removal then lvl1\<lparr>pl_order_count := pl_order_count lvl1 - 1\<rparr> else lvl1);
                          l1 = l\<lparr>al_levels := (al_levels l)[i := lvl2]\<rparr>
                      in if pl_order_count lvl2 = 0
                         then let l2 = l1\<lparr>al_nonempty_count := al_nonempty_count l1 - 1\<rparr>
                              in if i = al_best_idx l2 then al_advance_best_from S SLOTS i l2 else l2
                         else l1)"

definition al_best :: "ArrayLadder \<Rightarrow> PriceLevel option" where
  "al_best l = (if al_nonempty_count l = 0 then None else Some (al_levels l ! al_best_idx l))"

definition al_size :: "ArrayLadder \<Rightarrow> nat" where
  "al_size l = unat (al_nonempty_count l)"

definition al_for_each :: "Side \<Rightarrow> nat \<Rightarrow> ArrayLadder \<Rightarrow> PriceLevel list" where
  "al_for_each S SLOTS l =
     (if al_nonempty_count l = 0 then []
      else case S of
        Bid \<Rightarrow> filter (\<lambda>lvl. pl_order_count lvl > 0)
                 (map (nth (al_levels l)) (rev [0..<al_best_idx l + 1]))
      | Ask \<Rightarrow> filter (\<lambda>lvl. pl_order_count lvl > 0)
                 (map (nth (al_levels l)) [al_best_idx l..<SLOTS]))"

end
