(* ===== verification/Ladder_Contract.thy ===== *)
theory Ladder_Contract
  imports Price_Ladder
begin

text \<open>
  The contract of a price ladder and its interpretations. The abstract ladder maps a price to
  its total shares and order count; \<open>levels_abs\<close> reads it off the levels a ladder visits.
\<close>

section \<open>Abstract ladder\<close>

type_synonym abs_ladder = "Price \<Rightarrow> (u64 \<times> u32) option"

datatype ladder_op = AddShares Price u32 | RemoveShares Price u32 bool

fun spec_step :: "ladder_op \<Rightarrow> abs_ladder \<Rightarrow> abs_ladder" where
  "spec_step (AddShares p s) a =
     (case a p of
        None \<Rightarrow> a(p \<mapsto> (ucast s, 1))
      | Some (t, c) \<Rightarrow> a(p \<mapsto> (t + ucast s, c + 1)))"
| "spec_step (RemoveShares p s full) a =
     (case a p of
        None \<Rightarrow> a
      | Some (t, c) \<Rightarrow>
          let c' = (if full then c - 1 else c)
          in if c' = 0 then a(p := None) else a(p \<mapsto> (t - ucast s, c')))"

fun spec_run :: "ladder_op list \<Rightarrow> abs_ladder \<Rightarrow> abs_ladder" where
  "spec_run [] a = a"
| "spec_run (op # ops) a = spec_run ops (spec_step op a)"

fun legal_run :: "(ladder_op \<Rightarrow> abs_ladder \<Rightarrow> bool) \<Rightarrow> ladder_op list \<Rightarrow> abs_ladder \<Rightarrow> bool" where
  "legal_run legal [] a = True"
| "legal_run legal (op # ops) a = (legal op a \<and> legal_run legal ops (spec_step op a))"

definition level_entry :: "PriceLevel \<Rightarrow> Price \<times> u64 \<times> u32" where
  "level_entry lvl = (pl_price lvl, pl_total_shares lvl, pl_order_count lvl)"

definition levels_abs :: "PriceLevel list \<Rightarrow> abs_ladder" where
  "levels_abs ls = map_of (map level_entry ls)"

lemma fst_level_entry [simp]: "fst \<circ> level_entry = pl_price"
  by (simp add: fun_eq_iff level_entry_def)

lemma level_entry_inject: "level_entry a = level_entry b \<Longrightarrow> a = (b :: PriceLevel)"
  by (simp add: level_entry_def)

text \<open>A best-first list of levels is determined by the abstract ladder it shows.\<close>

lemma levels_abs_unique:
  assumes "sorted_wrt (map_compare S) (map pl_price xs)" and "sorted_wrt (map_compare S) (map pl_price ys)"
    and "levels_abs xs = levels_abs ys"
  shows "xs = ys"
proof -
  have "map level_entry xs = map level_entry ys"
    using assms by (intro side_order.sorted_map_unique) (simp_all add: levels_abs_def)
  then show ?thesis
    by (rule map_injective) (auto intro: injI level_entry_inject)
qed

section \<open>The contract\<close>

locale ladder_contract =
  fixes S :: Side
    and legal :: "ladder_op \<Rightarrow> abs_ladder \<Rightarrow> bool"
    and step :: "ladder_op \<Rightarrow> 'l \<Rightarrow> 'l"
    and best :: "'l \<Rightarrow> PriceLevel option"
    and size_of :: "'l \<Rightarrow> nat"
    and for_each :: "'l \<Rightarrow> PriceLevel list"
    and start :: "'l"
    and invar :: "'l \<Rightarrow> bool"
  assumes invar_start: "invar start"
    and start_empty: "for_each start = []"
    and invar_step: "invar l \<Longrightarrow> legal op (levels_abs (for_each l)) \<Longrightarrow> invar (step op l)"
    and abs_step: "invar l \<Longrightarrow> legal op (levels_abs (for_each l)) \<Longrightarrow>
        levels_abs (for_each (step op l)) = spec_step op (levels_abs (for_each l))"
    and best_first: "invar l \<Longrightarrow> sorted_wrt (map_compare S) (map pl_price (for_each l))"
    and best_head: "invar l \<Longrightarrow> best l = (case for_each l of [] \<Rightarrow> None | x # _ \<Rightarrow> Some x)"
    and size_length: "invar l \<Longrightarrow> size_of l = length (for_each l)"
begin

lemma run_contract:
  assumes "invar l" and "legal_run legal ops (levels_abs (for_each l))"
  shows "invar (fold step ops l) \<and>
    levels_abs (for_each (fold step ops l)) = spec_run ops (levels_abs (for_each l))"
  using assms
proof (induction ops arbitrary: l)
  case (Cons op ops)
  then have "invar (step op l)" by (simp add: invar_step)
  with Cons show ?case by (simp add: abs_step)
qed simp

lemma run_from_start:
  assumes "legal_run legal ops Map.empty"
  shows "invar (fold step ops start)"
    and "levels_abs (for_each (fold step ops start)) = spec_run ops Map.empty"
  using run_contract [OF invar_start, of ops] assms by (simp_all add: start_empty levels_abs_def)

text \<open>\<^verbatim>\<open>best()\<close> is null exactly on the empty ladder and otherwise no level is better.\<close>

lemma best_None: "invar l \<Longrightarrow> best l = None \<longleftrightarrow> levels_abs (for_each l) = Map.empty"
  by (auto simp: best_head levels_abs_def split: list.splits)

lemma best_is_best:
  assumes "invar l" and "best l = Some x"
  shows "levels_abs (for_each l) (pl_price x) = Some (pl_total_shares x, pl_order_count x)"
    and "p \<in> dom (levels_abs (for_each l)) \<Longrightarrow> p = pl_price x \<or> map_compare S (pl_price x) p"
proof -
  obtain xs where xs: "for_each l = x # xs"
    using assms by (auto simp: best_head split: list.splits)
  show "levels_abs (for_each l) (pl_price x) = Some (pl_total_shares x, pl_order_count x)"
    by (simp add: xs levels_abs_def level_entry_def)
  have "sorted_wrt (map_compare S) (keys (map level_entry (for_each l)))"
    using best_first [OF assms(1)] by simp
  moreover have "map level_entry (for_each l) =
      (pl_price x, pl_total_shares x, pl_order_count x) # map level_entry xs"
    by (simp add: xs level_entry_def)
  moreover assume "p \<in> dom (levels_abs (for_each l))"
  ultimately show "p = pl_price x \<or> map_compare S (pl_price x) p"
    unfolding levels_abs_def by (rule side_order.begin_is_best)
qed

end

section \<open>MapLadder meets the contract\<close>

fun ml_step :: "Side \<Rightarrow> ladder_op \<Rightarrow> level_map \<Rightarrow> level_map" where
  "ml_step S (AddShares p s) l = ml_add_shares S p s l"
| "ml_step S (RemoveShares p s full) l = ml_remove_shares S p s full l"

definition ml_invar :: "Side \<Rightarrow> level_map \<Rightarrow> bool" where
  "ml_invar S m \<longleftrightarrow> sorted_wrt (map_compare S) (keys m) \<and> (\<forall>(p, lvl) \<in> set m. pl_price lvl = p)"

lemma ml_keys: "ml_invar S m \<Longrightarrow> map pl_price (map snd m) = keys m"
  by (auto simp: ml_invar_def)

lemma ml_abs:
  assumes "ml_invar S m"
  shows "levels_abs (ml_for_each m) p =
    map_option (\<lambda>lvl. (pl_total_shares lvl, pl_order_count lvl)) (map_of m p)"
proof -
  have "map level_entry (map snd m) = map (\<lambda>(p, lvl). (p, pl_total_shares lvl, pl_order_count lvl)) m"
    using assms by (auto simp: ml_invar_def level_entry_def)
  then show ?thesis
    by (simp only: levels_abs_def ml_for_each_def map_of_map o_def)
qed

lemma ml_invar_insert:
  assumes "ml_invar S m" and "pl_price lvl = p"
  shows "ml_invar S (std_insert (map_compare S) p lvl m)"
proof -
  have "map_of (std_insert (map_compare S) p lvl m) q = Some x \<Longrightarrow> pl_price x = q" for q x
    using assms by (auto simp: ml_invar_def side_order.find_insert dest!: map_of_SomeD split: if_splits)
  moreover have s: "sorted_wrt (map_compare S) (keys (std_insert (map_compare S) p lvl m))"
    using assms(1) by (simp add: ml_invar_def side_order.sorted_insert)
  ultimately show ?thesis
    using side_order.sorted_distinct [OF s] by (auto simp: ml_invar_def map_of_is_SomeI)
qed

lemma ml_invar_erase: "ml_invar S m \<Longrightarrow> ml_invar S (std_erase p m)"
  using side_order.sorted_erase [of S m p] side_order.erase_mem [of _ p m]
  by (auto simp: ml_invar_def)

lemma ml_level_price: "ml_invar S m \<Longrightarrow> map_of m p = Some lvl \<Longrightarrow> pl_price lvl = p"
  by (auto simp: ml_invar_def dest!: map_of_SomeD)

lemma ml_invar_step: "ml_invar S m \<Longrightarrow> ml_invar S (ml_step S op m)"
  by (cases op)
    (auto simp: ml_add_shares_def ml_remove_shares_def Let_def ml_level_price
      intro!: ml_invar_insert ml_invar_erase split: option.split)

lemma ml_abs_step:
  assumes "ml_invar S m"
  shows "levels_abs (ml_for_each (ml_step S op m)) = spec_step op (levels_abs (ml_for_each m))"
proof (rule ext)
  fix q
  have s: "sorted_wrt (map_compare S) (keys m)" using assms by (simp add: ml_invar_def)
  show "levels_abs (ml_for_each (ml_step S op m)) q = spec_step op (levels_abs (ml_for_each m)) q"
    using ml_abs [OF ml_invar_step [OF assms], of op q] ml_abs [OF assms] s
    by (cases op)
      (auto simp: ml_add_shares_def ml_remove_shares_def level_at_def empty_level_def Let_def
        side_order.find_insert side_order.find_erase split: option.split)
qed

interpretation ml: ladder_contract S "\<lambda>_ _. True" "ml_step S" ml_best ml_size ml_for_each
  "[]" "ml_invar S"
proof
  fix l :: level_map and op
  assume inv: "ml_invar S l"
  show "ml_invar S (ml_step S op l)" using inv by (rule ml_invar_step)
  show "levels_abs (ml_for_each (ml_step S op l)) = spec_step op (levels_abs (ml_for_each l))"
    using inv by (rule ml_abs_step)
  show "sorted_wrt (map_compare S) (map pl_price (ml_for_each l))"
    unfolding ml_for_each_def ml_keys [OF inv] using inv by (simp add: ml_invar_def)
  show "ml_best l = (case ml_for_each l of [] \<Rightarrow> None | x # _ \<Rightarrow> Some x)"
    by (simp add: ml_best_def ml_for_each_def split: list.split)
  show "ml_size l = length (ml_for_each l)"
    by (simp add: ml_size_def ml_for_each_def)
qed (simp_all add: ml_invar_def ml_for_each_def)

section \<open>FlatLadder refines MapLadder\<close>

text \<open>
  The vector of levels is the map keyed by each level's price. On a best-first vector the binary
  search finds the map's position, so every operation commutes with the abstraction.
\<close>

fun fl_step :: "Side \<Rightarrow> ladder_op \<Rightarrow> PriceLevel list \<Rightarrow> PriceLevel list" where
  "fl_step S (AddShares p s) l = fl_add_shares S p s l"
| "fl_step S (RemoveShares p s full) l = fl_remove_shares S p s full l"

definition keyed :: "PriceLevel list \<Rightarrow> level_map" where
  "keyed ls = map (\<lambda>lvl. (pl_price lvl, lvl)) ls"

definition fl_invar :: "Side \<Rightarrow> PriceLevel list \<Rightarrow> bool" where
  "fl_invar S ls \<longleftrightarrow> sorted_wrt (map_compare S) (map pl_price ls)"

lemma keys_keyed [simp]: "keys (keyed ls) = map pl_price ls"
  by (simp add: keyed_def)

lemma ml_invar_keyed: "fl_invar S ls \<Longrightarrow> ml_invar S (keyed ls)"
  by (simp add: ml_invar_def fl_invar_def) (auto simp: keyed_def)

lemma fl_better_eq: "fl_better S = map_compare S"
  by (simp add: fun_eq_iff fl_better_def map_compare_def less_Price_def split: Side.split)

lemma fl_find_pos:
  assumes "fl_invar S ls"
  shows "fl_find S p ls = side_order.pos S p (keyed ls)"
proof -
  have "fl_find S p ls = length (takeWhile (\<lambda>lvl. map_compare S (pl_price lvl) p) ls)"
    unfolding fl_find_def fl_better_eq
  proof (rule lower_bound_takeWhile)
    fix i j
    assume "i < j" "j < length ls" "map_compare S (pl_price (ls ! j)) p"
    moreover from this have "map_compare S (pl_price (ls ! i)) (pl_price (ls ! j))"
      using assms by (simp add: fl_invar_def sorted_wrt_iff_nth_less)
    ultimately show "map_compare S (pl_price (ls ! i)) p" by (metis side_order.lt_trans)
  qed
  then show ?thesis by (simp add: side_order.pos_def keyed_def takeWhile_map o_def)
qed

lemma keyed_nth: "i < length ls \<Longrightarrow> keyed ls ! i = (pl_price (ls ! i), ls ! i)"
  by (simp add: keyed_def)

lemma keyed_simps [simp]:
  "length (keyed ls) = length ls"
  "take i (keyed ls) = keyed (take i ls)" "drop i (keyed ls) = keyed (drop i ls)"
  "(keyed ls)[i := (pl_price x, x)] = keyed (ls[i := x])"
  "keyed (xs @ ys) = keyed xs @ keyed ys" "keyed (x # xs) = (pl_price x, x) # keyed xs"
  by (simp_all add: keyed_def take_map drop_map map_update)

lemma price_update_same: "pl_price x = p \<Longrightarrow> x\<lparr>pl_price := p\<rparr> = (x :: PriceLevel)"
  by simp

lemma keyed_ops:
  assumes "fl_invar S ls"
  defines "i \<equiv> \<lambda>p. fl_find S p ls"
  defines "hit \<equiv> \<lambda>p. i p < length ls \<and> pl_price (ls ! i p) = p"
  shows "i p \<le> length ls"
    and "map_of (keyed ls) p = (if hit p then Some (ls ! i p) else None)"
    and "pl_price x = p \<Longrightarrow> std_insert (map_compare S) p x (keyed ls) =
           keyed (if hit p then ls[i p := x] else take (i p) ls @ x # drop (i p) ls)"
    and "std_erase p (keyed ls) = keyed (if hit p then take (i p) ls @ drop (Suc (i p)) ls else ls)"
proof -
  have s: "sorted_wrt (map_compare S) (keys (keyed ls))"
    using assms(1) by (simp add: fl_invar_def)
  have i: "side_order.pos S p (keyed ls) = i p" for p
    using fl_find_pos [OF assms(1)] by (simp add: i_def)
  show "i p \<le> length ls"
    using length_takeWhile_le [of "\<lambda>e. map_compare S (fst e) p" "keyed ls"]
    by (simp add: i [symmetric] side_order.pos_def)
  show "map_of (keyed ls) p = (if hit p then Some (ls ! i p) else None)"
    using side_order.find_at [OF s, of p] by (auto simp: i hit_def keyed_nth)
  show "std_insert (map_compare S) p x (keyed ls) =
      keyed (if hit p then ls[i p := x] else take (i p) ls @ x # drop (i p) ls)" if "pl_price x = p"
    using side_order.insert_at [OF s, of p x] keyed_simps(4) [of ls "i p" x] that
    by (auto simp: i hit_def keyed_nth)
  show "std_erase p (keyed ls) = keyed (if hit p then take (i p) ls @ drop (Suc (i p)) ls else ls)"
    using side_order.erase_at [OF s, of p] by (auto simp: i hit_def keyed_nth)
qed

lemma fl_refines_ml:
  assumes "fl_invar S ls"
  shows "keyed (fl_step S op ls) = ml_step S op (keyed ls)"
proof (cases op)
  case (AddShares p sh)
  then show ?thesis
    by (auto simp: fl_add_shares_def ml_add_shares_def level_at_def empty_level_def Let_def
        keyed_ops [OF assms] price_update_same split: if_splits)
next
  case (RemoveShares p sh full)
  then show ?thesis
    using keyed_ops(1) [OF assms, of p]
    by (auto simp: fl_remove_shares_def ml_remove_shares_def Let_def keyed_ops(2-4) [OF assms]
        split: if_splits)
qed

lemma keyed_for_each: "ml_for_each (keyed ls) = fl_for_each ls"
  by (simp add: ml_for_each_def fl_for_each_def keyed_def o_def)

lemma fl_invar_step:
  assumes "fl_invar S ls"
  shows "fl_invar S (fl_step S op ls)"
proof -
  have "ml_invar S (keyed (fl_step S op ls))"
    unfolding fl_refines_ml [OF assms] by (intro ml_invar_step ml_invar_keyed assms)
  then show ?thesis by (simp add: ml_invar_def fl_invar_def)
qed

interpretation fl: ladder_contract S "\<lambda>_ _. True" "fl_step S" fl_best fl_size fl_for_each
  "[]" "fl_invar S"
proof
  fix l :: "PriceLevel list" and op
  assume inv: "fl_invar S l"
  show "fl_invar S (fl_step S op l)" using inv by (rule fl_invar_step)
  show "levels_abs (fl_for_each (fl_step S op l)) = spec_step op (levels_abs (fl_for_each l))"
    unfolding keyed_for_each [symmetric] fl_refines_ml [OF inv]
    by (intro ml_abs_step ml_invar_keyed inv)
  show "sorted_wrt (map_compare S) (map pl_price (fl_for_each l))"
    using inv by (simp add: fl_for_each_def fl_invar_def)
  show "fl_best l = (case fl_for_each l of [] \<Rightarrow> None | x # _ \<Rightarrow> Some x)"
    by (simp add: fl_best_def fl_for_each_def)
  show "fl_size l = length (fl_for_each l)"
    by (simp add: fl_size_def fl_for_each_def)
qed (simp_all add: fl_invar_def fl_for_each_def)

end
