(* ===== verification/Array_Ladder.thy ===== *)
theory Array_Ladder
  imports Ladder_Contract
begin

text \<open>
  The array ladder meets the ladder contract on the price grid it was built for: prices inside
  the band and on a tick, no wrap of an order count, and the last removal at a level taking
  exactly the shares that are left. Off the grid and with a residual it differs from the map
  ladder, which the last section shows on concrete operations.
\<close>

section \<open>The grid\<close>

definition on_grid :: "nat \<Rightarrow> u32 \<Rightarrow> u32 \<Rightarrow> Price \<Rightarrow> bool" where
  "on_grid SLOTS TICK base p \<longleftrightarrow>
     base \<le> raw p \<and> (unat (raw p) - unat base) mod unat TICK = 0 \<and>
     (unat (raw p) - unat base) div unat TICK < SLOTS"

definition slot :: "u32 \<Rightarrow> u32 \<Rightarrow> Price \<Rightarrow> nat" where
  "slot TICK base p = (unat (raw p) - unat base) div unat TICK"

lemma idx_of_slot:
  assumes "on_grid SLOTS TICK base p"
  shows "al_base_raw l = base \<Longrightarrow> al_idx_of SLOTS TICK p l = slot TICK base p"
    and "slot TICK base p < SLOTS"
  using assms by (auto simp: al_idx_of_def slot_def on_grid_def unat_div unat_sub)

lemma slot_price:
  assumes "on_grid SLOTS TICK base p"
  shows "unat (raw p) = unat base + slot TICK base p * unat TICK"
proof -
  have "unat base \<le> unat (raw p)" using assms by (simp add: on_grid_def word_le_nat_alt)
  moreover have "slot TICK base p * unat TICK = unat (raw p) - unat base"
    using assms div_mult_mod_eq [of "unat (raw p) - unat base" "unat TICK"]
    by (simp add: slot_def on_grid_def)
  ultimately show ?thesis by simp
qed

lemma slot_inject:
  assumes "on_grid SLOTS TICK base p" and "on_grid SLOTS TICK base q"
    and "slot TICK base p = slot TICK base q"
  shows "p = q"
  using slot_price [OF assms(1)] slot_price [OF assms(2)] assms(3)
  by (metis Price.expand word_unat_eq_iff)

lemma slot_mono:
  assumes "on_grid SLOTS TICK base p" and "on_grid SLOTS TICK base q" and "TICK \<noteq> 0"
  shows "slot TICK base p < slot TICK base q \<longleftrightarrow> p < q"
  using slot_price [OF assms(1)] slot_price [OF assms(2)] assms(3)
  by (auto simp: less_Price_def word_less_nat_alt unat_gt_0)

section \<open>Invariant\<close>

abbreviation live :: "PriceLevel \<Rightarrow> bool" where
  "live x \<equiv> pl_order_count x \<noteq> 0"

definition occ :: "PriceLevel list \<Rightarrow> nat set" where
  "occ ls = {i. i < length ls \<and> live (ls ! i)}"

definition grid_levels :: "nat \<Rightarrow> u32 \<Rightarrow> u32 \<Rightarrow> PriceLevel list \<Rightarrow> bool" where
  "grid_levels SLOTS TICK base ls \<longleftrightarrow>
     length ls = SLOTS \<and>
     (\<forall>i < SLOTS. if live (ls ! i)
        then on_grid SLOTS TICK base (pl_price (ls ! i)) \<and> slot TICK base (pl_price (ls ! i)) = i
        else pl_total_shares (ls ! i) = 0)"

definition best_ok :: "Side \<Rightarrow> nat \<Rightarrow> nat set \<Rightarrow> nat \<Rightarrow> bool" where
  "best_ok S SLOTS os b \<longleftrightarrow>
     (if os = {} then b = SLOTS
      else b \<in> os \<and> (\<forall>j \<in> os. case S of Bid \<Rightarrow> j \<le> b | Ask \<Rightarrow> b \<le> j))"

definition al_invar :: "Side \<Rightarrow> nat \<Rightarrow> u32 \<Rightarrow> u32 \<Rightarrow> ArrayLadder \<Rightarrow> bool" where
  "al_invar S SLOTS TICK base l \<longleftrightarrow>
     al_base_raw l = base \<and> grid_levels SLOTS TICK base (al_levels l) \<and>
     al_nonempty_count l = word_of_nat (card (occ (al_levels l))) \<and>
     best_ok S SLOTS (occ (al_levels l)) (al_best_idx l)"

lemma finite_occ [simp]: "finite (occ ls)"
  by (simp add: occ_def)

lemma card_occ_le: "card (occ ls) \<le> length ls"
  using card_mono [of "{..<length ls}" "occ ls"] by (auto simp: occ_def)

lemma occ_update: "i < length ls \<Longrightarrow> occ (ls[i := x]) = (if live x then insert i (occ ls) else occ ls - {i})"
  by (auto simp: occ_def nth_list_update)

lemma grid_update:
  assumes "grid_levels SLOTS TICK base ls" and "on_grid SLOTS TICK base p" and "i = slot TICK base p"
    and "if live x then pl_price x = p else pl_total_shares x = 0"
  shows "grid_levels SLOTS TICK base (ls[i := x])"
proof -
  have "if live (ls[i := x] ! j)
      then on_grid SLOTS TICK base (pl_price (ls[i := x] ! j)) \<and> slot TICK base (pl_price (ls[i := x] ! j)) = j
      else pl_total_shares (ls[i := x] ! j) = 0" if "j < SLOTS" for j
    using assms that by (cases "j = i") (simp_all add: grid_levels_def split: if_splits)
  then show ?thesis using assms(1) by (simp add: grid_levels_def)
qed

section \<open>What the ladder shows\<close>

text \<open>The abstract ladder read off the array directly, by slot.\<close>

definition al_view :: "nat \<Rightarrow> u32 \<Rightarrow> u32 \<Rightarrow> PriceLevel list \<Rightarrow> abs_ladder" where
  "al_view SLOTS TICK base ls p =
     (if on_grid SLOTS TICK base p \<and> live (ls ! slot TICK base p)
      then Some (pl_total_shares (ls ! slot TICK base p), pl_order_count (ls ! slot TICK base p))
      else None)"

lemma filter_below: "(\<And>i. i < k \<Longrightarrow> \<not> P (ls ! i)) \<Longrightarrow> k \<le> length ls \<Longrightarrow>
    filter P (map (nth ls) [k..<length ls]) = filter P ls"
proof -
  assume none: "\<And>i. i < k \<Longrightarrow> \<not> P (ls ! i)" and k: "k \<le> length ls"
  have "filter P ls = filter P (map (nth ls) ([0..<k] @ [k..<length ls]))"
    using k upt_add_eq_append [of 0 k "length ls - k"] map_nth [of ls] by simp
  moreover have "filter P (map (nth ls) [0..<k]) = []" using none by (auto simp: filter_empty_conv)
  ultimately show ?thesis by simp
qed

lemma filter_above: "(\<And>i. k \<le> i \<Longrightarrow> i < length ls \<Longrightarrow> \<not> P (ls ! i)) \<Longrightarrow> k \<le> length ls \<Longrightarrow>
    filter P (map (nth ls) [0..<k]) = filter P ls"
proof -
  assume none: "\<And>i. k \<le> i \<Longrightarrow> i < length ls \<Longrightarrow> \<not> P (ls ! i)" and k: "k \<le> length ls"
  have "filter P ls = filter P (map (nth ls) ([0..<k] @ [k..<length ls]))"
    using k upt_add_eq_append [of 0 k "length ls - k"] map_nth [of ls] by simp
  moreover have "filter P (map (nth ls) [k..<length ls]) = []"
    using none by (auto simp: filter_empty_conv)
  ultimately show ?thesis by simp
qed

lemma nonempty_count_0:
  assumes "al_invar S SLOTS TICK base l" and "SLOTS < 2 ^ 32"
  shows "al_nonempty_count l = 0 \<longleftrightarrow> occ (al_levels l) = {}"
    and "unat (al_nonempty_count l) = card (occ (al_levels l))"
proof -
  have "card (occ (al_levels l)) < 2 ^ 32"
    using card_occ_le [of "al_levels l"] assms by (simp add: al_invar_def grid_levels_def)
  then show c: "unat (al_nonempty_count l) = card (occ (al_levels l))"
    using assms(1) by (simp only: al_invar_def unat_of_nat_u32)
  show "al_nonempty_count l = 0 \<longleftrightarrow> occ (al_levels l) = {}"
    using c by (metis card_0_eq finite_occ unat_eq_0)
qed

lemma al_for_each_eq:
  assumes "al_invar S SLOTS TICK base l" and "SLOTS < 2 ^ 32"
  shows "al_for_each S SLOTS l =
    (case S of Bid \<Rightarrow> rev (filter live (al_levels l)) | Ask \<Rightarrow> filter live (al_levels l))"
proof (cases "occ (al_levels l) = {}")
  case True
  then have "filter live (al_levels l) = []"
    by (auto simp: occ_def filter_empty_conv in_set_conv_nth)
  with True nonempty_count_0 [OF assms] show ?thesis
    by (simp add: al_for_each_def split: Side.split)
next
  case False
  have len: "length (al_levels l) = SLOTS" using assms(1) by (simp add: al_invar_def grid_levels_def)
  have b: "al_best_idx l \<in> occ (al_levels l)"
    and best: "\<And>j. j \<in> occ (al_levels l) \<Longrightarrow> (case S of Bid \<Rightarrow> j \<le> al_best_idx l | Ask \<Rightarrow> al_best_idx l \<le> j)"
    using assms(1) False by (auto simp: al_invar_def best_ok_def)
  have lt: "al_best_idx l < SLOTS" using b len by (simp add: occ_def)
  have ne: "al_nonempty_count l \<noteq> 0" using False nonempty_count_0 [OF assms] by simp
  show ?thesis
  proof (cases S)
    case Bid
    have "\<not> live (al_levels l ! i)" if "al_best_idx l + 1 \<le> i" "i < SLOTS" for i
      using best [of i] that len by (auto simp: occ_def Bid)
    then have "filter live (map (nth (al_levels l)) [0..<al_best_idx l + 1]) = filter live (al_levels l)"
      using lt len by (intro filter_above) simp_all
    then show ?thesis
      using ne Bid by (simp add: al_for_each_def rev_map [symmetric] rev_filter [symmetric] word_gt_0 del: upt_Suc)
  next
    case Ask
    have "\<not> live (al_levels l ! i)" if "i < al_best_idx l" for i
      using best [of i] that len lt by (auto simp: occ_def Ask)
    then have "filter live (map (nth (al_levels l)) [al_best_idx l..<length (al_levels l)]) = filter live (al_levels l)"
      using lt len by (intro filter_below) simp_all
    then show ?thesis
      using ne Ask len by (simp add: al_for_each_def word_gt_0)
  qed
qed

lemma live_sorted:
  assumes "grid_levels SLOTS TICK base ls" and "TICK \<noteq> 0"
  shows "sorted_wrt (\<lambda>x y. pl_price x < pl_price y) (filter live ls)"
proof -
  let ?P = "\<lambda>x y. live x \<and> live y \<longrightarrow> pl_price x < pl_price y"
  have "pl_price (ls ! i) < pl_price (ls ! j)"
    if "i < j" "j < length ls" "live (ls ! i)" "live (ls ! j)" for i j
  proof -
    have g: "on_grid SLOTS TICK base (pl_price (ls ! k))" "slot TICK base (pl_price (ls ! k)) = k"
      if "k < length ls" "live (ls ! k)" for k
      using assms(1) that by (auto simp: grid_levels_def)
    have il: "i < length ls" using that by simp
    from slot_mono [OF g(1) [OF il that(3)] g(1) [OF that(2,4)] assms(2)]
    show ?thesis using g(2) [OF il that(3)] g(2) [OF that(2,4)] that(1) by simp
  qed
  then have "sorted_wrt ?P ls" by (simp add: sorted_wrt_iff_nth_less)
  then have "sorted_wrt ?P (filter live ls)" by (rule sorted_wrt_filter)
  then show ?thesis by (rule sorted_wrt_mono_rel [rotated]) auto
qed

lemma al_best_first:
  assumes "al_invar S SLOTS TICK base l" and "SLOTS < 2 ^ 32" and "TICK \<noteq> 0"
  shows "sorted_wrt (map_compare S) (map pl_price (al_for_each S SLOTS l))"
proof -
  have "sorted_wrt (\<lambda>x y. pl_price x < pl_price y) (filter live (al_levels l))"
    using assms by (intro live_sorted [of SLOTS TICK base]) (simp_all add: al_invar_def)
  then show ?thesis
    by (simp add: al_for_each_eq [OF assms(1,2)] sorted_wrt_map sorted_wrt_rev map_compare_def
        split: Side.split)
qed

lemma levels_abs_mem:
  "distinct (map pl_price ls) \<Longrightarrow> levels_abs ls p = Some tc \<longleftrightarrow> (p, tc) \<in> level_entry ` set ls"
  unfolding levels_abs_def by (subst map_of_eq_Some_iff) simp_all

lemma al_abs_view:
  assumes inv: "al_invar S SLOTS TICK base l" and slots: "SLOTS < 2 ^ 32" and "TICK \<noteq> 0"
  shows "levels_abs (al_for_each S SLOTS l) = al_view SLOTS TICK base (al_levels l)"
proof -
  let ?ls = "al_levels l"
  have grid: "grid_levels SLOTS TICK base ?ls" using inv by (simp add: al_invar_def)
  have set: "set (al_for_each S SLOTS l) = set (filter live ?ls)"
    by (simp add: al_for_each_eq [OF inv slots] split: Side.split)
  have "levels_abs (al_for_each S SLOTS l) p = Some tc \<longleftrightarrow> al_view SLOTS TICK base ?ls p = Some tc" for p tc
  proof -
    have d: "distinct (map pl_price (al_for_each S SLOTS l))"
      using al_best_first [OF assms] by (rule side_order.sorted_distinct)
    have "levels_abs (al_for_each S SLOTS l) p = Some tc \<longleftrightarrow>
        (\<exists>i < length ?ls. live (?ls ! i) \<and> (p, tc) = level_entry (?ls ! i))"
      unfolding levels_abs_mem [OF d] set by (auto simp: in_set_conv_nth)
    also have "\<dots> \<longleftrightarrow> al_view SLOTS TICK base ?ls p = Some tc"
    proof
      assume "\<exists>i < length ?ls. live (?ls ! i) \<and> (p, tc) = level_entry (?ls ! i)"
      then obtain i where i: "i < length ?ls" "live (?ls ! i)" "(p, tc) = level_entry (?ls ! i)"
        by blast
      with grid have "on_grid SLOTS TICK base p" "slot TICK base p = i"
        by (auto simp: grid_levels_def level_entry_def)
      with i show "al_view SLOTS TICK base ?ls p = Some tc"
        by (simp add: al_view_def level_entry_def)
    next
      assume v: "al_view SLOTS TICK base ?ls p = Some tc"
      let ?i = "slot TICK base p"
      have i: "on_grid SLOTS TICK base p" "live (?ls ! ?i)"
        "tc = (pl_total_shares (?ls ! ?i), pl_order_count (?ls ! ?i))"
        using v by (auto simp: al_view_def split: if_splits)
      then have lt: "?i < length ?ls" using grid by (simp add: grid_levels_def on_grid_def slot_def)
      with grid i(2) have "on_grid SLOTS TICK base (pl_price (?ls ! ?i))"
        "slot TICK base (pl_price (?ls ! ?i)) = ?i"
        by (auto simp: grid_levels_def)
      then have "pl_price (?ls ! ?i) = p" using slot_inject i(1) by blast
      with i lt show "\<exists>i < length ?ls. live (?ls ! i) \<and> (p, tc) = level_entry (?ls ! i)"
        by (intro exI [of _ ?i]) (simp add: level_entry_def)
    qed
    finally show ?thesis .
  qed
  then have "levels_abs (al_for_each S SLOTS l) p = al_view SLOTS TICK base ?ls p" for p
    by (metis option.exhaust)
  then show ?thesis by blast
qed

lemma al_view_update:
  assumes "on_grid SLOTS TICK base p" and "length ls = SLOTS"
  shows "al_view SLOTS TICK base (ls[slot TICK base p := x]) =
    (al_view SLOTS TICK base ls)(p := if live x then Some (pl_total_shares x, pl_order_count x) else None)"
proof (rule ext)
  fix q
  have "slot TICK base p < SLOTS" using assms(1) by (simp add: on_grid_def slot_def)
  moreover have "slot TICK base p \<noteq> slot TICK base q" if "on_grid SLOTS TICK base q" "q \<noteq> p"
    using slot_inject [OF that(1) assms(1)] that(2) by metis
  ultimately show "al_view SLOTS TICK base (ls[slot TICK base p := x]) q =
      ((al_view SLOTS TICK base ls)(p := if live x then Some (pl_total_shares x, pl_order_count x) else None)) q"
    using assms by (cases "q = p"; cases "on_grid SLOTS TICK base q") (simp_all add: al_view_def)
qed

section \<open>The scanning loops\<close>

lemma scan_down_Some:
  "al_scan_down ls i = Some j \<longleftrightarrow> j < i \<and> live (ls ! j) \<and> (\<forall>k. j < k \<and> k < i \<longrightarrow> \<not> live (ls ! k))"
  by (induction i) (auto simp: word_gt_0 less_Suc_eq)

lemma scan_down_None: "al_scan_down ls i = None \<longleftrightarrow> (\<forall>k < i. \<not> live (ls ! k))"
  by (induction i) (auto simp: word_gt_0 less_Suc_eq)

lemma scan_up_Some:
  "al_scan_up SLOTS ls i = Some j \<Longrightarrow>
     i < j \<and> j < SLOTS \<and> live (ls ! j) \<and> (\<forall>k. i < k \<and> k < j \<longrightarrow> \<not> live (ls ! k))"
proof (induction SLOTS ls i rule: al_scan_up.induct)
  case (1 SLOTS ls i)
  then show ?case
    by (auto simp: al_scan_up.simps [of SLOTS ls i] word_gt_0 split: if_splits)
      (metis Suc_lessI)
qed

lemma scan_up_None:
  "al_scan_up SLOTS ls i = None \<Longrightarrow> i < k \<Longrightarrow> k < SLOTS \<Longrightarrow> \<not> live (ls ! k)"
proof (induction SLOTS ls i rule: al_scan_up.induct)
  case (1 SLOTS ls i)
  then show ?case
    by (cases "k = i + 1") (auto simp: al_scan_up.simps [of SLOTS ls i] word_gt_0 split: if_splits)
qed

section \<open>Every operation keeps the invariant\<close>

fun al_step :: "Side \<Rightarrow> nat \<Rightarrow> u32 \<Rightarrow> ladder_op \<Rightarrow> ArrayLadder \<Rightarrow> ArrayLadder" where
  "al_step S SLOTS TICK (AddShares p s) l = al_add_shares S SLOTS TICK p s l"
| "al_step S SLOTS TICK (RemoveShares p s full) l = al_remove_shares S SLOTS TICK p s full l"

fun al_legal :: "nat \<Rightarrow> u32 \<Rightarrow> u32 \<Rightarrow> ladder_op \<Rightarrow> abs_ladder \<Rightarrow> bool" where
  "al_legal SLOTS TICK base (AddShares p s) a \<longleftrightarrow>
     on_grid SLOTS TICK base p \<and> (case a p of None \<Rightarrow> True | Some (t, c) \<Rightarrow> c + 1 \<noteq> 0)"
| "al_legal SLOTS TICK base (RemoveShares p s full) a \<longleftrightarrow>
     on_grid SLOTS TICK base p \<and>
     (case a p of None \<Rightarrow> True | Some (t, c) \<Rightarrow> full \<and> c = 1 \<longrightarrow> t = ucast s)"

lemma update_best_fields [simp]:
  "al_base_raw (al_update_best_after_add S i l) = al_base_raw l"
  "al_nonempty_count (al_update_best_after_add S i l) = al_nonempty_count l"
  "al_levels (al_update_best_after_add S i l) = al_levels l"
  by (simp_all add: al_update_best_after_add_def split: Side.split)

lemma advance_best_fields [simp]:
  "al_base_raw (al_advance_best_from S SLOTS i l) = al_base_raw l"
  "al_nonempty_count (al_advance_best_from S SLOTS i l) = al_nonempty_count l"
  "al_levels (al_advance_best_from S SLOTS i l) = al_levels l"
  by (simp_all add: al_advance_best_from_def split: Side.split option.split)

lemma update_best_ok:
  assumes "best_ok S SLOTS os (al_best_idx l)" and "al_nonempty_count l = 1 \<longleftrightarrow> os = {}"
  shows "best_ok S SLOTS (insert i os) (al_best_idx (al_update_best_after_add S i l))"
proof (cases "os = {}")
  case True
  with assms show ?thesis by (simp add: best_ok_def al_update_best_after_add_def split: Side.split)
next
  case False
  with assms show ?thesis
    by (cases S)
      (auto simp: best_ok_def al_update_best_after_add_def intro: order.trans less_imp_le)
qed

lemma advance_best_ok:
  assumes "best_ok S SLOTS (insert i (occ (al_levels l))) i" and "i \<notin> occ (al_levels l)"
    and "al_nonempty_count l = 0 \<longleftrightarrow> occ (al_levels l) = {}"
    and "length (al_levels l) = SLOTS" and "i < SLOTS"
  shows "best_ok S SLOTS (occ (al_levels l)) (al_best_idx (al_advance_best_from S SLOTS i l))"
proof (cases "occ (al_levels l) = {}")
  case True
  with assms(3) show ?thesis by (simp add: best_ok_def al_advance_best_from_def)
next
  case False
  let ?ls = "al_levels l"
  have ne: "al_nonempty_count l \<noteq> 0" using False assms(3) by simp
  have i: "case S of Bid \<Rightarrow> k < i | Ask \<Rightarrow> i < k" if "k \<in> occ ?ls" for k
  proof -
    have "k \<noteq> i" using assms(2) that by blast
    moreover have "case S of Bid \<Rightarrow> k \<le> i | Ask \<Rightarrow> i \<le> k"
      using assms(1) that by (simp add: best_ok_def)
    ultimately show ?thesis by (cases S) simp_all
  qed
  obtain k where k: "k \<in> occ ?ls" using False by blast
  show ?thesis
  proof (cases S)
    case Bid
    have "al_scan_down ?ls i \<noteq> None" using i [OF k] k Bid by (auto simp: scan_down_None occ_def)
    then obtain j where j: "al_scan_down ?ls i = Some j" by blast
    then have "j \<in> occ ?ls" using assms(4,5) by (simp add: scan_down_Some occ_def)
    moreover have "k \<le> j" if "k \<in> occ ?ls" for k
    proof (rule ccontr)
      assume "\<not> k \<le> j"
      with i [OF that] Bid j have "\<not> live (?ls ! k)" by (simp add: scan_down_Some)
      with that show False by (simp add: occ_def)
    qed
    ultimately show ?thesis using Bid ne j False by (simp add: best_ok_def al_advance_best_from_def)
  next
    case Ask
    have "al_scan_up SLOTS ?ls i \<noteq> None"
      using i [OF k] k Ask assms(4) scan_up_None [of SLOTS ?ls i k] by (auto simp: occ_def)
    then obtain j where j: "al_scan_up SLOTS ?ls i = Some j" by blast
    then have "j \<in> occ ?ls" using assms(4) scan_up_Some [OF j] by (simp add: occ_def)
    moreover have "j \<le> k" if "k \<in> occ ?ls" for k
    proof (rule ccontr)
      assume "\<not> j \<le> k"
      with i [OF that] Ask scan_up_Some [OF j] have "\<not> live (?ls ! k)" by simp
      with that show False by (simp add: occ_def)
    qed
    ultimately show ?thesis using Ask ne j False by (simp add: best_ok_def al_advance_best_from_def)
  qed
qed

lemma live_price:
  assumes "grid_levels SLOTS TICK base ls" and "on_grid SLOTS TICK base p" and "live (ls ! slot TICK base p)"
  shows "pl_price (ls ! slot TICK base p) = p"
proof -
  let ?i = "slot TICK base p"
  have "?i < SLOTS" using assms(2) by (simp add: on_grid_def slot_def)
  then have "on_grid SLOTS TICK base (pl_price (ls ! ?i))" "slot TICK base (pl_price (ls ! ?i)) = ?i"
    using assms(1,3) by (auto simp: grid_levels_def)
  then show ?thesis using slot_inject assms(2) by blast
qed

lemma view_at:
  "on_grid SLOTS TICK base p \<Longrightarrow>
     al_view SLOTS TICK base ls p =
       (if live (ls ! slot TICK base p)
        then Some (pl_total_shares (ls ! slot TICK base p), pl_order_count (ls ! slot TICK base p)) else None)"
  by (simp add: al_view_def)

lemma al_add_invar:
  assumes inv: "al_invar S SLOTS TICK base l" and slots: "SLOTS < 2 ^ 32"
    and legal: "al_legal SLOTS TICK base (AddShares p s) (al_view SLOTS TICK base (al_levels l))"
  shows "al_invar S SLOTS TICK base (al_add_shares S SLOTS TICK p s l)"
    and "al_view SLOTS TICK base (al_levels (al_add_shares S SLOTS TICK p s l)) =
      spec_step (AddShares p s) (al_view SLOTS TICK base (al_levels l))"
proof -
  let ?ls = "al_levels l" let ?i = "slot TICK base p"
  define x where "x = ?ls ! ?i"
  define y where "y = x\<lparr>pl_price := p, pl_total_shares := pl_total_shares x + ucast s,
      pl_order_count := pl_order_count x + 1\<rparr>"
  have g: "on_grid SLOTS TICK base p" using legal by simp
  have grid: "grid_levels SLOTS TICK base ?ls" and len: "length ?ls = SLOTS"
    using inv by (simp_all add: al_invar_def grid_levels_def)
  have idx: "al_idx_of SLOTS TICK p l = ?i" "?i < SLOTS"
    using inv by (simp_all add: al_invar_def idx_of_slot [OF g])
  have ly: "live y" using legal g by (simp add: view_at y_def x_def split: if_splits)
  have grid': "grid_levels SLOTS TICK base (?ls[?i := y])"
    using grid g ly by (intro grid_update) (simp_all add: y_def)
  have occ': "occ (?ls[?i := y]) = insert ?i (occ ?ls)" using idx(2) len ly by (simp add: occ_update)
  have lev: "al_levels (al_add_shares S SLOTS TICK p s l) = ?ls[?i := y]"
    using idx len live_price [OF grid g]
    by (auto simp: al_add_shares_def Let_def y_def x_def price_update_same)
  have total: "pl_total_shares x = 0" if "\<not> live x"
    using grid idx(2) that by (simp add: grid_levels_def x_def)
  show "al_view SLOTS TICK base (al_levels (al_add_shares S SLOTS TICK p s l)) =
      spec_step (AddShares p s) (al_view SLOTS TICK base ?ls)"
    using ly total unfolding lev al_view_update [OF g len]
    by (simp add: view_at [OF g] x_def [symmetric]) (simp add: y_def)
  show "al_invar S SLOTS TICK base (al_add_shares S SLOTS TICK p s l)"
  proof (cases "live x")
    case True
    then have "?i \<in> occ ?ls" using idx(2) len by (simp add: occ_def x_def)
    then show ?thesis
      using True inv idx grid' occ' lev
      by (auto simp: al_invar_def al_add_shares_def Let_def x_def insert_absorb)
  next
    case False
    then have ni: "?i \<notin> occ ?ls" by (simp add: occ_def x_def)
    let ?l1 = "l\<lparr>al_nonempty_count := al_nonempty_count l + 1, al_levels := ?ls[?i := x\<lparr>pl_price := p\<rparr>]\<rparr>"
    have "al_nonempty_count l + 1 = 1 \<longleftrightarrow> occ ?ls = {}"
      using nonempty_count_0(1) [OF inv slots] by simp
    then have b: "best_ok S SLOTS (insert ?i (occ ?ls)) (al_best_idx (al_update_best_after_add S ?i ?l1))"
      using inv by (intro update_best_ok) (simp_all add: al_invar_def)
    show ?thesis
      using False inv idx grid' occ' lev ni b
      by (auto simp: al_invar_def al_add_shares_def Let_def x_def)
  qed
qed

text \<open>Emptying slot \<open>i\<close>: the count drops by one and the best index moves on if it pointed there.\<close>

lemma al_empty_slot:
  assumes inv: "al_invar S SLOTS TICK base l" and slots: "SLOTS < 2 ^ 32"
    and i: "i \<in> occ (al_levels l)" and y: "\<not> live y"
    and grid: "grid_levels SLOTS TICK base ((al_levels l)[i := y])"
  defines "l2 \<equiv> l\<lparr>al_levels := (al_levels l)[i := y], al_nonempty_count := al_nonempty_count l - 1\<rparr>"
  shows "al_invar S SLOTS TICK base (if i = al_best_idx l then al_advance_best_from S SLOTS i l2 else l2)"
proof -
  let ?ls = "al_levels l"
  have len: "length ?ls = SLOTS" using inv by (simp add: al_invar_def grid_levels_def)
  have lt: "i < SLOTS" using i len by (simp add: occ_def)
  have o2: "occ (al_levels l2) = occ ?ls - {i}" using lt len y by (simp add: l2_def occ_update)
  have "Suc (card (occ ?ls - {i})) = card (occ ?ls)"
    using i by (intro card_Suc_Diff1) simp_all
  then have "al_nonempty_count l = word_of_nat (Suc (card (occ ?ls - {i})))"
    using inv by (simp only: al_invar_def)
  then have cnt: "al_nonempty_count l2 = word_of_nat (card (occ (al_levels l2)))"
    unfolding o2 by (simp add: l2_def del: card_Diff_insert)
  have "card (occ (al_levels l2)) < 2 ^ 32"
    using card_occ_le [of "al_levels l2"] len slots by (simp add: l2_def)
  then have cnt0: "al_nonempty_count l2 = 0 \<longleftrightarrow> occ (al_levels l2) = {}"
    unfolding cnt by (simp only: of_nat_u32_eq_0 card_0_eq finite_occ)
  have best: "best_ok S SLOTS (insert i (occ (al_levels l2))) (al_best_idx l)"
    using inv i o2 by (simp add: al_invar_def insert_absorb)
  have "best_ok S SLOTS (occ (al_levels l2))
      (al_best_idx (if i = al_best_idx l then al_advance_best_from S SLOTS i l2 else l2))"
  proof (cases "i = al_best_idx l")
    case True
    then show ?thesis
      using advance_best_ok [of S SLOTS i l2] best cnt0 o2 len lt by (simp add: l2_def)
  next
    case False
    with best have "al_best_idx l \<in> occ (al_levels l2)" by (auto simp: best_ok_def)
    with best False show ?thesis by (auto simp: best_ok_def l2_def)
  qed
  moreover have "al_base_raw l2 = base" "grid_levels SLOTS TICK base (al_levels l2)"
    using inv grid by (simp_all add: al_invar_def l2_def)
  ultimately show ?thesis using cnt by (simp add: al_invar_def split: if_splits)
qed

lemma al_remove_invar:
  assumes inv: "al_invar S SLOTS TICK base l" and slots: "SLOTS < 2 ^ 32"
    and legal: "al_legal SLOTS TICK base (RemoveShares p s full) (al_view SLOTS TICK base (al_levels l))"
  shows "al_invar S SLOTS TICK base (al_remove_shares S SLOTS TICK p s full l)"
    and "al_view SLOTS TICK base (al_levels (al_remove_shares S SLOTS TICK p s full l)) =
      spec_step (RemoveShares p s full) (al_view SLOTS TICK base (al_levels l))"
proof -
  let ?ls = "al_levels l" let ?i = "slot TICK base p"
  define x where "x = ?ls ! ?i"
  define y where "y = x\<lparr>pl_total_shares := pl_total_shares x - ucast s,
      pl_order_count := (if full then pl_order_count x - 1 else pl_order_count x)\<rparr>"
  have g: "on_grid SLOTS TICK base p" using legal by simp
  have grid: "grid_levels SLOTS TICK base ?ls" and len: "length ?ls = SLOTS"
    using inv by (simp_all add: al_invar_def grid_levels_def)
  have idx: "al_idx_of SLOTS TICK p l = ?i" "?i < SLOTS"
    using inv by (simp_all add: al_invar_def idx_of_slot [OF g])
  have dead: "al_remove_shares S SLOTS TICK p s full l = l" if "\<not> live x"
    using that idx by (simp add: al_remove_shares_def Let_def x_def)
  have lev: "al_levels (al_remove_shares S SLOTS TICK p s full l) = ?ls[?i := y]" if "live x"
    using that idx by (auto simp: al_remove_shares_def Let_def x_def y_def)
  show "al_view SLOTS TICK base (al_levels (al_remove_shares S SLOTS TICK p s full l)) =
      spec_step (RemoveShares p s full) (al_view SLOTS TICK base ?ls)"
    using dead lev al_view_update [OF g len, of y]
    by (cases "live x") (simp_all add: view_at [OF g] x_def [symmetric] y_def)
  have grid': "grid_levels SLOTS TICK base (?ls[?i := y])" if "live x"
    using that grid g legal live_price [OF grid g]
    by (intro grid_update) (auto simp: view_at x_def [symmetric] y_def split: if_splits)
  have io: "?i \<in> occ ?ls" if "live x" using that idx(2) len by (simp add: occ_def x_def)
  show "al_invar S SLOTS TICK base (al_remove_shares S SLOTS TICK p s full l)"
  proof (cases "live x \<and> \<not> live y")
    case False
    have "live x \<Longrightarrow> occ (?ls[?i := y]) = occ ?ls"
      using False io idx(2) len by (auto simp: occ_update)
    then show ?thesis
      using False dead inv idx grid' io
      by (cases "live x") (auto simp: al_invar_def al_remove_shares_def Let_def x_def [symmetric] y_def)
  next
    case True
    then have "full" "pl_order_count x = 1" by (auto simp: y_def split: if_splits)
    then have "al_remove_shares S SLOTS TICK p s full l =
        (let l2 = l\<lparr>al_levels := ?ls[?i := y], al_nonempty_count := al_nonempty_count l - 1\<rparr>
         in if ?i = al_best_idx l then al_advance_best_from S SLOTS ?i l2 else l2)"
      using idx by (simp add: al_remove_shares_def Let_def x_def [symmetric] y_def)
    then show ?thesis
      using al_empty_slot [OF inv slots io, of y] grid' True by (simp add: Let_def)
  qed
qed

lemma al_start_invar:
  assumes "SLOTS < 2 ^ 32"
  shows "al_invar S SLOTS TICK base (al_make SLOTS base)" and "al_for_each S SLOTS (al_make SLOTS base) = []"
proof -
  have "occ (replicate SLOTS empty_level) = {}" by (auto simp: occ_def empty_level_def)
  then show "al_invar S SLOTS TICK base (al_make SLOTS base)"
    by (simp add: al_invar_def al_make_def grid_levels_def best_ok_def) (simp add: empty_level_def)
qed (simp add: al_for_each_def al_make_def)

lemma al_step_contract:
  assumes "al_invar S SLOTS TICK base l" and "SLOTS < 2 ^ 32" and "TICK \<noteq> 0"
    and "al_legal SLOTS TICK base op (levels_abs (al_for_each S SLOTS l))"
  shows "al_invar S SLOTS TICK base (al_step S SLOTS TICK op l)"
    and "levels_abs (al_for_each S SLOTS (al_step S SLOTS TICK op l)) =
      spec_step op (levels_abs (al_for_each S SLOTS l))"
proof -
  have v: "al_legal SLOTS TICK base op (al_view SLOTS TICK base (al_levels l))"
    using assms by (simp add: al_abs_view)
  show inv: "al_invar S SLOTS TICK base (al_step S SLOTS TICK op l)"
    using v assms(1,2) by (cases op) (simp_all only: al_step.simps al_add_invar al_remove_invar)
  show "levels_abs (al_for_each S SLOTS (al_step S SLOTS TICK op l)) =
      spec_step op (levels_abs (al_for_each S SLOTS l))"
    unfolding al_abs_view [OF inv assms(2,3)] al_abs_view [OF assms(1-3)]
    using v assms(1,2) by (cases op) (simp_all only: al_step.simps al_add_invar al_remove_invar)
qed

lemma best_slot:
  assumes "al_invar S SLOTS TICK base l" and "SLOTS < 2 ^ 32" and "al_nonempty_count l \<noteq> 0"
  shows "al_best_idx l < SLOTS" and "live (al_levels l ! al_best_idx l)"
proof -
  have "occ (al_levels l) \<noteq> {}" using nonempty_count_0(1) [OF assms(1,2)] assms(3) by simp
  then have "al_best_idx l \<in> occ (al_levels l)" using assms(1) by (simp add: al_invar_def best_ok_def)
  then show "al_best_idx l < SLOTS" "live (al_levels l ! al_best_idx l)"
    using assms(1) by (simp_all add: occ_def al_invar_def grid_levels_def)
qed

lemma best_shown_first:
  assumes "al_nonempty_count l \<noteq> 0 \<Longrightarrow> al_best_idx l < SLOTS \<and> live (al_levels l ! al_best_idx l)"
  shows "al_best l = (case al_for_each S SLOTS l of [] \<Rightarrow> None | x # _ \<Rightarrow> Some x)"
  using assms
  by (cases "al_nonempty_count l = 0"; cases S)
    (simp_all add: al_best_def al_for_each_def word_gt_0 upt_conv_Cons)

lemma al_best_head:
  assumes "al_invar S SLOTS TICK base l" and "SLOTS < 2 ^ 32"
  shows "al_best l = (case al_for_each S SLOTS l of [] \<Rightarrow> None | x # _ \<Rightarrow> Some x)"
  using best_slot [OF assms] by (intro best_shown_first) simp

lemma al_size_length:
  assumes "al_invar S SLOTS TICK base l" and "SLOTS < 2 ^ 32"
  shows "al_size l = length (al_for_each S SLOTS l)"
proof -
  have "length (filter live (al_levels l)) = card (occ (al_levels l))"
    by (simp add: length_filter_conv_card occ_def)
  then show ?thesis
    using nonempty_count_0(2) [OF assms] by (simp add: al_size_def al_for_each_eq [OF assms] split: Side.split)
qed

text \<open>The class at its default template arguments, for any base price.\<close>

interpretation al: ladder_contract S "al_legal 1024 100 base" "al_step S 1024 100" al_best al_size
  "al_for_each S 1024" "al_make 1024 base" "al_invar S 1024 100 base"
  by unfold_locales
    (simp_all add: al_start_invar al_step_contract al_best_first al_best_head al_size_length)

section \<open>Where the array ladder differs\<close>

lemma upt_1_4: "[Suc 0..<4] = [1, 2, 3]"
  by (simp add: upt_rec numeral_eq_Suc)

lemma replicate_4: "replicate 4 x = [x, x, x, x]"
  by (simp add: numeral_eq_Suc)

lemmas ladder_eval =
  al_add_shares_def al_remove_shares_def al_make_def al_idx_of_def al_update_best_after_add_def
  al_advance_best_from_def al_for_each_def ml_for_each_def ml_add_shares_def ml_remove_shares_def
  level_at_def empty_level_def Let_def map_compare_def less_Price_def upt_1_4 replicate_4

lemma al_off_tick:
  "al_for_each Ask 4 (fold (al_step Ask 4 100) [AddShares (Price 100) 10, AddShares (Price 150) 20] (al_make 4 0)) =
     [\<lparr>pl_price = Price 100, pl_total_shares = 30, pl_order_count = 2\<rparr>]"
  by (simp add: ladder_eval)

lemma ml_off_tick:
  "ml_for_each (fold (ml_step Ask) [AddShares (Price 100) 10, AddShares (Price 150) 20] []) =
     [\<lparr>pl_price = Price 100, pl_total_shares = 10, pl_order_count = 1\<rparr>,
      \<lparr>pl_price = Price 150, pl_total_shares = 20, pl_order_count = 1\<rparr>]"
  by (simp add: ladder_eval)

definition short_lived :: "ladder_op list" where
  "short_lived = [AddShares (Price 100) 100, RemoveShares (Price 100) 1 False,
     RemoveShares (Price 100) 100 True, AddShares (Price 100) 100]"

lemma al_residue:
  "al_for_each Ask 4 (fold (al_step Ask 4 100) short_lived (al_make 4 0)) =
     [\<lparr>pl_price = Price 100, pl_total_shares = 99, pl_order_count = 1\<rparr>]"
  by (simp add: short_lived_def ladder_eval)

lemma ml_residue:
  "ml_for_each (fold (ml_step Ask) short_lived []) =
     [\<lparr>pl_price = Price 100, pl_total_shares = 100, pl_order_count = 1\<rparr>]"
  by (simp add: short_lived_def ladder_eval)

text \<open>
  Outside its contract the array ladder differs from the map ladder in two ways. Two ask
  orders a fraction of a tick apart share a slot: the second add is merged into the first level,
  where the map ladder keeps two levels. And an emptied slot keeps its share total: after an order
  of 100 shares was reduced by 1 and then fully removed with 100, the next order of 100 shares at
  that price shows 99, where the map ladder shows 100.
\<close>

lemma array_ladder_differs:
  "al_for_each Ask 4 (fold (al_step Ask 4 100) [AddShares (Price 100) 10, AddShares (Price 150) 20] (al_make 4 0)) =
     [\<lparr>pl_price = Price 100, pl_total_shares = 30, pl_order_count = 2\<rparr>] \<and>
   ml_for_each (fold (ml_step Ask) [AddShares (Price 100) 10, AddShares (Price 150) 20] []) =
     [\<lparr>pl_price = Price 100, pl_total_shares = 10, pl_order_count = 1\<rparr>,
      \<lparr>pl_price = Price 150, pl_total_shares = 20, pl_order_count = 1\<rparr>] \<and>
   al_for_each Ask 4 (fold (al_step Ask 4 100) short_lived (al_make 4 0)) =
     [\<lparr>pl_price = Price 100, pl_total_shares = 99, pl_order_count = 1\<rparr>] \<and>
   ml_for_each (fold (ml_step Ask) short_lived []) =
     [\<lparr>pl_price = Price 100, pl_total_shares = 100, pl_order_count = 1\<rparr>]"
  by (intro conjI al_off_tick ml_off_tick al_residue ml_residue)

section \<open>The three ladders agree\<close>

lemma legal_run_True: "legal_run (\<lambda>_ _. True) ops a"
  by (induction ops arbitrary: a) simp_all

lemma flat_ladder_same:
  "fl_for_each (fold (fl_step S) ops []) = ml_for_each (fold (ml_step S) ops []) \<and>
   fl_best (fold (fl_step S) ops []) = ml_best (fold (ml_step S) ops []) \<and>
   fl_size (fold (fl_step S) ops []) = ml_size (fold (ml_step S) ops [])"
proof -
  note f = fl.run_from_start [OF legal_run_True, of S] and m = ml.run_from_start [OF legal_run_True, of S]
  have "fl_for_each (fold (fl_step S) ops []) = ml_for_each (fold (ml_step S) ops [])"
    using fl.best_first [OF f(1)] ml.best_first [OF m(1)] f(2) m(2) by (intro levels_abs_unique) simp_all
  then show ?thesis
    by (simp add: fl.best_head [OF f(1)] ml.best_head [OF m(1)] fl.size_length [OF f(1)]
        ml.size_length [OF m(1)])
qed

text \<open>
  (C32) For every sequence of operations the sorted-vector ladder shows exactly the levels of the
  map ladder, in the same best-first order, with the same best level and size.
\<close>

theorem flat_ladder_equals_map_ladder:
  "fl_for_each (fold (fl_step S) ops []) = ml_for_each (fold (ml_step S) ops []) \<and>
   fl_best (fold (fl_step S) ops []) = ml_best (fold (ml_step S) ops []) \<and>
   fl_size (fold (fl_step S) ops []) = ml_size (fold (ml_step S) ops [])"
  by (rule flat_ladder_same)

text \<open>
  (C31) On a sequence of operations that stays on the price grid of the band, never wraps an order
  count and removes a level's last order with exactly the shares that are left, the array ladder
  (1024 slots of 100) shows exactly the levels of the map ladder, with the same best level and size.
\<close>

theorem array_ladder_equals_map_ladder:
  assumes "legal_run (al_legal 1024 100 base) ops Map.empty"
  shows "al_for_each S 1024 (fold (al_step S 1024 100) ops (al_make 1024 base)) =
      ml_for_each (fold (ml_step S) ops []) \<and>
    al_best (fold (al_step S 1024 100) ops (al_make 1024 base)) = ml_best (fold (ml_step S) ops []) \<and>
    al_size (fold (al_step S 1024 100) ops (al_make 1024 base)) = ml_size (fold (ml_step S) ops [])"
proof -
  note a = al.run_from_start [OF assms, of S] and m = ml.run_from_start [OF legal_run_True, of S]
  have "al_for_each S 1024 (fold (al_step S 1024 100) ops (al_make 1024 base)) =
      ml_for_each (fold (ml_step S) ops [])"
    using al.best_first [OF a(1)] ml.best_first [OF m(1)] a(2) m(2) by (intro levels_abs_unique) simp_all
  then show ?thesis
    by (simp add: al.best_head [OF a(1)] ml.best_head [OF m(1)] al.size_length [OF a(1)]
        ml.size_length [OF m(1)])
qed

text \<open>Two bids around 500.00 and the removal of the better one.\<close>

theorem array_ladder_equals_map_ladder_witness:
  "al_best (fold (al_step Bid 1024 100)
      [AddShares (Price 5000000) 100, AddShares (Price 5000100) 50, RemoveShares (Price 5000100) 50 True]
      (al_make 1024 4990000)) =
   Some \<lparr>pl_price = Price 5000000, pl_total_shares = 100, pl_order_count = 1\<rparr>"
proof -
  have "legal_run (al_legal 1024 100 4990000)
      [AddShares (Price 5000000) 100, AddShares (Price 5000100) 50, RemoveShares (Price 5000100) 50 True]
      Map.empty"
    by (simp add: on_grid_def)
  from array_ladder_equals_map_ladder [OF this, of Bid] show ?thesis
    by (simp add: ml_best_def ml_add_shares_def ml_remove_shares_def level_at_def empty_level_def
        Let_def map_compare_def less_Price_def)
qed

text \<open>
  \<^verbatim>\<open>best()\<close> of the map ladder after any operations: null exactly when the abstract ladder is
  empty, otherwise a level of it that no other price beats on that side.
\<close>

lemma map_ladder_best_correct:
  "case ml_best (fold (ml_step S) ops []) of
     None \<Rightarrow> spec_run ops Map.empty = Map.empty
   | Some x \<Rightarrow>
       spec_run ops Map.empty (pl_price x) = Some (pl_total_shares x, pl_order_count x) \<and>
       (\<forall>p. p \<in> dom (spec_run ops Map.empty) \<longrightarrow> p = pl_price x \<or> map_compare S (pl_price x) p)"
proof -
  note m = ml.run_from_start [OF legal_run_True, of S]
  show ?thesis
    using ml.best_None [OF m(1)] ml.best_is_best [OF m(1)] unfolding m(2)
    by (simp split: option.split)
qed

end
