(* ===== verification/Book_Engine.thy ===== *)
theory Book_Engine
  imports Order_Book
begin

text \<open>
  \<^verbatim>\<open>src/book_engine.cpp\<close>: the state of \<^verbatim>\<open>OrderBookEngine\<close> and its message handlers. The hash maps
  \<^verbatim>\<open>order_index_\<close>, \<^verbatim>\<open>books_\<close> and \<^verbatim>\<open>instruments_\<close> are finite maps; a C++ reference to a mapped book
  is the book's value together with the write back \<open>put_book\<close>. Counters are 64-bit words.
  Log lines are not part of the state.
\<close>

record Engine =
  order_index :: "u64 \<rightharpoonup> OrderRecord"
  books :: "u16 \<rightharpoonup> OrderBook"
  instruments :: "u16 \<rightharpoonup> InstrumentInfo"
  messages_processed :: u64
  skipped_unknown_ref :: u64
  corrupt_messages :: u64
  snapshot_interval :: u64
  pipeline_complete :: bool

definition init_engine :: Engine where
  "init_engine = \<lparr>order_index = Map.empty, books = Map.empty, instruments = Map.empty,
     messages_processed = 0, skipped_unknown_ref = 0, corrupt_messages = 0,
     snapshot_interval = 1000, pipeline_complete = False\<rparr>"

definition set_snapshot_interval :: "u64 \<Rightarrow> Engine \<Rightarrow> Engine" where
  "set_snapshot_interval interval st = st\<lparr>snapshot_interval := interval\<rparr>"

definition register_instrument :: "InstrumentInfo \<Rightarrow> Engine \<Rightarrow> Engine" where
  "register_instrument info st = st\<lparr>instruments := (instruments st)(in_stock_locate info \<mapsto> info)\<rparr>"

definition get_book :: "Engine \<Rightarrow> u16 \<Rightarrow> OrderBook option" where
  "get_book st locate = books st locate"

definition get_order :: "Engine \<Rightarrow> u64 \<Rightarrow> OrderRecord option" where
  "get_order st ref = order_index st ref"

definition get_instrument :: "Engine \<Rightarrow> u16 \<Rightarrow> InstrumentInfo option" where
  "get_instrument st locate = instruments st locate"

section \<open>Internal helpers\<close>

definition placeholder :: "u16 \<Rightarrow> InstrumentInfo" where
  "placeholder locate = empty_instrument
     \<lparr>in_stock_locate := locate, in_symbol := ''UNKNOWN_'' @ to_string (unat locate),
      in_trading_state := CHR ''T''\<rparr>"

definition get_or_create_book :: "u16 \<Rightarrow> Engine \<Rightarrow> OrderBook \<times> Engine" where
  "get_or_create_book locate st =
     (case books st locate of
        Some book \<Rightarrow> (book, st)
      | None \<Rightarrow>
          let st1 = (if instruments st locate = None
                     then st\<lparr>instruments := (instruments st)(locate \<mapsto> placeholder locate)\<rparr>
                     else st);
              book = empty_book\<lparr>ob_stock_locate := locate\<rparr>
          in (book, st1\<lparr>books := (books st1)(locate \<mapsto> book)\<rparr>))"

definition put_book :: "u16 \<Rightarrow> OrderBook \<Rightarrow> Engine \<Rightarrow> Engine" where
  "put_book locate book st = st\<lparr>books := (books st)(locate \<mapsto> book)\<rparr>"

definition begin_key :: "level_map \<Rightarrow> Price option" where
  "begin_key m = (case m of [] \<Rightarrow> None | (p, _) # _ \<Rightarrow> Some p)"

definition refresh_top :: "OrderBook \<Rightarrow> OrderBook" where
  "refresh_top book = book\<lparr>ob_best_bid := begin_key (ob_bids book),
     ob_best_ask := begin_key (ob_asks book)\<rparr>"

text \<open>The new value and whether it had to be clamped.\<close>

definition clamped_sub :: "'a::len word \<Rightarrow> 'a word \<Rightarrow> 'a word \<times> bool" where
  "clamped_sub val sub = (if sub > val then (0, True) else (val - sub, False))"

text \<open>The two generic lambdas, on one side of a book.\<close>

definition side_remove :: "Side \<Rightarrow> Price \<Rightarrow> u32 \<Rightarrow> bool \<Rightarrow> level_map \<Rightarrow> level_map" where
  "side_remove S price shares full_removal side_map =
     (case map_of side_map price of
        None \<Rightarrow> side_map
      | Some level \<Rightarrow>
          let level1 = level\<lparr>pl_total_shares := fst (clamped_sub (pl_total_shares level) (ucast shares))\<rparr>;
              level2 = (if full_removal then level1\<lparr>pl_order_count := pl_order_count level1 - 1\<rparr> else level1)
          in if pl_order_count level2 = 0 then std_erase price side_map
             else std_insert (map_compare S) price level2 side_map)"

definition side_insert :: "Side \<Rightarrow> Price \<Rightarrow> u32 \<Rightarrow> level_map \<Rightarrow> level_map" where
  "side_insert S price shares side_map =
     (let level = level_at side_map price
      in std_insert (map_compare S) price
           (level\<lparr>pl_price := price,
                  pl_total_shares := pl_total_shares level + ucast shares,
                  pl_order_count := pl_order_count level + 1\<rparr>) side_map)"

definition on_side :: "char \<Rightarrow> (Side \<Rightarrow> level_map \<Rightarrow> level_map) \<Rightarrow> OrderBook \<Rightarrow> OrderBook" where
  "on_side side f book =
     (if side = CHR ''B'' then book\<lparr>ob_bids := f Bid (ob_bids book)\<rparr>
      else book\<lparr>ob_asks := f Ask (ob_asks book)\<rparr>)"

definition remove_shares :: "OrderBook \<Rightarrow> char \<Rightarrow> Price \<Rightarrow> u32 \<Rightarrow> bool \<Rightarrow> OrderBook" where
  "remove_shares book side price shares full_removal =
     refresh_top (on_side side (\<lambda>S. side_remove S price shares full_removal) book)"

definition stamp_book :: "u16 \<Rightarrow> u64 \<Rightarrow> Engine \<Rightarrow> Engine" where
  "stamp_book locate timestamp st =
     (case books st locate of
        None \<Rightarrow> st
      | Some book \<Rightarrow> put_book locate (book\<lparr>ob_last_update_timestamp := timestamp\<rparr>) st)"

section \<open>Message handlers\<close>

definition add_order_impl ::
    "u16 \<Rightarrow> u64 \<Rightarrow> char \<Rightarrow> u32 \<Rightarrow> Price \<Rightarrow> u64 \<Rightarrow> string \<Rightarrow> Engine \<Rightarrow> Engine" where
  "add_order_impl locate ref side shares price timestamp mpid st =
     (let (book, st1) = get_or_create_book locate st;
          book1 = refresh_top (on_side side (\<lambda>S. side_insert S price shares) book);
          st2 = put_book locate book1 st1;
          rec0 = empty_record\<lparr>rec_shares := shares, rec_price := price, rec_stock_locate := locate,
                   rec_side := side\<rparr>;
          rec1 = (if mpid \<noteq> [] then set_mpid_from mpid rec0 else rec0);
          st3 = st2\<lparr>order_index := (order_index st2)(ref \<mapsto> rec1)\<rparr>
      in stamp_book locate timestamp st3)"

definition handle_add_order :: "AddOrderMsg \<Rightarrow> Engine \<Rightarrow> Engine" where
  "handle_add_order m = add_order_impl (ao_stock_locate m) (ao_order_ref m) (ao_side m)
     (ao_shares m) (ao_price m) (ao_timestamp m) []"

definition handle_add_order_mpid :: "AddOrderMPIDMsg \<Rightarrow> Engine \<Rightarrow> Engine" where
  "handle_add_order_mpid m = add_order_impl (am_stock_locate m) (am_order_ref m) (am_side m)
     (am_shares m) (am_price m) (am_timestamp m) (am_attribution m)"

definition handle_order_executed :: "OrderExecutedMsg \<Rightarrow> Engine \<Rightarrow> Engine" where
  "handle_order_executed m st =
     (case order_index st (oe_order_ref m) of
        None \<Rightarrow> st\<lparr>skipped_unknown_ref := skipped_unknown_ref st + 1\<rparr>
      | Some rec \<Rightarrow>
          let (book, st1) = get_or_create_book (rec_stock_locate rec) st;
              before = rec_shares rec;
              (after, clamped) = clamped_sub before (oe_executed_shares m);
              st2 = (if clamped then st1\<lparr>corrupt_messages := corrupt_messages st1 + 1\<rparr> else st1);
              st3 = st2\<lparr>order_index := (order_index st2)(oe_order_ref m \<mapsto> rec\<lparr>rec_shares := after\<rparr>)\<rparr>;
              full_removal = (after = 0);
              book1 = remove_shares book (rec_side rec) (rec_price rec) (before - after) full_removal;
              st4 = put_book (rec_stock_locate rec) book1 st3;
              st5 = stamp_book (rec_stock_locate rec) (oe_timestamp m) st4
          in if full_removal then st5\<lparr>order_index := (order_index st5)(oe_order_ref m := None)\<rparr>
             else st5)"

definition handle_order_executed_price :: "OrderExecutedPriceMsg \<Rightarrow> Engine \<Rightarrow> Engine" where
  "handle_order_executed_price m st =
     (case order_index st (op_order_ref m) of
        None \<Rightarrow> st\<lparr>skipped_unknown_ref := skipped_unknown_ref st + 1\<rparr>
      | Some rec \<Rightarrow>
          let (book, st1) = get_or_create_book (rec_stock_locate rec) st;
              before = rec_shares rec;
              (after, clamped) = clamped_sub before (op_executed_shares m);
              st2 = (if clamped then st1\<lparr>corrupt_messages := corrupt_messages st1 + 1\<rparr> else st1);
              st3 = st2\<lparr>order_index := (order_index st2)(op_order_ref m \<mapsto> rec\<lparr>rec_shares := after\<rparr>)\<rparr>;
              full_removal = (after = 0);
              book1 = remove_shares book (rec_side rec) (rec_price rec) (before - after) full_removal;
              st4 = put_book (rec_stock_locate rec) book1 st3;
              st5 = stamp_book (rec_stock_locate rec) (op_timestamp m) st4
          in if full_removal then st5\<lparr>order_index := (order_index st5)(op_order_ref m := None)\<rparr>
             else st5)"

definition handle_order_cancel :: "OrderCancelMsg \<Rightarrow> Engine \<Rightarrow> Engine" where
  "handle_order_cancel m st =
     (case order_index st (oc_order_ref m) of
        None \<Rightarrow> st\<lparr>skipped_unknown_ref := skipped_unknown_ref st + 1\<rparr>
      | Some rec \<Rightarrow>
          let (book, st1) = get_or_create_book (rec_stock_locate rec) st;
              before = rec_shares rec;
              (after, clamped) = clamped_sub before (oc_cancelled_shares m);
              st2 = (if clamped then st1\<lparr>corrupt_messages := corrupt_messages st1 + 1\<rparr> else st1);
              st3 = st2\<lparr>order_index := (order_index st2)(oc_order_ref m \<mapsto> rec\<lparr>rec_shares := after\<rparr>)\<rparr>;
              full_removal = (after = 0);
              book1 = remove_shares book (rec_side rec) (rec_price rec) (before - after) full_removal;
              st4 = put_book (rec_stock_locate rec) book1 st3;
              st5 = stamp_book (rec_stock_locate rec) (oc_timestamp m) st4
          in if full_removal then st5\<lparr>order_index := (order_index st5)(oc_order_ref m := None)\<rparr>
             else st5)"

definition handle_order_delete :: "OrderDeleteMsg \<Rightarrow> Engine \<Rightarrow> Engine" where
  "handle_order_delete m st =
     (case order_index st (od_order_ref m) of
        None \<Rightarrow> st\<lparr>skipped_unknown_ref := skipped_unknown_ref st + 1\<rparr>
      | Some rec \<Rightarrow>
          let (book, st1) = get_or_create_book (rec_stock_locate rec) st;
              book1 = remove_shares book (rec_side rec) (rec_price rec) (rec_shares rec) True;
              st2 = put_book (rec_stock_locate rec) book1 st1;
              st3 = stamp_book (rec_stock_locate rec) (od_timestamp m) st2
          in st3\<lparr>order_index := (order_index st3)(od_order_ref m := None)\<rparr>)"

definition handle_order_replace :: "OrderReplaceMsg \<Rightarrow> Engine \<Rightarrow> Engine" where
  "handle_order_replace m st =
     (case order_index st (or_original_order_ref m) of
        None \<Rightarrow> st\<lparr>skipped_unknown_ref := skipped_unknown_ref st + 1\<rparr>
      | Some old_rec \<Rightarrow>
          let st1 = st\<lparr>order_index := (order_index st)(or_original_order_ref m := None)\<rparr>;
              (book, st2) = get_or_create_book (rec_stock_locate old_rec) st1;
              book1 = remove_shares book (rec_side old_rec) (rec_price old_rec) (rec_shares old_rec) True;
              book2 = refresh_top (on_side (rec_side old_rec)
                        (\<lambda>S. side_insert S (or_price m) (or_shares m)) book1);
              st3 = put_book (rec_stock_locate old_rec) book2 st2;
              rec = empty_record\<lparr>rec_shares := or_shares m, rec_price := or_price m,
                      rec_stock_locate := rec_stock_locate old_rec, rec_side := rec_side old_rec,
                      rec_mpid := rec_mpid old_rec\<rparr>;
              st4 = st3\<lparr>order_index := (order_index st3)(or_new_order_ref m \<mapsto> rec)\<rparr>
          in stamp_book (rec_stock_locate old_rec) (or_timestamp m) st4)"

definition handle_stock_directory :: "StockDirectoryMsg \<Rightarrow> Engine \<Rightarrow> Engine" where
  "handle_stock_directory m st =
     (let info = empty_instrument\<lparr>in_stock_locate := sd_stock_locate m, in_symbol := sd_stock m,
            in_trading_state := CHR ''T'', in_round_lot_size := sd_round_lot_size m,
            in_market_category := sd_market_category m,
            in_financial_status := sd_financial_status m\<rparr>
      in st\<lparr>instruments := (instruments st)(sd_stock_locate m \<mapsto> info)\<rparr>)"

definition handle_stock_trading_action :: "StockTradingActionMsg \<Rightarrow> Engine \<Rightarrow> Engine" where
  "handle_stock_trading_action m st =
     (case instruments st (ta_stock_locate m) of
        None \<Rightarrow> st
      | Some info \<Rightarrow> st\<lparr>instruments := (instruments st)
          (ta_stock_locate m \<mapsto> info\<lparr>in_trading_state := ta_trading_state m\<rparr>)\<rparr>)"

text \<open>The visitor of \<^verbatim>\<open>apply\<close>: one overload per alternative of the variant.\<close>

fun handle :: "ParsedMessage \<Rightarrow> Engine \<Rightarrow> Engine" where
  "handle (StockDirectory m) = handle_stock_directory m"
| "handle (StockTradingAction m) = handle_stock_trading_action m"
| "handle (AddOrder m) = handle_add_order m"
| "handle (AddOrderMPID m) = handle_add_order_mpid m"
| "handle (OrderExecuted m) = handle_order_executed m"
| "handle (OrderExecutedPrice m) = handle_order_executed_price m"
| "handle (OrderCancel m) = handle_order_cancel m"
| "handle (OrderDelete m) = handle_order_delete m"
| "handle (OrderReplace m) = handle_order_replace m"

end
