(* ===== verification/Engine_Levels.thy ===== *)
theory Engine_Levels
  imports Book_Engine Ladder_Contract
begin

text \<open>
  What the engine's level maps must show: the aggregate, per book, side and price, of the live
  orders in the order index. This theory has the aggregate, its arithmetic under the three ways a
  handler changes the index (a new order, fewer shares, a removal), the matching changes of a
  price level, and the well-formedness of one book.
\<close>

section \<open>Aggregates of the order index\<close>

definition side_of :: "char \<Rightarrow> Side" where
  "side_of c = (if c = CHR ''B'' then Bid else Ask)"

type_synonym level_key = "u16 \<times> Side \<times> Price"

definition order_key :: "OrderRecord \<Rightarrow> level_key" where
  "order_key r = (rec_stock_locate r, side_of (rec_side r), rec_price r)"

definition orders_at :: "(u64 \<rightharpoonup> OrderRecord) \<Rightarrow> level_key \<Rightarrow> u64 set" where
  "orders_at oi k = {r. \<exists>rec. oi r = Some rec \<and> order_key rec = k}"

definition shares_at :: "(u64 \<rightharpoonup> OrderRecord) \<Rightarrow> level_key \<Rightarrow> nat" where
  "shares_at oi k = (\<Sum>r \<in> orders_at oi k. unat (rec_shares (the (oi r))))"

lemma orders_at_subset: "orders_at oi k \<subseteq> dom oi"
  by (auto simp: orders_at_def)

lemma finite_orders_at [simp]: "finite (dom oi) \<Longrightarrow> finite (orders_at oi k)"
  by (rule finite_subset [OF orders_at_subset])

lemma orders_at_insert:
  "orders_at (oi(r \<mapsto> rec)) k = (if order_key rec = k then insert r (orders_at oi k) else orders_at oi k - {r})"
  by (auto simp: orders_at_def)

lemma orders_at_remove: "orders_at (oi(r := None)) k = orders_at oi k - {r}"
  by (auto simp: orders_at_def)

lemma shares_at_cong:
  "(\<And>r. r \<in> A \<Longrightarrow> oi r = oi' r) \<Longrightarrow>
     (\<Sum>r \<in> A. unat (rec_shares (the (oi r)))) = (\<Sum>r \<in> A. unat (rec_shares (the (oi' r))))"
  by simp

lemma shares_at_fresh:
  assumes "finite (dom oi)" and "oi r = None" and "order_key rec = k"
  shows "shares_at (oi(r \<mapsto> rec)) k = shares_at oi k + unat (rec_shares rec)"
proof -
  have "r \<notin> orders_at oi k" using assms(2) by (simp add: orders_at_def)
  then have "(\<Sum>x \<in> orders_at oi k. unat (rec_shares (the ((oi(r \<mapsto> rec)) x)))) = shares_at oi k"
    unfolding shares_at_def by (intro shares_at_cong) auto
  with \<open>r \<notin> orders_at oi k\<close> assms show ?thesis
    by (simp add: shares_at_def orders_at_insert)
qed

lemma shares_at_split:
  assumes "finite (dom oi)" and "oi r = Some rec" and "order_key rec = k"
  shows "shares_at oi k = unat (rec_shares rec) + shares_at (oi(r := None)) k"
proof -
  have r: "r \<in> orders_at oi k" using assms by (simp add: orders_at_def)
  have "shares_at (oi(r := None)) k = (\<Sum>x \<in> orders_at oi k - {r}. unat (rec_shares (the (oi x))))"
    unfolding shares_at_def orders_at_remove by (intro shares_at_cong) auto
  with r assms show ?thesis
    by (simp add: shares_at_def sum.remove [of "orders_at oi k" r])
qed

lemma shares_at_other:
  assumes "\<And>rec. oi r = Some rec \<Longrightarrow> order_key rec \<noteq> k" and "\<And>rec. x = Some rec \<Longrightarrow> order_key rec \<noteq> k"
  shows "orders_at (oi(r := x)) k = orders_at oi k" and "shares_at (oi(r := x)) k = shares_at oi k"
proof -
  show o: "orders_at (oi(r := x)) k = orders_at oi k" using assms by (auto simp: orders_at_def)
  have "r \<notin> orders_at oi k" using assms(1) by (auto simp: orders_at_def)
  then show "shares_at (oi(r := x)) k = shares_at oi k"
    unfolding shares_at_def o by (intro shares_at_cong) auto
qed

lemma shares_at_bound: "finite (dom oi) \<Longrightarrow> shares_at oi k \<le> card (orders_at oi k) * (2 ^ 32 - 1)"
proof -
  assume "finite (dom oi)"
  have "unat (x :: u32) \<le> 2 ^ 32 - 1" for x
    using unsigned_less [of x, where ?'a = nat] by simp
  then show ?thesis
    unfolding shares_at_def by (intro order.trans [OF sum_bounded_above]) auto
qed

lemma shares_at_less: "finite (dom oi) \<Longrightarrow> card (dom oi) \<le> 2 ^ 32 \<Longrightarrow> shares_at oi k < 2 ^ 64"
proof -
  assume fin: "finite (dom oi)" and c: "card (dom oi) \<le> 2 ^ 32"
  have "card (orders_at oi k) \<le> 2 ^ 32"
    using c card_mono [OF fin orders_at_subset, of k] by linarith
  then have "card (orders_at oi k) * (2 ^ 32 - 1) \<le> 2 ^ 32 * (2 ^ 32 - 1 :: nat)"
    by (rule mult_le_mono1)
  with shares_at_bound [OF fin, of k] show ?thesis by simp
qed

section \<open>One price level\<close>

definition lvl_insert :: "Price \<Rightarrow> u32 \<Rightarrow> PriceLevel option \<Rightarrow> PriceLevel option" where
  "lvl_insert p shares lo =
     (let lvl = (case lo of Some l \<Rightarrow> l | None \<Rightarrow> empty_level)
      in Some (lvl\<lparr>pl_price := p, pl_total_shares := pl_total_shares lvl + ucast shares,
                   pl_order_count := pl_order_count lvl + 1\<rparr>))"

definition lvl_remove :: "u32 \<Rightarrow> bool \<Rightarrow> PriceLevel option \<Rightarrow> PriceLevel option" where
  "lvl_remove shares full lo =
     (case lo of
        None \<Rightarrow> None
      | Some lvl \<Rightarrow>
          let c = (if full then pl_order_count lvl - 1 else pl_order_count lvl)
          in if c = 0 then None
             else Some (lvl\<lparr>pl_total_shares := fst (clamped_sub (pl_total_shares lvl) (ucast shares)),
                            pl_order_count := c\<rparr>))"

definition agrees :: "(u64 \<rightharpoonup> OrderRecord) \<Rightarrow> level_key \<Rightarrow> PriceLevel option \<Rightarrow> bool" where
  "agrees oi k lo =
     (case lo of
        None \<Rightarrow> orders_at oi k = {}
      | Some lvl \<Rightarrow>
          orders_at oi k \<noteq> {} \<and> unat (pl_order_count lvl) = card (orders_at oi k) \<and>
          unat (pl_total_shares lvl) = shares_at oi k)"

lemma agrees_other:
  assumes "\<And>rec. oi r = Some rec \<Longrightarrow> order_key rec \<noteq> k" and "\<And>rec. x = Some rec \<Longrightarrow> order_key rec \<noteq> k"
  shows "agrees (oi(r := x)) k lo = agrees oi k lo"
proof -
  have "orders_at (oi(r := x)) k = orders_at oi k" "shares_at (oi(r := x)) k = shares_at oi k"
    using assms by (intro shares_at_other; blast)+
  then show ?thesis by (cases lo) (simp_all add: agrees_def)
qed

lemma unat_ucast_u32_u64 [simp]: "unat (ucast (x :: u32) :: u64) = unat x"
  by (simp add: unsigned_ucast_eq take_bit_nat_eq_self_iff less_trans [OF unsigned_less])

lemma agrees_insert:
  assumes "finite (dom oi)" and "oi r = None" and "card (dom oi) < 2 ^ 32 - 1"
    and "order_key rec = k" and "agrees oi k lo"
  shows "agrees (oi(r \<mapsto> rec)) k (lvl_insert p (rec_shares rec) lo)"
proof -
  let ?oi = "oi(r \<mapsto> rec)"
  have fin: "finite (dom ?oi)" using assms(1) by simp
  have d: "card (dom ?oi) < 2 ^ 32" using assms(1-3) by (simp add: domIff)
  have r: "r \<notin> orders_at oi k" using assms(2) by (simp add: orders_at_def)
  have card: "card (orders_at ?oi k) = card (orders_at oi k) + 1"
    using r assms(1,4) by (simp add: orders_at_insert)
  have "card (orders_at ?oi k) < 2 ^ 32"
    using d card_mono [OF fin orders_at_subset, of k] by linarith
  then have c: "card (orders_at oi k) + 1 < 2 ^ 32" by (simp only: card)
  have s: "shares_at oi k + unat (rec_shares rec) < 2 ^ 64"
    using shares_at_less [OF fin, of k] d shares_at_fresh [OF assms(1,2,4)] by simp
  show ?thesis
  proof (cases lo)
    case None
    then have "orders_at oi k = {}" using assms(5) by (simp add: agrees_def)
    then show ?thesis
      using None card shares_at_fresh [OF assms(1,2,4)] assms(4)
      by (simp add: agrees_def lvl_insert_def empty_level_def orders_at_insert shares_at_def)
  next
    case (Some lvl)
    then have l: "unat (pl_order_count lvl) = card (orders_at oi k)"
      "unat (pl_total_shares lvl) = shares_at oi k" using assms(5) by (simp_all add: agrees_def)
    then show ?thesis
      using Some c s card shares_at_fresh [OF assms(1,2,4)] assms(4)
      by (simp add: agrees_def lvl_insert_def orders_at_insert unat_word_ariths)
  qed
qed

lemma agrees_SomeD:
  assumes "agrees oi k lo" and "oi r = Some rec" and "order_key rec = k"
  obtains lvl where "lo = Some lvl" and "unat (pl_order_count lvl) = card (orders_at oi k)"
    and "unat (pl_total_shares lvl) = shares_at oi k" and "r \<in> orders_at oi k"
  using assms by (cases lo) (auto simp: agrees_def orders_at_def)

lemma clamped_sub_total:
  assumes "unat t = n + unat s"
  shows "unat (fst (clamped_sub t (ucast (s :: u32)) :: u64 \<times> bool)) = n"
proof -
  have le: "ucast s \<le> t" using assms by (simp add: word_le_nat_alt)
  then have "\<not> t < ucast s" by (simp only: not_less)
  then show ?thesis using assms le by (simp add: clamped_sub_def unat_sub)
qed

lemma agrees_remove:
  assumes "finite (dom oi)" and "oi r = Some rec" and "order_key rec = k" and "agrees oi k lo"
  shows "agrees (oi(r := None)) k (lvl_remove (rec_shares rec) True lo)"
proof -
  obtain lvl where lo: "lo = Some lvl" and c: "unat (pl_order_count lvl) = card (orders_at oi k)"
    and t: "unat (pl_total_shares lvl) = shares_at oi k" and r: "r \<in> orders_at oi k"
    using agrees_SomeD [OF assms(4,2,3)] by blast
  have "Suc (card (orders_at oi k - {r})) = card (orders_at oi k)"
    using assms(1) r by (intro card_Suc_Diff1) simp_all
  with c have c': "unat (pl_order_count lvl) = Suc (card (orders_at oi k - {r}))" by simp
  then have "1 \<le> pl_order_count lvl" by (simp add: word_le_nat_alt)
  then have c1: "unat (pl_order_count lvl - 1) = card (orders_at oi k - {r})"
    using c' by (simp add: unat_sub)
  have z: "pl_order_count lvl - 1 = 0 \<longleftrightarrow> orders_at oi k - {r} = {}"
    using c1 assms(1) by (metis card_0_eq finite_Diff finite_orders_at unat_eq_0)
  have tot: "unat (pl_total_shares lvl) = shares_at (oi(r := None)) k + unat (rec_shares rec)"
    using t shares_at_split [OF assms(1-3)] by simp
  show ?thesis
    using c1 z clamped_sub_total [OF tot]
    by (auto simp: lo agrees_def lvl_remove_def Let_def orders_at_remove)
qed

lemma agrees_reduce:
  assumes "finite (dom oi)" and "oi r = Some rec" and "order_key rec = k" and "agrees oi k lo"
    and "a \<le> rec_shares rec"
  shows "agrees (oi(r \<mapsto> rec\<lparr>rec_shares := a\<rparr>)) k (lvl_remove (rec_shares rec - a) False lo)"
proof -
  let ?oi = "oi(r \<mapsto> rec\<lparr>rec_shares := a\<rparr>)"
  obtain lvl where lo: "lo = Some lvl" and c: "unat (pl_order_count lvl) = card (orders_at oi k)"
    and t: "unat (pl_total_shares lvl) = shares_at oi k" and r: "r \<in> orders_at oi k"
    using agrees_SomeD [OF assms(4,2,3)] by blast
  have k': "order_key (rec\<lparr>rec_shares := a\<rparr>) = k" using assms(3) by (simp add: order_key_def)
  have o: "orders_at ?oi k = orders_at oi k" using k' r by (auto simp: orders_at_insert)
  have "shares_at ?oi k = unat a + shares_at (oi(r := None)) k"
    using shares_at_split [of ?oi r "rec\<lparr>rec_shares := a\<rparr>" k] k' assms(1) by simp
  moreover have "shares_at oi k = unat (rec_shares rec) + shares_at (oi(r := None)) k"
    by (rule shares_at_split [OF assms(1-3)])
  moreover have "unat (rec_shares rec) = unat a + unat (rec_shares rec - a)"
    using assms(5) by (simp add: unat_sub word_le_nat_alt)
  ultimately have tot: "unat (pl_total_shares lvl) = shares_at ?oi k + unat (rec_shares rec - a)"
    using t by simp
  have "card (orders_at oi k) \<noteq> 0" using r assms(1) by auto
  then have "pl_order_count lvl \<noteq> 0" using c by (metis unat_0)
  then show ?thesis
    using c r clamped_sub_total [OF tot]
    by (auto simp: lo agrees_def lvl_remove_def Let_def o)
qed

end
