(* ===== verification/Engine_Invariants.thy ===== *)
theory Engine_Invariants
  imports Engine_Levels
begin

text \<open>
  The two invariants of the engine. \<open>engine_wf\<close> is structural and every message keeps it:
  each book's sides are sorted best-first and keyed by price, the cached top of book points at
  the first node of its side, every book has an instrument and every live order a book.
  \<open>consistent\<close> adds that every price level is the aggregate of the live orders; messages keep it
  as long as an add or a replace does not reuse a live order reference and fewer than \<open>2 ^ 32\<close>
  orders are live.
\<close>

section \<open>Well-formed books\<close>

fun book_side :: "Side \<Rightarrow> OrderBook \<Rightarrow> level_map" where
  "book_side Bid b = ob_bids b"
| "book_side Ask b = ob_asks b"

definition book_wf :: "OrderBook \<Rightarrow> bool" where
  "book_wf b \<longleftrightarrow>
     ml_invar Bid (ob_bids b) \<and> ml_invar Ask (ob_asks b) \<and>
     ob_best_bid b = begin_key (ob_bids b) \<and> ob_best_ask b = begin_key (ob_asks b)"

lemma side_insert_invar: "ml_invar S m \<Longrightarrow> ml_invar S (side_insert S p s m)"
  by (simp add: side_insert_def Let_def ml_invar_insert)

lemma side_remove_invar: "ml_invar S m \<Longrightarrow> ml_invar S (side_remove S p s full m)"
  by (auto simp: side_remove_def Let_def ml_level_price intro!: ml_invar_insert ml_invar_erase
      split: option.split)

lemma side_insert_find:
  "ml_invar S m \<Longrightarrow> map_of (side_insert S p s m) = (map_of m)(p := lvl_insert p s (map_of m p))"
  by (simp add: side_insert_def Let_def level_at_def lvl_insert_def side_order.find_insert ml_invar_def)

lemma side_remove_find:
  "ml_invar S m \<Longrightarrow> map_of (side_remove S p s full m) = (map_of m)(p := lvl_remove s full (map_of m p))"
  by (auto simp: side_remove_def lvl_remove_def Let_def side_order.find_insert side_order.find_erase
      ml_invar_def split: option.split)

lemma book_wf_side: "book_wf b \<Longrightarrow> ml_invar S (book_side S b)"
  by (cases S) (simp_all add: book_wf_def)

lemma book_side_on_side [simp]:
  "book_side S (refresh_top (on_side c f b)) =
     (if S = side_of c then f S (book_side S b) else book_side S b)"
  by (cases S) (simp_all add: refresh_top_def on_side_def side_of_def)

lemma book_wf_on_side:
  assumes "book_wf b" and "\<And>S m. ml_invar S m \<Longrightarrow> ml_invar S (f S m)"
  shows "book_wf (refresh_top (on_side c f b))"
  using assms by (simp add: book_wf_def refresh_top_def on_side_def)

lemma on_side_locate [simp]: "ob_stock_locate (refresh_top (on_side c f b)) = ob_stock_locate b"
  by (simp add: refresh_top_def on_side_def)

lemma book_wf_empty: "book_wf (empty_book\<lparr>ob_stock_locate := l\<rparr>)"
  by (simp add: book_wf_def empty_book_def begin_key_def ml_invar_def)

lemma book_wf_stamp [simp]: "book_wf (b\<lparr>ob_last_update_timestamp := t\<rparr>) = book_wf b"
  by (simp add: book_wf_def)

lemma book_side_stamp [simp]: "book_side S (b\<lparr>ob_last_update_timestamp := t\<rparr>) = book_side S b"
  by (cases S) simp_all

lemma book_wf_insert: "book_wf b \<Longrightarrow> book_wf (refresh_top (on_side c (\<lambda>S. side_insert S p s) b))"
  by (intro book_wf_on_side side_insert_invar)

lemma book_wf_remove: "book_wf b \<Longrightarrow> book_wf (remove_shares b c p s full)"
  unfolding remove_shares_def by (intro book_wf_on_side side_remove_invar)

section \<open>Structural invariant\<close>

definition engine_wf :: "Engine \<Rightarrow> bool" where
  "engine_wf st \<longleftrightarrow>
     (\<forall>l b. books st l = Some b \<longrightarrow> book_wf b \<and> ob_stock_locate b = l) \<and>
     dom (books st) \<subseteq> dom (instruments st) \<and>
     (\<forall>l i. instruments st l = Some i \<longrightarrow> in_stock_locate i = l) \<and>
     (\<forall>r rec. order_index st r = Some rec \<longrightarrow>
        rec_stock_locate rec \<in> dom (books st) \<and> length (rec_mpid rec) = 4) \<and>
     finite (dom (order_index st))"

lemma engine_wf_init: "engine_wf init_engine"
  by (simp add: engine_wf_def init_engine_def)

lemma wf_bookD: "engine_wf st \<Longrightarrow> books st l = Some b \<Longrightarrow> book_wf b \<and> ob_stock_locate b = l"
  by (simp add: engine_wf_def)

lemma wf_orderD:
  assumes "engine_wf st" and "order_index st r = Some rec"
  obtains b where "books st (rec_stock_locate rec) = Some b" and "book_wf b"
    and "ob_stock_locate b = rec_stock_locate rec" and "length (rec_mpid rec) = 4"
proof -
  have "rec_stock_locate rec \<in> dom (books st)" "length (rec_mpid rec) = 4"
    using assms unfolding engine_wf_def by blast+
  then show thesis using that wf_bookD [OF assms(1)] by blast
qed

text \<open>The handlers in closed form, once the book of the order is known to exist.\<close>

text \<open>
  The common reading of the execute, execute-with-price and cancel handlers: take \<open>q\<close> shares off
  the order, or what it has, drop it when nothing is left, and count an excess as corruption.
\<close>

definition reduce_order :: "u64 \<Rightarrow> u32 \<Rightarrow> u64 \<Rightarrow> Engine \<Rightarrow> Engine" where
  "reduce_order ref q t = handle_order_executed
     \<lparr>oe_stock_locate = 0, oe_tracking_number = 0, oe_timestamp = t, oe_order_ref = ref, oe_executed_shares = q,
      oe_match_number = 0\<rparr>"

lemma executed_reduce:
  "handle_order_executed m = reduce_order (oe_order_ref m) (oe_executed_shares m) (oe_timestamp m)"
  by (rule ext)
    (simp only: reduce_order_def handle_order_executed_def OrderExecutedMsg.select_convs)

lemma executed_price_reduce:
  "handle_order_executed_price m = reduce_order (op_order_ref m) (op_executed_shares m) (op_timestamp m)"
  by (rule ext)
    (simp only: reduce_order_def handle_order_executed_def handle_order_executed_price_def OrderExecutedMsg.select_convs)

lemma cancel_reduce:
  "handle_order_cancel m = reduce_order (oc_order_ref m) (oc_cancelled_shares m) (oc_timestamp m)"
  by (rule ext)
    (simp only: reduce_order_def handle_order_executed_def handle_order_cancel_def OrderExecutedMsg.select_convs)

lemma reduce_order_None:
  "order_index st ref = None \<Longrightarrow>
     reduce_order ref q t st = st\<lparr>skipped_unknown_ref := skipped_unknown_ref st + 1\<rparr>"
  by (simp add: reduce_order_def handle_order_executed_def)

lemma reduce_order_Some:
  assumes "order_index st ref = Some rec" and "books st (rec_stock_locate rec) = Some b"
    and "after = fst (clamped_sub (rec_shares rec) q)"
  shows "reduce_order ref q t st = st
    \<lparr>order_index := (order_index st)(ref := if after = 0 then None else Some (rec\<lparr>rec_shares := after\<rparr>)),
     books := (books st)(rec_stock_locate rec \<mapsto>
       (remove_shares b (rec_side rec) (rec_price rec) (rec_shares rec - after) (after = 0))
         \<lparr>ob_last_update_timestamp := t\<rparr>),
     corrupt_messages := corrupt_messages st + (if q > rec_shares rec then 1 else 0)\<rparr>"
  using assms
  by (auto simp: reduce_order_def handle_order_executed_def get_or_create_book_def clamped_sub_def Let_def put_book_def
      stamp_book_def split: if_splits)

lemma delete_None:
  "order_index st (od_order_ref m) = None \<Longrightarrow>
     handle_order_delete m st = st\<lparr>skipped_unknown_ref := skipped_unknown_ref st + 1\<rparr>"
  by (simp add: handle_order_delete_def)

lemma delete_Some:
  assumes "order_index st (od_order_ref m) = Some rec" and "books st (rec_stock_locate rec) = Some b"
  shows "handle_order_delete m st = st
    \<lparr>order_index := (order_index st)(od_order_ref m := None),
     books := (books st)(rec_stock_locate rec \<mapsto>
       (remove_shares b (rec_side rec) (rec_price rec) (rec_shares rec) True)
         \<lparr>ob_last_update_timestamp := od_timestamp m\<rparr>)\<rparr>"
  using assms
  by (simp add: handle_order_delete_def get_or_create_book_def Let_def put_book_def stamp_book_def)

lemma replace_None:
  "order_index st (or_original_order_ref m) = None \<Longrightarrow>
     handle_order_replace m st = st\<lparr>skipped_unknown_ref := skipped_unknown_ref st + 1\<rparr>"
  by (simp add: handle_order_replace_def)

definition replacement :: "OrderReplaceMsg \<Rightarrow> OrderRecord \<Rightarrow> OrderRecord" where
  "replacement m old = old\<lparr>rec_shares := or_shares m, rec_price := or_price m\<rparr>"

lemma replace_Some:
  assumes "order_index st (or_original_order_ref m) = Some rec"
    and "books st (rec_stock_locate rec) = Some b"
  shows "handle_order_replace m st = st
    \<lparr>order_index := (order_index st)(or_original_order_ref m := None, or_new_order_ref m \<mapsto> replacement m rec),
     books := (books st)(rec_stock_locate rec \<mapsto>
       (refresh_top (on_side (rec_side rec) (\<lambda>S. side_insert S (or_price m) (or_shares m))
          (remove_shares b (rec_side rec) (rec_price rec) (rec_shares rec) True)))
         \<lparr>ob_last_update_timestamp := or_timestamp m\<rparr>)\<rparr>"
  using assms
  by (cases rec) (simp add: handle_order_replace_def get_or_create_book_def Let_def put_book_def stamp_book_def
      replacement_def empty_record_def)

definition new_record :: "u16 \<Rightarrow> char \<Rightarrow> u32 \<Rightarrow> Price \<Rightarrow> string \<Rightarrow> OrderRecord" where
  "new_record locate side shares price mpid =
     (let r = \<lparr>rec_shares = shares, rec_price = price, rec_stock_locate = locate, rec_side = side,
            rec_mpid = replicate 4 (CHR 0x00)\<rparr>
      in if mpid \<noteq> [] then set_mpid_from mpid r else r)"

definition ensure_instrument :: "u16 \<Rightarrow> Engine \<Rightarrow> u16 \<rightharpoonup> InstrumentInfo" where
  "ensure_instrument l st =
     (if books st l = None \<and> instruments st l = None
      then (instruments st)(l \<mapsto> placeholder l) else instruments st)"

definition ensure_book :: "u16 \<Rightarrow> Engine \<Rightarrow> OrderBook" where
  "ensure_book l st =
     (case books st l of Some b \<Rightarrow> b | None \<Rightarrow> empty_book\<lparr>ob_stock_locate := l\<rparr>)"

lemma add_order_closed:
  "add_order_impl l ref side shares price t mpid st = st
    \<lparr>order_index := (order_index st)(ref \<mapsto> new_record l side shares price mpid),
     books := (books st)(l \<mapsto>
       (refresh_top (on_side side (\<lambda>S. side_insert S price shares) (ensure_book l st)))
         \<lparr>ob_last_update_timestamp := t\<rparr>),
     instruments := ensure_instrument l st\<rparr>"
  by (cases "books st l")
    (auto simp: add_order_impl_def get_or_create_book_def Let_def put_book_def stamp_book_def
      ensure_instrument_def ensure_book_def new_record_def empty_record_def)


lemma new_record_simps [simp]:
  "rec_stock_locate (new_record l c s p a) = l" "rec_side (new_record l c s p a) = c"
  "rec_shares (new_record l c s p a) = s" "rec_price (new_record l c s p a) = p"
  "length (rec_mpid (new_record l c s p a)) = 4"
  by (simp_all add: new_record_def Let_def set_mpid_from_def)

lemma replacement_simps [simp]:
  "rec_stock_locate (replacement m r) = rec_stock_locate r" "rec_side (replacement m r) = rec_side r"
  "rec_shares (replacement m r) = or_shares m" "rec_price (replacement m r) = or_price m"
  "rec_mpid (replacement m r) = rec_mpid r"
  by (simp_all add: replacement_def)

lemma engine_wf_cong:
  "books st' = books st \<Longrightarrow> order_index st' = order_index st \<Longrightarrow> instruments st' = instruments st \<Longrightarrow>
     engine_wf st' = engine_wf st"
  by (simp add: engine_wf_def)

lemma engine_wf_update:
  assumes "engine_wf st" and "\<exists>b. books st' = (books st)(l \<mapsto> b) \<and> book_wf b \<and> ob_stock_locate b = l"
    and "dom (instruments st') = insert l (dom (instruments st))"
    and "\<And>x i. instruments st' x = Some i \<Longrightarrow> in_stock_locate i = x"
    and "\<And>r rec. order_index st' r = Some rec \<Longrightarrow>
           order_index st r = Some rec \<or> rec_stock_locate rec = l \<and> length (rec_mpid rec) = 4"
    and "finite (dom (order_index st'))"
  shows "engine_wf st'"
proof -
  obtain b where b: "books st' = (books st)(l \<mapsto> b)" "book_wf b" "ob_stock_locate b = l"
    using assms(2) by blast
  have "rec_stock_locate rec \<in> dom (books st') \<and> length (rec_mpid rec) = 4"
    if "order_index st' r = Some rec" for r rec
    using assms(5) [OF that] assms(1) b by (auto elim: wf_orderD)
  with assms(1,3,4,6) b show ?thesis unfolding engine_wf_def by auto
qed

lemma wf_instrument: "engine_wf st \<Longrightarrow> books st l = Some b \<Longrightarrow> insert l (dom (instruments st)) = dom (instruments st)"
  unfolding engine_wf_def by blast

lemma wf_inst_key: "engine_wf st \<Longrightarrow> instruments st l = Some i \<Longrightarrow> in_stock_locate i = l"
  unfolding engine_wf_def by blast

lemma wf_finite: "engine_wf st \<Longrightarrow> finite (dom (order_index st))"
  unfolding engine_wf_def by blast

lemma ensure_book_wf: "engine_wf st \<Longrightarrow> book_wf (ensure_book l st) \<and> ob_stock_locate (ensure_book l st) = l"
  by (cases "books st l") (simp_all add: ensure_book_def book_wf_empty wf_bookD)

lemma ensure_instrument_dom:
  "engine_wf st \<Longrightarrow> dom (ensure_instrument l st) = insert l (dom (instruments st))"
  by (cases "books st l") (auto simp: ensure_instrument_def dest: wf_instrument)

lemma ensure_instrument_key:
  "engine_wf st \<Longrightarrow> ensure_instrument l st x = Some i \<Longrightarrow> in_stock_locate i = x"
  by (auto simp: ensure_instrument_def placeholder_def dest: wf_inst_key split: if_splits)

lemma remove_shares_locate [simp]: "ob_stock_locate (remove_shares b c p s full) = ob_stock_locate b"
  by (simp add: remove_shares_def)

lemma wf_add_order: "engine_wf st \<Longrightarrow> engine_wf (add_order_impl l ref c s p t a st)"
  unfolding add_order_closed
  by (rule engine_wf_update [where l = l])
    (auto simp: book_wf_insert ensure_book_wf ensure_instrument_dom wf_finite
      dest: ensure_instrument_key split: if_splits)

lemma wf_reduce_order:
  assumes "engine_wf st"
  shows "engine_wf (reduce_order ref q t st)"
proof (cases "order_index st ref")
  case None
  then show ?thesis using assms by (simp add: reduce_order_None cong: engine_wf_cong)
next
  case (Some rec)
  with assms obtain b where b: "books st (rec_stock_locate rec) = Some b" "book_wf b"
    "ob_stock_locate b = rec_stock_locate rec" "length (rec_mpid rec) = 4" by (rule wf_orderD)
  show ?thesis
    unfolding reduce_order_Some [OF Some b(1) refl]
    by (rule engine_wf_update [where l = "rec_stock_locate rec", OF assms])
      (use assms b Some in \<open>auto simp: book_wf_remove wf_finite wf_instrument dest: wf_inst_key split: if_splits\<close>)
qed

lemma wf_delete:
  assumes "engine_wf st"
  shows "engine_wf (handle_order_delete m st)"
proof (cases "order_index st (od_order_ref m)")
  case None
  then show ?thesis using assms by (simp add: delete_None cong: engine_wf_cong)
next
  case (Some rec)
  with assms obtain b where b: "books st (rec_stock_locate rec) = Some b" "book_wf b"
    "ob_stock_locate b = rec_stock_locate rec" by (rule wf_orderD)
  show ?thesis
    unfolding delete_Some [OF Some b(1)]
    by (rule engine_wf_update [where l = "rec_stock_locate rec", OF assms])
      (use assms b Some in \<open>auto simp: book_wf_remove wf_finite wf_instrument dest: wf_inst_key split: if_splits\<close>)
qed

lemma wf_replace:
  assumes "engine_wf st"
  shows "engine_wf (handle_order_replace m st)"
proof (cases "order_index st (or_original_order_ref m)")
  case None
  then show ?thesis using assms by (simp add: replace_None cong: engine_wf_cong)
next
  case (Some rec)
  with assms obtain b where b: "books st (rec_stock_locate rec) = Some b" "book_wf b"
    "ob_stock_locate b = rec_stock_locate rec" "length (rec_mpid rec) = 4" by (rule wf_orderD)
  show ?thesis
    unfolding replace_Some [OF Some b(1)]
    by (rule engine_wf_update [where l = "rec_stock_locate rec", OF assms])
      (use assms b Some in \<open>auto simp: book_wf_insert book_wf_remove wf_finite wf_instrument
         dest: wf_inst_key split: if_splits\<close>)
qed

lemma wf_stock_directory: "engine_wf st \<Longrightarrow> engine_wf (handle_stock_directory m st)"
  by (auto simp: engine_wf_def handle_stock_directory_def Let_def)

lemma wf_trading_action: "engine_wf st \<Longrightarrow> engine_wf (handle_stock_trading_action m st)"
  by (auto simp: engine_wf_def handle_stock_trading_action_def split: option.split)

lemma wf_handle: "engine_wf st \<Longrightarrow> engine_wf (handle msg st)"
  by (cases msg)
    (simp_all add: executed_reduce executed_price_reduce cancel_reduce wf_reduce_order wf_delete
      wf_replace wf_stock_directory wf_trading_action wf_add_order handle_add_order_def
      handle_add_order_mpid_def)

end
