(* ===== verification/Engine_Consistency.thy ===== *)
theory Engine_Consistency
  imports Engine_Invariants
begin

text \<open>
  The central guarantee of the engine: every price level it shows is the aggregate of the live
  orders. \<open>level_of\<close> reads a level of a book, \<open>consistent\<close> relates all of them to the order index,
  and \<open>feed_ok\<close> is what a feed has to respect (an added or replacing order does not take the
  reference of another live order). The last section reads the cached top of book.
\<close>

section \<open>Reading a level of the engine\<close>

definition level_of :: "Engine \<Rightarrow> level_key \<Rightarrow> PriceLevel option" where
  "level_of st k =
     (case k of (l, S, p) \<Rightarrow> case books st l of None \<Rightarrow> None | Some b \<Rightarrow> map_of (book_side S b) p)"

definition consistent :: "Engine \<Rightarrow> bool" where
  "consistent st \<longleftrightarrow> engine_wf st \<and> (\<forall>k. agrees (order_index st) k (level_of st k))"

lemma level_of_cong: "books st' = books st \<Longrightarrow> level_of st' = level_of st"
  by (simp add: level_of_def fun_eq_iff)

lemma consistent_cong:
  "books st' = books st \<Longrightarrow> order_index st' = order_index st \<Longrightarrow> instruments st' = instruments st \<Longrightarrow>
     consistent st' = consistent st"
  by (simp add: consistent_def level_of_cong [of st' st] engine_wf_cong [of st' st])

lemma remove_shares_find:
  assumes "book_wf b"
  shows "map_of (book_side S (remove_shares b c p s full)) =
     (if S = side_of c then (map_of (book_side S b))(p := lvl_remove s full (map_of (book_side S b) p))
      else map_of (book_side S b))"
  using assms by (simp add: remove_shares_def side_remove_find book_wf_side)

lemma level_of_ensure:
  "level_of st (l, S, p) = map_of (book_side S (ensure_book l st)) p"
  by (cases "books st l"; cases S) (simp_all add: level_of_def ensure_book_def empty_book_def)

lemma level_of_remove:
  assumes "books st l = Some b" and "book_wf b"
    and "books st' = (books st)(l \<mapsto> (remove_shares b c p s full)\<lparr>ob_last_update_timestamp := t\<rparr>)"
  shows "level_of st' = (level_of st)((l, side_of c, p) := lvl_remove s full (level_of st (l, side_of c, p)))"
  using assms by (auto simp: level_of_def fun_eq_iff remove_shares_find)

lemma level_of_insert:
  assumes "book_wf b" and "ensure_book l st = b"
    and "books st' = (books st)(l \<mapsto> (refresh_top (on_side c (\<lambda>S. side_insert S p s) b))
           \<lparr>ob_last_update_timestamp := t\<rparr>)"
  shows "level_of st' = (level_of st)((l, side_of c, p) := lvl_insert p s (level_of st (l, side_of c, p)))"
proof -
  have "level_of st' (x, S, q) =
      ((level_of st)((l, side_of c, p) := lvl_insert p s (level_of st (l, side_of c, p)))) (x, S, q)" for x S q
  proof (cases "x = l")
    case True
    then show ?thesis
      using assms(1,2) level_of_ensure [of st l S] level_of_ensure [of st l "side_of c" p]
      by (auto simp: level_of_def [of st'] assms(3) side_insert_find book_wf_side)
  next
    case False
    then show ?thesis by (simp add: level_of_def assms(3))
  qed
  then show ?thesis by (auto simp: fun_eq_iff)
qed

section \<open>Steps keep the levels consistent\<close>

fun ref_ok :: "Engine \<Rightarrow> ParsedMessage \<Rightarrow> bool" where
  "ref_ok st (AddOrder m) = (order_index st (ao_order_ref m) = None)"
| "ref_ok st (AddOrderMPID m) = (order_index st (am_order_ref m) = None)"
| "ref_ok st (OrderReplace m) =
     (order_index st (or_original_order_ref m) = None \<or> or_new_order_ref m = or_original_order_ref m \<or>
      order_index st (or_new_order_ref m) = None)"
| "ref_ok st _ = True"

lemma agrees_all_remove:
  assumes "finite (dom oi)" and "oi r = Some rec" and "\<And>k. agrees oi k (lv k)"
  shows "agrees (oi(r := None)) k ((lv(order_key rec := lvl_remove (rec_shares rec) True (lv (order_key rec)))) k)"
  using agrees_remove [OF assms(1,2) refl assms(3)] assms agrees_other [of oi r k None]
  by (cases "k = order_key rec") auto

lemma agrees_all_insert:
  assumes "finite (dom oi)" and "oi r = None" and "\<And>k. agrees oi k (lv k)"
    and "card (dom oi) < 2 ^ 32 - 1"
  shows "agrees (oi(r \<mapsto> rec)) k ((lv(order_key rec := lvl_insert p (rec_shares rec) (lv (order_key rec)))) k)"
  using agrees_insert [OF assms(1,2,4) refl assms(3)] assms(2,3) agrees_other [of oi r k "Some rec"]
  by (cases "k = order_key rec") auto

lemma agrees_all_reduce:
  assumes "finite (dom oi)" and "oi r = Some rec" and "\<And>k. agrees oi k (lv k)" and "a \<le> rec_shares rec"
  shows "agrees (oi(r \<mapsto> rec\<lparr>rec_shares := a\<rparr>)) k
           ((lv(order_key rec := lvl_remove (rec_shares rec - a) False (lv (order_key rec)))) k)"
  using agrees_reduce [OF assms(1,2) refl assms(3,4)] assms(2,3)
    agrees_other [of oi r k "Some (rec\<lparr>rec_shares := a\<rparr>)"]
  by (cases "k = order_key rec") (auto simp: order_key_def)

lemma consistentD:
  assumes "consistent st"
  shows "engine_wf st" and "finite (dom (order_index st))" and "agrees (order_index st) k (level_of st k)"
  using assms unfolding consistent_def by (blast intro: wf_finite)+

lemma order_key_eq: "order_key rec = (rec_stock_locate rec, side_of (rec_side rec), rec_price rec)"
  by (simp add: order_key_def)

lemma clamped_fst: "fst (clamped_sub v s) = (if v < s then 0 else v - s)"
  by (simp add: clamped_sub_def)

lemma level_of_reduce:
  assumes "order_index st ref = Some rec" and "books st (rec_stock_locate rec) = Some b" and "book_wf b"
    and "after = fst (clamped_sub (rec_shares rec) q)"
  shows "level_of (reduce_order ref q t st) = (level_of st)
    (order_key rec := lvl_remove (rec_shares rec - after) (after = 0) (level_of st (order_key rec)))"
  unfolding order_key_eq
  by (rule level_of_remove [OF assms(2,3)]) (simp add: reduce_order_Some [OF assms(1,2,4)])

lemma consistent_reduce_order:
  assumes "consistent st"
  shows "consistent (reduce_order ref q t st)"
proof (cases "order_index st ref")
  case None
  then show ?thesis using assms by (simp add: reduce_order_None cong: consistent_cong)
next
  case (Some rec)
  note c = consistentD [OF assms]
  obtain b where b: "books st (rec_stock_locate rec) = Some b" "book_wf b"
    using c(1) Some by (rule wf_orderD)
  define after where "after = fst (clamped_sub (rec_shares rec) q)"
  have oi: "order_index (reduce_order ref q t st) = (order_index st)
      (ref := if after = 0 then None else Some (rec\<lparr>rec_shares := after\<rparr>))"
    by (simp add: reduce_order_Some [OF Some b(1) after_def])
  have le: "after \<le> rec_shares rec"
    by (auto simp: after_def clamped_fst not_less word_sub_le)
  have "agrees (order_index (reduce_order ref q t st)) k (level_of (reduce_order ref q t st) k)" for k
    unfolding oi level_of_reduce [OF Some b after_def]
    using agrees_all_remove [OF c(2) Some c(3), of k] agrees_all_reduce [OF c(2) Some c(3) le, of k]
    by (simp split del: if_split) (simp split: if_split_asm)
  then show ?thesis using wf_reduce_order [OF c(1)] by (simp add: consistent_def)
qed

lemma consistent_delete:
  assumes "consistent st"
  shows "consistent (handle_order_delete m st)"
proof (cases "order_index st (od_order_ref m)")
  case None
  then show ?thesis using assms by (simp add: delete_None cong: consistent_cong)
next
  case (Some rec)
  note c = consistentD [OF assms]
  obtain b where b: "books st (rec_stock_locate rec) = Some b" "book_wf b"
    using c(1) Some by (rule wf_orderD)
  have "level_of (handle_order_delete m st) = (level_of st)
      (order_key rec := lvl_remove (rec_shares rec) True (level_of st (order_key rec)))"
    unfolding order_key_eq by (rule level_of_remove [OF b]) (simp add: delete_Some [OF Some b(1)])
  moreover have "order_index (handle_order_delete m st) = (order_index st)(od_order_ref m := None)"
    by (simp add: delete_Some [OF Some b(1)])
  ultimately show ?thesis
    using agrees_all_remove [OF c(2) Some c(3)] wf_delete [OF c(1)] by (simp add: consistent_def)
qed

lemma consistent_add_order:
  assumes "consistent st" and "order_index st ref = None" and "card (dom (order_index st)) < 2 ^ 32 - 1"
  shows "consistent (add_order_impl l ref sd s p t a st)"
proof -
  note c = consistentD [OF assms(1)]
  let ?st = "add_order_impl l ref sd s p t a st" and ?rec = "new_record l sd s p a"
  have "level_of ?st = (level_of st)(order_key ?rec := lvl_insert p s (level_of st (order_key ?rec)))"
    unfolding order_key_eq new_record_simps
    by (rule level_of_insert [OF _ refl]) (simp_all add: ensure_book_wf c(1) add_order_closed)
  moreover have "order_index ?st = (order_index st)(ref \<mapsto> ?rec)" by (simp add: add_order_closed)
  ultimately show ?thesis
    using agrees_all_insert [OF c(2) assms(2) c(3) assms(3), of ?rec _ p] wf_add_order [OF c(1)]
    by (simp add: consistent_def)
qed


section \<open>A replace is a delete followed by an add\<close>

definition delete_part :: "OrderReplaceMsg \<Rightarrow> OrderDeleteMsg" where
  "delete_part m = \<lparr>od_stock_locate = or_stock_locate m, od_tracking_number = or_tracking_number m,
     od_timestamp = or_timestamp m, od_order_ref = or_original_order_ref m\<rparr>"

definition add_part :: "OrderReplaceMsg \<Rightarrow> OrderRecord \<Rightarrow> AddOrderMPIDMsg" where
  "add_part m rec = \<lparr>am_stock_locate = rec_stock_locate rec, am_tracking_number = or_tracking_number m,
     am_timestamp = or_timestamp m, am_order_ref = or_new_order_ref m, am_side = rec_side rec,
     am_shares = or_shares m, am_stock = [], am_price = or_price m, am_attribution = rec_mpid rec\<rparr>"

lemma new_record_replacement:
  "length (rec_mpid rec) = 4 \<Longrightarrow>
     new_record (rec_stock_locate rec) (rec_side rec) (or_shares m) (or_price m) (rec_mpid rec) = replacement m rec"
  by (cases rec) (auto simp: new_record_def replacement_def set_mpid_from_def Let_def)

lemma on_side_stamp:
  "(refresh_top (on_side c f (b\<lparr>ob_last_update_timestamp := t'\<rparr>)))\<lparr>ob_last_update_timestamp := t\<rparr> =
     (refresh_top (on_side c f b))\<lparr>ob_last_update_timestamp := t\<rparr>"
  by (cases b) (simp add: refresh_top_def on_side_def)

lemma replace_delete_add:
  assumes "engine_wf st" and "order_index st (or_original_order_ref m) = Some rec"
  shows "handle_order_replace m st = handle_add_order_mpid (add_part m rec) (handle_order_delete (delete_part m) st)"
proof -
  obtain b where b: "books st (rec_stock_locate rec) = Some b" "length (rec_mpid rec) = 4"
    using assms by (rule wf_orderD)
  have d: "order_index st (od_order_ref (delete_part m)) = Some rec" using assms(2) by (simp add: delete_part_def)
  show ?thesis
    unfolding replace_Some [OF assms(2) b(1)] delete_Some [OF d b(1)] handle_add_order_mpid_def add_order_closed
    by (simp add: add_part_def delete_part_def ensure_book_def ensure_instrument_def b
        new_record_replacement on_side_stamp)
qed

lemma consistent_replace:
  assumes "consistent st" and "ref_ok st (OrderReplace m)" and "card (dom (order_index st)) < 2 ^ 32 - 1"
  shows "consistent (handle_order_replace m st)"
proof (cases "order_index st (or_original_order_ref m)")
  case None
  then show ?thesis using assms by (simp add: replace_None cong: consistent_cong)
next
  case (Some rec)
  let ?del = "handle_order_delete (delete_part m) st"
  have wf: "engine_wf st" by (rule consistentD [OF assms(1)])
  obtain b where b: "books st (rec_stock_locate rec) = Some b" using wf Some by (rule wf_orderD)
  have oi: "order_index ?del = (order_index st)(or_original_order_ref m := None)"
    using Some by (simp add: delete_part_def delete_Some [OF _ b])
  have "card (dom (order_index ?del)) \<le> card (dom (order_index st))"
    unfolding oi using wf by (intro card_mono) (auto simp: wf_finite)
  with assms Some show ?thesis
    unfolding replace_delete_add [OF wf Some] handle_add_order_mpid_def
    by (intro consistent_add_order consistent_delete) (auto simp: oi add_part_def)
qed

lemma consistent_instruments:
  assumes "consistent st" and "books st' = books st" and "order_index st' = order_index st" and "engine_wf st'"
  shows "consistent st'"
  using assms by (simp add: consistent_def level_of_cong [OF assms(2)])

lemma consistent_handle:
  assumes "consistent st" and "ref_ok st msg" and "card (dom (order_index st)) < 2 ^ 32 - 1"
  shows "consistent (handle msg st)"
proof (cases msg)
  case (StockDirectory m)
  then show ?thesis
    using consistent_instruments [OF assms(1), of "handle msg st"] wf_handle [OF consistentD(1) [OF assms(1)], of msg]
    by (simp add: handle_stock_directory_def Let_def)
next
  case (StockTradingAction m)
  then show ?thesis
    using consistent_instruments [OF assms(1), of "handle msg st"] wf_handle [OF consistentD(1) [OF assms(1)], of msg]
    by (simp add: handle_stock_trading_action_def split: option.split)
qed (use assms in \<open>simp_all add: executed_reduce executed_price_reduce cancel_reduce consistent_reduce_order
       consistent_delete consistent_replace consistent_add_order handle_add_order_def handle_add_order_mpid_def\<close>)

section \<open>The order index alone\<close>

text \<open>What a message does to the order index does not depend on the books.\<close>

definition reduce_orders :: "u64 \<Rightarrow> u32 \<Rightarrow> (u64 \<rightharpoonup> OrderRecord) \<Rightarrow> (u64 \<rightharpoonup> OrderRecord)" where
  "reduce_orders ref q oi =
     (case oi ref of
        None \<Rightarrow> oi
      | Some rec \<Rightarrow> oi(ref := if rec_shares rec \<le> q then None else Some (rec\<lparr>rec_shares := rec_shares rec - q\<rparr>)))"

fun orders_step :: "ParsedMessage \<Rightarrow> (u64 \<rightharpoonup> OrderRecord) \<Rightarrow> (u64 \<rightharpoonup> OrderRecord)" where
  "orders_step (AddOrder m) oi =
     oi(ao_order_ref m \<mapsto> new_record (ao_stock_locate m) (ao_side m) (ao_shares m) (ao_price m) [])"
| "orders_step (AddOrderMPID m) oi =
     oi(am_order_ref m \<mapsto> new_record (am_stock_locate m) (am_side m) (am_shares m) (am_price m) (am_attribution m))"
| "orders_step (OrderExecuted m) oi = reduce_orders (oe_order_ref m) (oe_executed_shares m) oi"
| "orders_step (OrderExecutedPrice m) oi = reduce_orders (op_order_ref m) (op_executed_shares m) oi"
| "orders_step (OrderCancel m) oi = reduce_orders (oc_order_ref m) (oc_cancelled_shares m) oi"
| "orders_step (OrderDelete m) oi = oi(od_order_ref m := None)"
| "orders_step (OrderReplace m) oi =
     (case oi (or_original_order_ref m) of
        None \<Rightarrow> oi
      | Some rec \<Rightarrow> oi(or_original_order_ref m := None, or_new_order_ref m \<mapsto> replacement m rec))"
| "orders_step _ oi = oi"

lemma order_index_reduce:
  assumes "engine_wf st"
  shows "order_index (reduce_order ref q t st) = reduce_orders ref q (order_index st)"
proof (cases "order_index st ref")
  case (Some rec)
  obtain b where "books st (rec_stock_locate rec) = Some b" using assms Some by (rule wf_orderD)
  moreover have "fst (clamped_sub (rec_shares rec) q) = 0 \<longleftrightarrow> rec_shares rec \<le> q" by (auto simp: clamped_fst)
  ultimately show ?thesis
    using Some by (auto simp: reduce_order_Some [OF Some _ refl] reduce_orders_def clamped_fst)
qed (simp add: reduce_order_None reduce_orders_def)

lemma order_index_handle:
  assumes "engine_wf st"
  shows "order_index (handle msg st) = orders_step msg (order_index st)"
proof (cases msg)
  case (OrderDelete m)
  show ?thesis
  proof (cases "order_index st (od_order_ref m)")
    case (Some rec)
    obtain b where "books st (rec_stock_locate rec) = Some b" using assms Some by (rule wf_orderD)
    then show ?thesis by (simp add: OrderDelete delete_Some [OF Some])
  qed (simp add: OrderDelete delete_None fun_upd_idem)
next
  case (OrderReplace m)
  show ?thesis
  proof (cases "order_index st (or_original_order_ref m)")
    case (Some rec)
    obtain b where "books st (rec_stock_locate rec) = Some b" using assms Some by (rule wf_orderD)
    then show ?thesis by (simp add: OrderReplace Some replace_Some [OF Some])
  qed (simp add: OrderReplace replace_None)
qed (use assms in \<open>simp_all add: executed_reduce executed_price_reduce cancel_reduce order_index_reduce
       handle_stock_directory_def handle_stock_trading_action_def handle_add_order_def
       handle_add_order_mpid_def add_order_closed split: option.split\<close>)

section \<open>Whole feeds\<close>

fun feed_ok :: "Engine \<Rightarrow> ParsedMessage list \<Rightarrow> bool" where
  "feed_ok st [] = True"
| "feed_ok st (m # ms) = (ref_ok st m \<and> feed_ok (handle m st) ms)"

lemma feed_ok_take: "feed_ok st ms \<Longrightarrow> feed_ok st (take n ms)"
  by (induction ms arbitrary: st n) (simp_all add: take_Cons split: nat.split)

abbreviation run_feed :: "ParsedMessage list \<Rightarrow> Engine \<Rightarrow> Engine" where
  "run_feed ms st \<equiv> fold handle ms st"

lemma orders_step_dom: "dom (orders_step msg oi) \<subseteq> dom oi \<or> (\<exists>r. dom (orders_step msg oi) \<subseteq> insert r (dom oi))"
  by (cases msg) (auto simp: reduce_orders_def split: option.split)

lemma card_handle:
  assumes "engine_wf st"
  shows "card (dom (order_index (handle msg st))) \<le> Suc (card (dom (order_index st)))"
proof -
  obtain r where "dom (orders_step msg (order_index st)) \<subseteq> insert r (dom (order_index st))"
    using orders_step_dom [of msg "order_index st"] by blast
  then have "card (dom (orders_step msg (order_index st))) \<le> card (insert r (dom (order_index st)))"
    using assms by (intro card_mono) (simp_all add: wf_finite)
  then show ?thesis
    using card_insert_le_m1 [of "Suc (card (dom (order_index st)))"] assms
    by (simp add: order_index_handle card_insert_if wf_finite split: if_splits)
qed

lemma wf_run_feed: "engine_wf st \<Longrightarrow> engine_wf (run_feed ms st)"
  by (induction ms arbitrary: st) (simp_all add: wf_handle)

lemma card_run_feed:
  "engine_wf st \<Longrightarrow> card (dom (order_index (run_feed ms st))) \<le> card (dom (order_index st)) + length ms"
proof (induction ms arbitrary: st)
  case (Cons m ms)
  then show ?case using Cons.IH [OF wf_handle, of st m] card_handle [of st m] by simp
qed simp

lemma consistent_init: "consistent init_engine"
  using engine_wf_init by (auto simp: consistent_def level_of_def init_engine_def agrees_def orders_at_def)

lemma consistent_run_feed:
  "consistent st \<Longrightarrow> feed_ok st ms \<Longrightarrow> card (dom (order_index st)) + length ms < 2 ^ 32 \<Longrightarrow>
     consistent (run_feed ms st)"
proof (induction ms arbitrary: st)
  case (Cons m ms)
  have "card (dom (order_index (handle m st))) + length ms < 2 ^ 32"
    using card_handle [OF consistentD(1) [OF Cons.prems(1)], of m] Cons.prems(3) by simp
  then show ?case
    using Cons.prems by (simp add: Cons.IH consistent_handle)
qed simp

lemma consistent_feed:
  "feed_ok init_engine ms \<Longrightarrow> length ms < 2 ^ 32 \<Longrightarrow> consistent (run_feed ms init_engine)"
  by (rule consistent_run_feed) (simp_all add: consistent_init, simp add: init_engine_def)

end
