(* ===== verification/Engine_Properties.thy ===== *)
theory Engine_Properties
  imports Engine_Consistency
begin

text \<open>
  What the order-book engine promises, stated over the handlers of \<^verbatim>\<open>src/book_engine.cpp\<close>: the
  levels and the top of book after any feed, the refinement of an abstract market of live orders,
  and the effect of each kind of message.
\<close>

section \<open>Top of book\<close>

definition live_prices :: "Engine \<Rightarrow> u16 \<Rightarrow> Side \<Rightarrow> Price set" where
  "live_prices st l S = {p. orders_at (order_index st) (l, S, p) \<noteq> {}}"

lemma agrees_None: "agrees oi k lo \<Longrightarrow> orders_at oi k = {} \<longleftrightarrow> lo = None"
  by (cases lo) (simp_all add: agrees_def)

lemma live_prices_levels:
  assumes "consistent st" and "books st l = Some b"
  shows "live_prices st l S = set (keys (book_side S b))"
proof -
  have "agrees (order_index st) (l, S, p) (map_of (book_side S b) p)" for p
    using consistentD(3) [OF assms(1), of "(l, S, p)"] assms(2) by (simp add: level_of_def)
  then have "orders_at (order_index st) (l, S, p) = {} \<longleftrightarrow> map_of (book_side S b) p = None" for p
    by (rule agrees_None)
  then show ?thesis
    by (simp add: live_prices_def map_of_eq_None_iff)
qed

lemma begin_key_best:
  assumes "ml_invar S m"
  shows "begin_key m = (if set (keys m) = {} then None
           else Some ((case S of Bid \<Rightarrow> Max | Ask \<Rightarrow> Min) (set (keys m))))"
proof (cases m)
  case (Cons e m')
  then obtain k v where m: "m = (k, v) # m'" by (cases e) auto
  have "\<forall>x \<in> set (keys m'). map_compare S k x" using assms by (simp add: ml_invar_def m)
  then show ?thesis
    by (cases S) (auto simp: m begin_key_def map_compare_def less_imp_le intro!: Max_eqI [symmetric] Min_eqI [symmetric])
qed (simp add: begin_key_def)

section \<open>An abstract market\<close>

record market_order =
  mo_locate :: u16
  mo_side :: Side
  mo_price :: Price
  mo_shares :: nat
  mo_mpid :: string

type_synonym market = "u64 \<rightharpoonup> market_order"

definition padded_mpid :: "string \<Rightarrow> string" where
  "padded_mpid a = (if a = [] then replicate 4 (CHR 0x00) else take 4 (a @ replicate 4 CHR '' ''))"

definition market_reduce :: "u64 \<Rightarrow> nat \<Rightarrow> market \<Rightarrow> market" where
  "market_reduce ref q mk =
     (case mk ref of
        None \<Rightarrow> mk
      | Some x \<Rightarrow> mk(ref := if mo_shares x - q = 0 then None else Some (x\<lparr>mo_shares := mo_shares x - q\<rparr>)))"

fun market_step :: "ParsedMessage \<Rightarrow> market \<Rightarrow> market" where
  "market_step (AddOrder m) mk = mk(ao_order_ref m \<mapsto>
     \<lparr>mo_locate = ao_stock_locate m, mo_side = side_of (ao_side m), mo_price = ao_price m,
      mo_shares = unat (ao_shares m), mo_mpid = padded_mpid []\<rparr>)"
| "market_step (AddOrderMPID m) mk = mk(am_order_ref m \<mapsto>
     \<lparr>mo_locate = am_stock_locate m, mo_side = side_of (am_side m), mo_price = am_price m,
      mo_shares = unat (am_shares m), mo_mpid = padded_mpid (am_attribution m)\<rparr>)"
| "market_step (OrderExecuted m) mk = market_reduce (oe_order_ref m) (unat (oe_executed_shares m)) mk"
| "market_step (OrderExecutedPrice m) mk = market_reduce (op_order_ref m) (unat (op_executed_shares m)) mk"
| "market_step (OrderCancel m) mk = market_reduce (oc_order_ref m) (unat (oc_cancelled_shares m)) mk"
| "market_step (OrderDelete m) mk = mk(od_order_ref m := None)"
| "market_step (OrderReplace m) mk =
     (case mk (or_original_order_ref m) of
        None \<Rightarrow> mk
      | Some x \<Rightarrow> mk(or_original_order_ref m := None,
          or_new_order_ref m \<mapsto> x\<lparr>mo_price := or_price m, mo_shares := unat (or_shares m)\<rparr>))"
| "market_step _ mk = mk"

definition market_order_of :: "OrderRecord \<Rightarrow> market_order" where
  "market_order_of rec = \<lparr>mo_locate = rec_stock_locate rec, mo_side = side_of (rec_side rec),
     mo_price = rec_price rec, mo_shares = unat (rec_shares rec), mo_mpid = rec_mpid rec\<rparr>"

definition market_of :: "Engine \<Rightarrow> market" where
  "market_of st = map_option market_order_of \<circ> order_index st"

lemma market_order_new:
  "market_order_of (new_record l c s p a) = \<lparr>mo_locate = l, mo_side = side_of c, mo_price = p,
     mo_shares = unat s, mo_mpid = padded_mpid a\<rparr>"
  by (auto simp: market_order_of_def new_record_def Let_def set_mpid_from_def padded_mpid_def min_def)

lemma market_order_replacement:
  "market_order_of (replacement m rec) =
     (market_order_of rec)\<lparr>mo_price := or_price m, mo_shares := unat (or_shares m)\<rparr>"
  by (simp add: market_order_of_def replacement_def)

lemma market_reduce_orders:
  "map_option market_order_of \<circ> reduce_orders ref q oi = market_reduce ref (unat q) (map_option market_order_of \<circ> oi)"
proof (cases "oi ref")
  case (Some rec)
  have "rec_shares rec \<le> q \<longleftrightarrow> unat (rec_shares rec) - unat q = 0" by (simp add: word_le_nat_alt)
  moreover have "\<not> rec_shares rec \<le> q \<Longrightarrow> unat (rec_shares rec - q) = unat (rec_shares rec) - unat q"
    by (simp add: unat_sub)
  ultimately show ?thesis
    using Some by (auto simp: reduce_orders_def market_reduce_def market_order_of_def fun_eq_iff)
qed (simp add: reduce_orders_def market_reduce_def)

lemma market_orders_step:
  "map_option market_order_of \<circ> orders_step msg oi = market_step msg (map_option market_order_of \<circ> oi)"
  by (cases msg)
    (auto simp: market_order_new market_order_replacement market_reduce_orders fun_eq_iff
      split: option.split)


section \<open>Equality of books\<close>

lemma book_eqI:
  assumes "book_wf a" and "book_wf b" and "\<And>S. map_of (book_side S a) = map_of (book_side S b)"
    and "ob_stock_locate a = ob_stock_locate b"
    and "ob_last_update_timestamp a = ob_last_update_timestamp b"
  shows "a = b"
proof -
  have "book_side S a = book_side S b" for S
    using book_wf_side [OF assms(1), of S] book_wf_side [OF assms(2), of S] assms(3) [of S]
    by (intro side_order.sorted_map_unique) (auto simp: ml_invar_def)
  from this [of Bid] this [of Ask] have "ob_bids a = ob_bids b" "ob_asks a = ob_asks b" by simp_all
  with assms show ?thesis by (cases a; cases b) (simp add: book_wf_def)
qed

lemma book_from_levels:
  assumes "engine_wf st" and "engine_wf st'" and "books st l = Some b" and "books st' l = Some b'"
    and "level_of st' = level_of st"
  shows "b' = b\<lparr>ob_last_update_timestamp := ob_last_update_timestamp b'\<rparr>"
proof (rule book_eqI)
  show "map_of (book_side S b') = map_of (book_side S (b\<lparr>ob_last_update_timestamp := ob_last_update_timestamp b'\<rparr>))" for S
    using fun_cong [OF assms(5), of "(l, S, p)" for p] by (simp add: level_of_def assms(3,4) fun_eq_iff)
qed (use wf_bookD [OF assms(1,3)] wf_bookD [OF assms(2,4)] in simp_all)

lemma level_price:
  assumes "engine_wf st" and "level_of st (l, S, p) = Some lvl"
  shows "pl_price lvl = p"
proof -
  obtain b where b: "books st l = Some b" "map_of (book_side S b) p = Some lvl"
    using assms(2) by (auto simp: level_of_def split: option.splits)
  then show ?thesis
    using ml_level_price [OF book_wf_side] wf_bookD [OF assms(1) b(1)] by blast
qed

lemma lvl_remove_insert:
  assumes "\<And>lvl. lo = Some lvl \<Longrightarrow> pl_price lvl = p \<and> pl_order_count lvl \<noteq> 0 \<and>
             unat (pl_total_shares lvl) + unat s < 2 ^ 64"
  shows "lvl_remove s True (lvl_insert p s lo) = lo"
proof (cases lo)
  case (Some lvl)
  then have "unat (pl_total_shares lvl + ucast s) = unat (pl_total_shares lvl) + unat (ucast s :: u64)"
    using assms by (simp add: unat_word_ariths)
  then have "fst (clamped_sub (pl_total_shares lvl + ucast s) (ucast s)) = pl_total_shares lvl"
    by (simp add: clamped_fst word_less_nat_alt)
  then show ?thesis using Some assms by (cases lvl) (simp add: lvl_remove_def lvl_insert_def Let_def)
qed (simp add: lvl_remove_def lvl_insert_def empty_level_def Let_def)

lemma lvl_remove_split:
  assumes "\<And>lvl. lo = Some lvl \<Longrightarrow> pl_order_count lvl \<noteq> 0 \<and> unat a + unat b \<le> unat (pl_total_shares lvl)"
    and "unat a + unat b < 2 ^ 32"
  shows "lvl_remove b full (lvl_remove a False lo) = lvl_remove (a + b) full lo"
proof (cases lo)
  case (Some lvl)
  let ?t = "pl_total_shares lvl"
  have ab: "unat (ucast (a + b) :: u64) = unat a + unat b" using assms(2) by (simp add: unat_word_ariths)
  have le: "unat a + unat b \<le> unat ?t" using assms(1) Some by simp
  have "unat (?t - ucast a - ucast b) = unat (?t - ucast (a + b))"
    using le ab by (simp add: unat_sub word_le_nat_alt)
  then have "?t - ucast a - ucast b = ?t - ucast (a + b)" by (simp only: word_unat_eq_iff)
  moreover have "\<not> ?t < ucast a" "\<not> ?t - ucast a < ucast b" "\<not> ?t < ucast (a + b)"
    using le ab by (simp_all add: word_less_nat_alt unat_sub word_le_nat_alt)
  ultimately show ?thesis
    using Some assms(1) by (simp add: lvl_remove_def Let_def clamped_fst)
qed (simp add: lvl_remove_def)

section \<open>A sample feed\<close>

text \<open>Two bids at 100.00, an ask at 100.01 and a partial execution, on the instrument with locate 7.\<close>

definition sample_add :: "u64 \<Rightarrow> char \<Rightarrow> u32 \<Rightarrow> u32 \<Rightarrow> AddOrderMsg" where
  "sample_add ref side shares price = \<lparr>ao_stock_locate = 7, ao_tracking_number = 0, ao_timestamp = 1000,
     ao_order_ref = ref, ao_side = side, ao_shares = shares, ao_stock = ''AAPL'', ao_price = Price price\<rparr>"

definition sample_exec :: "u64 \<Rightarrow> u32 \<Rightarrow> OrderExecutedMsg" where
  "sample_exec ref shares = \<lparr>oe_stock_locate = 7, oe_tracking_number = 0, oe_timestamp = 2000,
     oe_order_ref = ref, oe_executed_shares = shares, oe_match_number = 1\<rparr>"

definition sample_feed :: "ParsedMessage list" where
  "sample_feed =
     [AddOrder (sample_add 1 CHR ''B'' 100 1000000), AddOrder (sample_add 2 CHR ''B'' 50 1000000),
      AddOrder (sample_add 3 CHR ''S'' 70 1000100), OrderExecuted (sample_exec 1 30)]"

abbreviation sample_engine :: Engine where
  "sample_engine \<equiv> run_feed sample_feed init_engine"

definition sample_record :: OrderRecord where
  "sample_record = \<lparr>rec_shares = 70, rec_price = Price 1000000, rec_stock_locate = 7, rec_side = CHR ''B'',
     rec_mpid = replicate 4 (CHR 0x00)\<rparr>"

lemma sample_ok: "feed_ok init_engine sample_feed"
  by code_simp

lemma sample_length: "length sample_feed < 2 ^ 32"
  by (simp add: sample_feed_def)

lemma sample_level:
  "level_of sample_engine (7, Bid, Price 1000000) =
     Some \<lparr>pl_price = Price 1000000, pl_total_shares = 120, pl_order_count = 2\<rparr>"
  by code_simp

lemma sample_order: "order_index sample_engine 1 = Some sample_record"
  by code_simp

lemmas sample_consistent = consistent_feed [OF sample_ok sample_length]
lemmas sample_wf = consistentD(1) [OF sample_consistent]

lemma sample_few: "card (dom (order_index sample_engine)) < 2 ^ 32 - 1"
  using card_run_feed [OF engine_wf_init, of sample_feed] by (simp add: sample_feed_def init_engine_def)

section \<open>Properties of whole feeds\<close>

text \<open>
  (C18) After any sequence of messages the engine is well formed: both sides of every book are
  sorted best price first and keyed by the price stored in the level, the cached top of book is
  the first level of its side, every book has an instrument under its own locate, every live
  order has a book and a four-character participant id.
\<close>

theorem feed_keeps_engine_wf: "engine_wf (run_feed ms init_engine)"
  by (rule wf_run_feed [OF engine_wf_init])

text \<open>
  (C1) After any feed of fewer than \<open>2 ^ 32\<close> messages in which no add or replace takes the
  reference of another live order, the level shown for a locate, side and price exists exactly
  when a live order rests there, and its order count and share total are, without any
  wrap-around, the number of those orders and the sum of their shares.
\<close>

theorem levels_are_aggregates:
  assumes "feed_ok init_engine ms" and "length ms < 2 ^ 32" and "st = run_feed ms init_engine"
    and "live = {r. \<exists>rec. order_index st r = Some rec \<and> rec_stock_locate rec = l \<and>
                   side_of (rec_side rec) = S \<and> rec_price rec = p}"
  shows "case level_of st (l, S, p) of
     None \<Rightarrow> live = {}
   | Some lvl \<Rightarrow> live \<noteq> {} \<and> unat (pl_order_count lvl) = card live \<and>
       unat (pl_total_shares lvl) = (\<Sum>r \<in> live. unat (rec_shares (the (order_index st r))))"
proof -
  have "live = orders_at (order_index st) (l, S, p)"
    by (simp add: assms(4) orders_at_def order_key_def)
  moreover have "agrees (order_index st) (l, S, p) (level_of st (l, S, p))"
    using consistent_feed [OF assms(1,2)] unfolding assms(3) by (rule consistentD)
  ultimately show ?thesis
    by (cases "level_of st (l, S, p)") (simp_all add: agrees_def shares_at_def)
qed

text \<open>
  (C2) After such a feed the cached best bid of a book is null exactly when no bid is live there
  and otherwise points at the highest live bid price; the cached best ask likewise at the lowest
  live ask price.
\<close>

theorem top_of_book_is_best:
  assumes "feed_ok init_engine ms" and "length ms < 2 ^ 32" and "st = run_feed ms init_engine"
    and "books st l = Some b"
  shows "ob_best_bid b = (if live_prices st l Bid = {} then None else Some (Max (live_prices st l Bid))) \<and>
         ob_best_ask b = (if live_prices st l Ask = {} then None else Some (Min (live_prices st l Ask)))"
proof -
  have c: "consistent st" using consistent_feed [OF assms(1,2)] by (simp add: assms(3))
  then have "book_wf b" using wf_bookD [OF consistentD(1) assms(4)] by blast
  then show ?thesis
    using begin_key_best [of Bid "ob_bids b"] begin_key_best [of Ask "ob_asks b"]
      live_prices_levels [OF c assms(4), of Bid] live_prices_levels [OF c assms(4), of Ask]
    by (simp add: book_wf_def)
qed

text \<open>
  (C3) The engine refines an abstract market: a map from references to live orders with
  unbounded share counts, on which an execution or cancellation subtracts down to zero and drops
  an exhausted order, a delete drops it, a replace moves it to a new reference, price and size
  keeping side, instrument and participant id, and a reference that is not live changes nothing.
\<close>

theorem engine_refines_market:
  "market_of (run_feed ms init_engine) = fold market_step ms Map.empty"
proof -
  have "market_of (run_feed ms st) = fold market_step ms (market_of st)" if "engine_wf st" for st
    using that
    by (induction ms arbitrary: st)
      (simp_all add: wf_handle market_of_def order_index_handle market_orders_step)
  from this [OF engine_wf_init] show ?thesis by (simp add: market_of_def init_engine_def o_def)
qed


section \<open>Properties of single messages\<close>

lemma consistent_level_bounds:
  assumes "consistent st" and "level_of st k = Some lvl"
  shows "pl_order_count lvl \<noteq> 0" and "unat (pl_total_shares lvl) = shares_at (order_index st) k"
proof -
  have a: "agrees (order_index st) k (Some lvl)"
    using consistentD(3) [OF assms(1), of k] by (simp add: assms(2))
  then have "card (orders_at (order_index st) k) \<noteq> 0"
    using consistentD(2) [OF assms(1)] by (simp add: agrees_def)
  then show "pl_order_count lvl \<noteq> 0" using a by (auto simp: agrees_def)
  show "unat (pl_total_shares lvl) = shares_at (order_index st) k" using a by (simp add: agrees_def)
qed

lemma level_of_add:
  "engine_wf st \<Longrightarrow> level_of (add_order_impl l ref c s p t a st) =
     (level_of st)((l, side_of c, p) := lvl_insert p s (level_of st (l, side_of c, p)))"
  by (rule level_of_insert [OF _ refl]) (simp_all add: ensure_book_wf add_order_closed)

lemma level_of_delete:
  assumes "engine_wf st" and "order_index st (od_order_ref m) = Some rec"
  shows "level_of (handle_order_delete m st) =
     (level_of st)(order_key rec := lvl_remove (rec_shares rec) True (level_of st (order_key rec)))"
proof -
  obtain b where b: "books st (rec_stock_locate rec) = Some b" "book_wf b" using assms by (rule wf_orderD)
  show ?thesis
    unfolding order_key_eq by (rule level_of_remove [OF b]) (simp add: delete_Some [OF assms(2) b(1)])
qed

text \<open>
  (C20) Executing, executing with a price and cancelling: with \<open>taken\<close> the smaller of the order's
  shares and the message's, the order loses exactly \<open>taken\<close> shares and disappears when none is
  left, its level loses \<open>taken\<close> shares (and one order when it disappeared, and is erased with its
  last order), every other order and level is as before, and a message for more shares than the
  order has is counted as corrupt, never wrapped.
\<close>

theorem reduce_effect:
  assumes "engine_wf st" and "order_index st ref = Some rec"
    and "msg = OrderExecuted oe \<and> ref = oe_order_ref oe \<and> q = oe_executed_shares oe \<or>
         msg = OrderExecutedPrice op \<and> ref = op_order_ref op \<and> q = op_executed_shares op \<or>
         msg = OrderCancel oc \<and> ref = oc_order_ref oc \<and> q = oc_cancelled_shares oc"
    and "taken = min (rec_shares rec) q" and "gone \<longleftrightarrow> taken = rec_shares rec"
  shows "order_index (handle msg st) = (order_index st)
           (ref := if gone then None else Some (rec\<lparr>rec_shares := rec_shares rec - taken\<rparr>)) \<and>
         level_of (handle msg st) = (level_of st)
           (order_key rec := lvl_remove taken gone (level_of st (order_key rec))) \<and>
         corrupt_messages (handle msg st) = corrupt_messages st + (if q > rec_shares rec then 1 else 0) \<and>
         skipped_unknown_ref (handle msg st) = skipped_unknown_ref st"
proof -
  obtain t where h: "handle msg st = reduce_order ref q t st"
    using assms(3) by (auto simp: executed_reduce executed_price_reduce cancel_reduce)
  obtain b where b: "books st (rec_stock_locate rec) = Some b" "book_wf b" using assms(1,2) by (rule wf_orderD)
  have after: "rec_shares rec - taken = fst (clamped_sub (rec_shares rec) q)"
    by (auto simp: assms(4) clamped_fst min_def)
  have gone: "gone \<longleftrightarrow> rec_shares rec - taken = 0" by (auto simp: assms(5))
  have "level_of (handle msg st) = (level_of st)
           (order_key rec := lvl_remove taken gone (level_of st (order_key rec)))"
    using level_of_reduce [OF assms(2) b after] by (simp add: h gone)
  then show ?thesis
    unfolding h reduce_order_Some [OF assms(2) b(1) after] by (simp add: gone)
qed

text \<open>
  The execution price does not reach the book, and a cancellation is booked like an
  execution: the three handlers are the same function of the order reference, the share count and
  the timestamp.
\<close>

lemma execute_price_cancel_agree:
  assumes "op_order_ref op = oe_order_ref oe" and "op_executed_shares op = oe_executed_shares oe"
    and "op_timestamp op = oe_timestamp oe"
    and "oc_order_ref oc = oe_order_ref oe" and "oc_cancelled_shares oc = oe_executed_shares oe"
    and "oc_timestamp oc = oe_timestamp oe"
  shows "handle (OrderExecutedPrice op) st = handle (OrderExecuted oe) st \<and>
         handle (OrderCancel oc) st = handle (OrderExecuted oe) st"
  using assms by (simp add: executed_reduce executed_price_reduce cancel_reduce)

text \<open>
  A message for an order that is not live changes nothing but the counter of skipped
  messages.
\<close>

lemma unknown_ref_only_counted:
  assumes "order_index st ref = None"
    and "msg \<in> {OrderExecuted oe, OrderExecutedPrice op, OrderCancel oc, OrderDelete od, OrderReplace rp}"
    and "oe_order_ref oe = ref" and "op_order_ref op = ref" and "oc_order_ref oc = ref"
    and "od_order_ref od = ref" and "or_original_order_ref rp = ref"
  shows "handle msg st = st\<lparr>skipped_unknown_ref := skipped_unknown_ref st + 1\<rparr>"
  using assms
  by (auto simp: executed_reduce executed_price_reduce cancel_reduce reduce_order_None delete_None replace_None)

text \<open>
  (C21) A replace of a live order is a delete of the original followed by an add of an order with
  the new reference, price and size and the original's instrument, side and participant id.
\<close>

theorem replace_is_delete_then_add:
  assumes "engine_wf st" and "order_index st (or_original_order_ref m) = Some rec"
  shows "handle (OrderReplace m) st =
         handle (AddOrderMPID (add_part m rec)) (handle (OrderDelete (delete_part m)) st)"
  using replace_delete_add [OF assms] by simp

lemma level_of_add_delete:
  assumes "consistent st" and "order_index st ref = None" and "card (dom (order_index st)) < 2 ^ 32 - 1"
    and "st1 = add_order_impl l ref c s p t a st" and "od_order_ref d = ref"
  shows "level_of (handle_order_delete d st1) = level_of st"
proof -
  let ?k = "(l, side_of c, p)" and ?rec = "new_record l c s p a"
  have wf: "engine_wf st" by (rule consistentD [OF assms(1)])
  have wf1: "engine_wf st1" unfolding assms(4) by (rule wf_add_order [OF wf])
  have oi1: "order_index st1 = (order_index st)(ref \<mapsto> ?rec)" by (simp add: assms(4) add_order_closed)
  have "lvl_remove s True (lvl_insert p s (level_of st ?k)) = level_of st ?k"
  proof (rule lvl_remove_insert)
    fix lvl assume lvl: "level_of st ?k = Some lvl"
    have "card (dom (order_index st1)) \<le> 2 ^ 32"
      using assms(2,3) wf_finite [OF wf] by (simp add: oi1 card_insert_if)
    from shares_at_less [OF wf_finite [OF wf1] this, of ?k]
    have "shares_at (order_index st) ?k + unat s < 2 ^ 64"
      using shares_at_fresh [OF wf_finite [OF wf] assms(2), of ?rec ?k] by (simp add: oi1 order_key_eq)
    then show "pl_price lvl = p \<and> pl_order_count lvl \<noteq> 0 \<and> unat (pl_total_shares lvl) + unat s < 2 ^ 64"
      using consistent_level_bounds [OF assms(1) lvl] level_price [OF wf lvl] by simp
  qed
  moreover have "order_index st1 (od_order_ref d) = Some ?rec" by (simp add: oi1 assms(5))
  ultimately show ?thesis
    using level_of_delete [OF wf1] by (simp add: assms(4) level_of_add [OF wf] fun_upd_idem order_key_eq)
qed

text \<open>
  (C22) Adding an order with a fresh reference to an existing book and deleting it again restores
  the order index, the instruments and every book, except that the book carries the timestamp of
  the delete.
\<close>

theorem add_delete_roundtrip:
  assumes "consistent st" and "order_index st (ao_order_ref a) = None"
    and "card (dom (order_index st)) < 2 ^ 32 - 1"
    and "books st (ao_stock_locate a) = Some b" and "od_order_ref d = ao_order_ref a"
    and "st' = handle (OrderDelete d) (handle (AddOrder a) st)"
  shows "order_index st' = order_index st \<and> instruments st' = instruments st \<and>
         books st' = (books st)(ao_stock_locate a \<mapsto> b\<lparr>ob_last_update_timestamp := od_timestamp d\<rparr>)"
proof -
  let ?l = "ao_stock_locate a" and ?st1 = "handle (AddOrder a) st"
  let ?rec = "new_record ?l (ao_side a) (ao_shares a) (ao_price a) []"
  have wf: "engine_wf st" by (rule consistentD [OF assms(1)])
  have wf1: "engine_wf ?st1" and wf': "engine_wf st'" by (simp_all only: assms(6) wf_handle wf)
  have oi1: "order_index ?st1 = (order_index st)(ao_order_ref a \<mapsto> ?rec)"
    using order_index_handle [OF wf, of "AddOrder a"] by simp
  then have r: "order_index ?st1 (od_order_ref d) = Some ?rec" by (simp add: assms(5))
  obtain b1 where b1: "books ?st1 ?l = Some b1" using wf_orderD [OF wf1 r] by (metis new_record_simps(1))
  have d: "st' = handle_order_delete d ?st1" by (simp add: assms(6))
  note closed = delete_Some [OF r, unfolded new_record_simps, OF b1, folded d]
  obtain b' where b': "books st' ?l = Some b'" "ob_last_update_timestamp b' = od_timestamp d"
    by (simp add: closed)
  have "level_of st' = level_of st"
    unfolding d by (rule level_of_add_delete [OF assms(1-3) _ assms(5)]) (simp add: handle_add_order_def)
  with b' have "b' = b\<lparr>ob_last_update_timestamp := od_timestamp d\<rparr>"
    using book_from_levels [OF wf wf' assms(4) b'(1)] by simp
  moreover have "books st' x = books st x" if "x \<noteq> ?l" for x
    using that by (simp add: closed) (simp add: handle_add_order_def add_order_closed)
  ultimately have "books st' = (books st)(?l \<mapsto> b\<lparr>ob_last_update_timestamp := od_timestamp d\<rparr>)"
    using b'(1) by (auto simp: fun_eq_iff)
  then show ?thesis
    using oi1 assms(2,4,5)
    by (simp add: closed fun_upd_idem)
      (simp add: handle_add_order_def add_order_closed ensure_instrument_def)
qed


lemma clamped_compose:
  assumes "q1 < sh" and "unat q1 + unat q2 < 2 ^ 32"
  shows "fst (clamped_sub (sh - q1) q2) = fst (clamped_sub sh (q1 + q2 :: u32))"
    and "q2 > sh - q1 \<longleftrightarrow> q1 + q2 > sh"
proof -
  have "unat (q1 + q2) = unat q1 + unat q2" using assms(2) by (simp add: unat_word_ariths)
  moreover have "unat (sh - q1) = unat sh - unat q1" "unat q1 < unat sh"
    using assms(1) by (simp_all add: unat_sub less_imp_le flip: word_less_nat_alt)
  ultimately show "q2 > sh - q1 \<longleftrightarrow> q1 + q2 > sh" by (auto simp: word_less_nat_alt)
  then show "fst (clamped_sub (sh - q1) q2) = fst (clamped_sub sh (q1 + q2))" by (simp add: clamped_fst)
qed

lemma level_of_reduce_compose:
  assumes "consistent st" and "order_index st ref = Some rec" and "q1 < rec_shares rec"
    and "unat q1 + unat q2 < 2 ^ 32"
  shows "level_of (reduce_order ref q2 t2 (reduce_order ref q1 t1 st)) = level_of (reduce_order ref (q1 + q2) t2 st)"
proof -
  let ?st1 = "reduce_order ref q1 t1 st" and ?sh = "rec_shares rec" and ?k = "order_key rec"
  define rec1 where "rec1 = rec\<lparr>rec_shares := ?sh - q1\<rparr>"
  define after where "after = fst (clamped_sub ?sh (q1 + q2))"
  have wf: "engine_wf st" by (rule consistentD [OF assms(1)])
  obtain b where b: "books st (rec_stock_locate rec) = Some b" "book_wf b" using wf assms(2) by (rule wf_orderD)
  have a1: "?sh - q1 = fst (clamped_sub ?sh q1)" using assms(3) by (auto simp: clamped_fst)
  have nz: "?sh - q1 \<noteq> 0" using assms(3) by auto
  have oi1: "order_index ?st1 ref = Some rec1" using nz by (simp add: reduce_order_Some [OF assms(2) b(1) a1] rec1_def)
  have wf1: "engine_wf ?st1" by (rule wf_reduce_order [OF wf])
  obtain b1 where b1: "books ?st1 (rec_stock_locate rec1) = Some b1" "book_wf b1" using wf1 oi1 by (rule wf_orderD)
  have a2: "after = fst (clamped_sub (rec_shares rec1) q2)"
    by (simp add: after_def rec1_def clamped_compose [OF assms(3,4)])
  have le: "after \<le> ?sh - q1"
    using a2 by (auto simp: rec1_def clamped_fst not_less word_sub_le)
  have q: "unat q1 + unat (?sh - q1 - after) = unat ?sh - unat after" "unat after \<le> unat ?sh"
    using le assms(3) by (simp_all add: unat_sub word_le_nat_alt word_less_nat_alt)
  have "lvl_remove (?sh - q1 - after) f (lvl_remove q1 False (level_of st ?k)) =
      lvl_remove (q1 + (?sh - q1 - after)) f (level_of st ?k)" for f
  proof (rule lvl_remove_split)
    fix lvl assume lvl: "level_of st ?k = Some lvl"
    have "unat ?sh \<le> shares_at (order_index st) ?k"
      using shares_at_split [OF wf_finite [OF wf] assms(2) refl] by simp
    then show "pl_order_count lvl \<noteq> 0 \<and> unat q1 + unat (?sh - q1 - after) \<le> unat (pl_total_shares lvl)"
      using consistent_level_bounds [OF assms(1) lvl] q by linarith
  qed (use q unsigned_less [of ?sh, where ?'a = nat] in simp)
  moreover have "q1 + (?sh - q1 - after) = ?sh - after" by simp
  moreover have "order_key rec1 = ?k" "rec_shares rec1 = ?sh - q1" by (simp_all add: rec1_def order_key_eq)
  ultimately show ?thesis
    using level_of_reduce [OF oi1 b1 a2, of t2] level_of_reduce [OF assms(2) b a1, of t1]
      level_of_reduce [OF assms(2) b after_def, of t2] nz
    by simp
qed

lemma reduce_compose:
  assumes "consistent st" and "order_index st ref = Some rec" and "q1 < rec_shares rec"
    and "unat q1 + unat q2 < 2 ^ 32"
  shows "reduce_order ref q2 t2 (reduce_order ref q1 t1 st) = reduce_order ref (q1 + q2) t2 st"
proof -
  let ?st1 = "reduce_order ref q1 t1 st" and ?sh = "rec_shares rec"
  let ?x = "reduce_order ref q2 t2 ?st1" and ?y = "reduce_order ref (q1 + q2) t2 st"
  let ?l = "rec_stock_locate rec"
  have wf: "engine_wf st" by (rule consistentD [OF assms(1)])
  obtain b where b: "books st ?l = Some b" using wf assms(2) by (rule wf_orderD)
  have nz: "fst (clamped_sub ?sh q1) = ?sh - q1" "?sh - q1 \<noteq> 0" "\<not> q1 > ?sh"
    using assms(3) by (auto simp: clamped_fst)
  note st1 = reduce_order_Some [OF assms(2) b refl, of q1 t1, unfolded nz(1)]
  define rec1 where "rec1 = rec\<lparr>rec_shares := ?sh - q1\<rparr>"
  have oi1: "order_index ?st1 ref = Some rec1" using nz by (simp add: st1 rec1_def)
  obtain b1 where b1: "books ?st1 (rec_stock_locate rec1) = Some b1"
    using wf_reduce_order [OF wf] oi1 by (rule wf_orderD)
  note x = reduce_order_Some [OF oi1 b1 refl, of q2 t2] and y = reduce_order_Some [OF assms(2) b refl, of "q1 + q2" t2]
  obtain bx by' where bx: "books ?x ?l = Some bx" "books ?y ?l = Some by'"
    "ob_last_update_timestamp bx = ob_last_update_timestamp by'"
    by (simp add: x y rec1_def)
  have "bx = by'"
    using book_from_levels [OF _ _ bx(2,1)] wf level_of_reduce_compose [OF assms] bx(3) by (simp add: wf_reduce_order)
  moreover have "books ?x z = books ?y z" if "z \<noteq> ?l" for z
    using that by (simp add: x y rec1_def) (simp add: st1)
  ultimately have "books ?x = books ?y" using bx by (metis ext)
  moreover have "order_index ?x = order_index ?y" "corrupt_messages ?x = corrupt_messages ?y"
    using nz by (simp_all add: x y, simp_all add: st1 rec1_def clamped_compose [OF assms(3,4)])
  moreover have "instruments ?x = instruments ?y" "messages_processed ?x = messages_processed ?y"
    "skipped_unknown_ref ?x = skipped_unknown_ref ?y" "snapshot_interval ?x = snapshot_interval ?y"
    "pipeline_complete ?x = pipeline_complete ?y"
    by (simp_all add: x y, simp_all add: st1)
  ultimately show ?thesis by (intro Engine.equality) simp_all
qed

text \<open>
  Two executions of the same live order compose: executing \<open>q1\<close> shares, fewer than the order
  has, and then \<open>q2\<close> leaves the engine in the state one execution of \<open>q1 + q2\<close> shares at the time
  of the second one would, down to the corruption counter.
\<close>

lemma executions_compose:
  assumes "consistent st" and "order_index st ref = Some rec" and "oe_executed_shares m1 < rec_shares rec"
    and "unat (oe_executed_shares m1) + unat (oe_executed_shares m2) < 2 ^ 32"
    and "oe_order_ref m1 = ref" and "oe_order_ref m2 = ref" and "oe_order_ref m = ref"
    and "oe_executed_shares m = oe_executed_shares m1 + oe_executed_shares m2"
    and "oe_timestamp m = oe_timestamp m2"
  shows "handle (OrderExecuted m2) (handle (OrderExecuted m1) st) = handle (OrderExecuted m) st"
  using reduce_compose [OF assms(1-4)] assms(5-9) by (simp add: executed_reduce)

text \<open>The instruments a message is about, given the live orders.\<close>

definition locate_of_ref :: "Engine \<Rightarrow> u64 \<Rightarrow> u16 set" where
  "locate_of_ref st ref = (case order_index st ref of None \<Rightarrow> {} | Some rec \<Rightarrow> {rec_stock_locate rec})"

fun touched :: "Engine \<Rightarrow> ParsedMessage \<Rightarrow> u16 set" where
  "touched st (AddOrder m) = {ao_stock_locate m}"
| "touched st (AddOrderMPID m) = {am_stock_locate m}"
| "touched st (OrderExecuted m) = locate_of_ref st (oe_order_ref m)"
| "touched st (OrderExecutedPrice m) = locate_of_ref st (op_order_ref m)"
| "touched st (OrderCancel m) = locate_of_ref st (oc_order_ref m)"
| "touched st (OrderDelete m) = locate_of_ref st (od_order_ref m)"
| "touched st (OrderReplace m) = locate_of_ref st (or_original_order_ref m)"
| "touched st _ = {}"

lemma books_reduce_other:
  assumes "engine_wf st" and "l \<notin> locate_of_ref st ref"
  shows "books (reduce_order ref q t st) l = books st l"
proof (cases "order_index st ref")
  case (Some rec)
  obtain b where "books st (rec_stock_locate rec) = Some b" using assms(1) Some by (rule wf_orderD)
  then show ?thesis using assms(2) Some by (simp add: locate_of_ref_def reduce_order_Some [OF Some _ refl])
qed (simp add: reduce_order_None)

text \<open>
  A message changes at most one book: that of the instrument an add names, or of the
  instrument the referenced live order was added for, whatever locate the message itself carries.
\<close>

lemma other_books_untouched:
  assumes "engine_wf st" and "l \<notin> touched st msg"
  shows "books (handle msg st) l = books st l"
proof -
  have del: "books (handle_order_delete m st) l = books st l" if "l \<notin> locate_of_ref st (od_order_ref m)" for m
  proof (cases "order_index st (od_order_ref m)")
    case (Some rec)
    obtain b where "books st (rec_stock_locate rec) = Some b" using assms(1) Some by (rule wf_orderD)
    then show ?thesis using that Some by (simp add: locate_of_ref_def delete_Some [OF Some])
  qed (simp add: delete_None)
  have "books (handle_order_replace m st) l = books st l" if "l \<notin> locate_of_ref st (or_original_order_ref m)" for m
  proof (cases "order_index st (or_original_order_ref m)")
    case (Some rec)
    obtain b where "books st (rec_stock_locate rec) = Some b" using assms(1) Some by (rule wf_orderD)
    then show ?thesis using that Some by (simp add: locate_of_ref_def replace_Some [OF Some])
  qed (simp add: replace_None)
  with del assms show ?thesis
    by (cases msg)
      (simp_all add: executed_reduce executed_price_reduce cancel_reduce books_reduce_other
        handle_add_order_def handle_add_order_mpid_def add_order_closed handle_stock_directory_def
        handle_stock_trading_action_def split: option.split)
qed


section \<open>The properties on the sample feed\<close>

theorem levels_are_aggregates_witness:
  "card {r. \<exists>rec. order_index sample_engine r = Some rec \<and> rec_stock_locate rec = 7 \<and>
            side_of (rec_side rec) = Bid \<and> rec_price rec = Price 1000000} = 2"
  using levels_are_aggregates [OF sample_ok sample_length refl refl, of 7 Bid "Price 1000000"]
  by (simp add: sample_level)

theorem top_of_book_is_best_witness:
  "\<exists>b. books sample_engine 7 = Some b \<and> ob_best_bid b = Some (Max (live_prices sample_engine 7 Bid))"
proof -
  have "(case books sample_engine 7 of None \<Rightarrow> False | Some b \<Rightarrow> ob_best_bid b \<noteq> None)" by code_simp
  then obtain b where b: "books sample_engine 7 = Some b" "ob_best_bid b \<noteq> None"
    by (auto split: option.splits)
  with top_of_book_is_best [OF sample_ok sample_length refl b(1)] show ?thesis
    by (auto split: if_splits)
qed

theorem reduce_effect_witness:
  "order_index (handle (OrderExecuted (sample_exec 1 80)) sample_engine) 1 = None \<and>
   corrupt_messages (handle (OrderExecuted (sample_exec 1 80)) sample_engine) = corrupt_messages sample_engine + 1"
  using reduce_effect [where oe = "sample_exec 1 80", OF sample_wf sample_order, OF disjI1 refl refl]
  by (simp add: sample_exec_def sample_record_def min_def)

definition sample_exec_price :: "u64 \<Rightarrow> u32 \<Rightarrow> OrderExecutedPriceMsg" where
  "sample_exec_price ref shares = \<lparr>op_stock_locate = 7, op_tracking_number = 0, op_timestamp = 2000,
     op_order_ref = ref, op_executed_shares = shares, op_match_number = 1, op_printable = CHR ''Y'',
     op_execution_price = Price 999900\<rparr>"

definition sample_cancel :: "u64 \<Rightarrow> u32 \<Rightarrow> OrderCancelMsg" where
  "sample_cancel ref shares = \<lparr>oc_stock_locate = 7, oc_tracking_number = 0, oc_timestamp = 2000,
     oc_order_ref = ref, oc_cancelled_shares = shares\<rparr>"

definition sample_delete :: "u64 \<Rightarrow> OrderDeleteMsg" where
  "sample_delete ref = \<lparr>od_stock_locate = 7, od_tracking_number = 0, od_timestamp = 3000, od_order_ref = ref\<rparr>"

definition sample_replace :: "u64 \<Rightarrow> u64 \<Rightarrow> OrderReplaceMsg" where
  "sample_replace ref new = \<lparr>or_stock_locate = 7, or_tracking_number = 0, or_timestamp = 3000,
     or_original_order_ref = ref, or_new_order_ref = new, or_shares = 10, or_price = Price 1000200\<rparr>"

lemma unknown_ref_only_counted_witness:
  "handle (OrderReplace (sample_replace 9 10)) sample_engine =
     sample_engine\<lparr>skipped_unknown_ref := skipped_unknown_ref sample_engine + 1\<rparr>"
proof (rule unknown_ref_only_counted [where oe = "sample_exec 9 1" and op = "sample_exec_price 9 1" and
      oc = "sample_cancel 9 1" and od = "sample_delete 9" and rp = "sample_replace 9 10" and ref = 9])
  show "order_index sample_engine 9 = None" by code_simp
qed (simp_all add: sample_exec_def sample_exec_price_def sample_cancel_def sample_delete_def sample_replace_def)

theorem replace_is_delete_then_add_witness:
  "handle (OrderReplace (sample_replace 1 9)) sample_engine =
     handle (AddOrderMPID (add_part (sample_replace 1 9) sample_record))
       (handle (OrderDelete (delete_part (sample_replace 1 9))) sample_engine)"
  by (rule replace_is_delete_then_add [OF sample_wf]) (simp add: sample_replace_def sample_order)

theorem add_delete_roundtrip_witness:
  "order_index (handle (OrderDelete (sample_delete 9))
     (handle (AddOrder (sample_add 9 CHR ''B'' 5 1000000)) sample_engine)) = order_index sample_engine"
proof -
  have none: "order_index sample_engine (ao_order_ref (sample_add 9 CHR ''B'' 5 1000000)) = None" by code_simp
  have "books sample_engine (ao_stock_locate (sample_add 9 CHR ''B'' 5 1000000)) \<noteq> None" by code_simp
  then obtain b where "books sample_engine (ao_stock_locate (sample_add 9 CHR ''B'' 5 1000000)) = Some b"
    by blast
  from add_delete_roundtrip [OF sample_consistent none sample_few this, of "sample_delete 9"]
  show ?thesis by (simp add: sample_delete_def sample_add_def)
qed

lemma executions_compose_witness:
  "handle (OrderExecuted (sample_exec 1 50)) (handle (OrderExecuted (sample_exec 1 30)) sample_engine) =
     handle (OrderExecuted (sample_exec 1 80)) sample_engine"
  by (rule executions_compose [OF sample_consistent sample_order])
    (simp_all add: sample_exec_def sample_record_def)

lemma other_books_untouched_witness:
  "books (handle (OrderDelete (sample_delete 1)) sample_engine) 8 = books sample_engine 8"
  by (rule other_books_untouched [OF sample_wf])
    (simp add: sample_delete_def locate_of_ref_def sample_order, simp add: sample_record_def)

end
