(* ===== verification/Binary64.thy ===== *)
theory Binary64
  imports Complex_Main Itch_Prelude
begin

text \<open>
  What the program uses of IEEE binary64: a double is the rational number it stands for, and an
  arithmetic operation rounds the exact result to 53 significant bits, ties to even
  (\<^verbatim>\<open>double\<close> of the C++ implementation, in the default rounding mode). Every number that occurs
  (prices between \<open>0\<close> and \<open>2 ^ 32 / 10000\<close>) is far from the exponent limits, so there is no
  overflow and no subnormal.
\<close>

function bit_length :: "int \<Rightarrow> int" where
  "bit_length n = (if n \<le> 0 then 0 else bit_length (n div 2) + 1)"
  by pat_completeness auto
termination by (relation "measure nat") auto

declare bit_length.simps [simp del]

definition binade :: "rat \<Rightarrow> int" where
  "binade x =
     (let (n, d) = quotient_of x;
          k = bit_length n - bit_length d
      in if 2 powi k \<le> x then k else k - 1)"

definition round_even :: "rat \<Rightarrow> int" where
  "round_even y =
     (let f = \<lfloor>y\<rfloor>; r = y - of_int f
      in if r < 1 / 2 then f else if r > 1 / 2 then f + 1 else if even f then f else f + 1)"

definition ulp :: "rat \<Rightarrow> rat" where
  "ulp x = 2 powi (binade x - 52)"

definition fl :: "rat \<Rightarrow> rat" where
  "fl x = (if x = 0 then 0 else sgn x * (ulp \<bar>x\<bar> * of_int (round_even (\<bar>x\<bar> / ulp \<bar>x\<bar>))))"

lemma round_even_error: "\<bar>of_int (round_even y) - y\<bar> \<le> 1 / 2"
proof -
  define f where "f = \<lfloor>y\<rfloor>"
  have "of_int f \<le> y" "y < of_int f + 1" unfolding f_def by linarith+
  then show ?thesis unfolding round_even_def Let_def abs_le_iff f_def [symmetric] by (auto simp: field_simps)
qed

lemma bit_length_nonneg: "0 \<le> bit_length n"
proof (induction n rule: bit_length.induct)
  case (1 n)
  then show ?case by (simp add: bit_length.simps [of n])
qed

lemma bit_length_int:
  "0 < n \<Longrightarrow> 0 < bit_length n \<and> 2 ^ nat (bit_length n - 1) \<le> n \<and> n < 2 ^ nat (bit_length n)"
proof (induction n rule: bit_length.induct)
  case (1 n)
  let ?h = "n div 2"
  have b: "bit_length n = bit_length ?h + 1" using 1 by (simp add: bit_length.simps [of n])
  show ?case
  proof (cases "n = 1")
    case False
    with 1 have "0 < bit_length ?h \<and> 2 ^ nat (bit_length ?h - 1) \<le> ?h \<and> ?h < 2 ^ nat (bit_length ?h)"
      by (intro "1.IH") linarith+
    then have h: "0 < bit_length ?h" "2 ^ nat (bit_length ?h - 1) \<le> ?h" "?h < 2 ^ nat (bit_length ?h)"
      by blast+
    have p: "2 ^ nat (bit_length ?h + 1) = 2 * (2 :: int) ^ nat (bit_length ?h)"
      using h(1) by (simp add: nat_add_distrib)
    have q: "2 ^ nat (bit_length ?h) = 2 * (2 :: int) ^ nat (bit_length ?h - 1)"
      using h(1) by (simp flip: power_Suc add: Suc_nat_eq_nat_zadd1)
    have "n = 2 * ?h + n mod 2" "0 \<le> n mod 2" "n mod 2 < 2" by simp_all
    then have "2 ^ nat (bit_length ?h) \<le> n" "n < 2 ^ nat (bit_length ?h + 1)"
      using h(2,3) unfolding p q by linarith+
    then show ?thesis using h(1) by (simp add: b)
  qed (simp add: bit_length.simps [of 1] bit_length.simps [of 0])
qed

lemma bit_length_bounds:
  assumes "0 < n"
  shows "2 powi (bit_length n - 1) \<le> (of_int n :: rat)" and "(of_int n :: rat) < 2 powi bit_length n"
proof -
  have b: "0 < bit_length n" "2 ^ nat (bit_length n - 1) \<le> n" "n < 2 ^ nat (bit_length n)"
    using bit_length_int [OF assms] by blast+
  have "(of_int (2 ^ nat (bit_length n - 1)) :: rat) \<le> of_int n" using b(2) by (simp only: of_int_le_iff)
  then show "2 powi (bit_length n - 1) \<le> (of_int n :: rat)" using b(1) by (simp add: power_int_def)
  have "(of_int n :: rat) < of_int (2 ^ nat (bit_length n))" using b(3) by (simp only: of_int_less_iff)
  then show "(of_int n :: rat) < 2 powi bit_length n" using b(1) by (simp add: power_int_def)
qed

lemma binade_bounds:
  assumes "0 < x"
  shows "2 powi binade x \<le> x" and "x < 2 powi (binade x + 1)"
proof -
  obtain n d where q: "quotient_of x = (n, d)" by fastforce
  have d: "d > 0" using q by (rule quotient_of_denom_pos)
  have x: "x = of_int n / of_int d" using q by (rule quotient_of_div)
  then have n: "n > 0" using assms d by (simp add: zero_less_divide_iff)
  let ?a = "bit_length n" and ?b = "bit_length d"
  have nb: "2 powi (?a - 1) \<le> (of_int n :: rat)" "(of_int n :: rat) < 2 powi ?a"
    using bit_length_bounds [OF n] by simp_all
  have db: "2 powi (?b - 1) \<le> (of_int d :: rat)" "(of_int d :: rat) < 2 powi ?b"
    using bit_length_bounds [OF d] by simp_all
  have "x \<ge> 2 powi (?a - 1) / 2 powi ?b"
    unfolding x using nb(1) db(2) d n by (intro frac_le) auto
  then have lo: "2 powi (?a - ?b - 1) \<le> x"
    by (simp add: power_int_diff)
  have "x < 2 powi ?a / 2 powi (?b - 1)"
    unfolding x using nb(2) db(1) d n by (intro frac_less) auto
  then have hi: "x < 2 powi (?a - ?b + 1)"
    by (simp add: power_int_diff power_int_add)
  show "2 powi binade x \<le> x" and "x < 2 powi (binade x + 1)"
    using lo hi by (auto simp: binade_def q Let_def)
qed

lemma ulp_pos [simp]: "0 < ulp x"
  by (simp add: ulp_def)

lemma fl_error: "\<bar>fl x - x\<bar> \<le> \<bar>x\<bar> / 2 ^ 53"
proof (cases "x = 0")
  case False
  let ?a = "\<bar>x\<bar>" and ?u = "ulp \<bar>x\<bar>"
  have "\<bar>of_int (round_even (?a / ?u)) - ?a / ?u\<bar> \<le> 1 / 2" by (rule round_even_error)
  then have "?u * \<bar>of_int (round_even (?a / ?u)) - ?a / ?u\<bar> \<le> ?u * (1 / 2)"
    by (intro mult_left_mono) (simp_all add: less_imp_le)
  moreover have "?u * \<bar>r - ?a / ?u\<bar> = \<bar>?u * r - ?a\<bar>" for r
    using ulp_pos [of ?a] abs_mult_pos' [of ?u "r - ?a / ?u"] by (simp add: right_diff_distrib less_imp_le less_imp_neq [symmetric])
  moreover have "\<bar>fl x - x\<bar> = \<bar>?u * of_int (round_even (?a / ?u)) - ?a\<bar>"
    using False by (cases "x > 0") (auto simp: fl_def abs_if)
  moreover have "?u * 2 ^ 52 \<le> ?a"
    using binade_bounds(1) [of ?a] False by (simp add: ulp_def power_int_diff)
  ultimately show ?thesis by (simp add: field_simps)
qed (simp add: fl_def)

end
