(* ===== verification/Price_Double.thy ===== *)
theory Price_Double
  imports Binary64 Messages
begin

text \<open>
  \<^verbatim>\<open>Price::to_double\<close> and the way back that the top-of-book handler takes: multiply by 10000, add a
  half, cast to a 32-bit integer. The cast truncates; outside the range of the type it is
  undefined and the result is \<^const>\<open>None\<close>. The lemmas show that the conversion is strictly
  monotone and that the way back recovers the fixed-point price.
\<close>

definition units :: "Price \<Rightarrow> int" where
  "units p = uint (raw p)"

definition to_double :: "Price \<Rightarrow> rat" where
  "to_double p = fl (of_int (units p) / 10000)"

definition raw_of_double :: "rat \<Rightarrow> int option" where
  "raw_of_double x =
     (let y = fl (fl (x * 10000) + 1 / 2);
          t = (if y \<ge> 0 then \<lfloor>y\<rfloor> else \<lceil>y\<rceil>)
      in if - (2 ^ 31) \<le> t \<and> t < 2 ^ 31 then Some t else None)"

lemma units_bounds: "0 \<le> units p" "units p < 2 ^ 32"
  using uint_bounded [of "raw p"] by (simp_all add: units_def)

lemma units_bounds_rat: "(0 :: rat) \<le> of_int (units p)" "(of_int (units p) :: rat) \<le> 2 ^ 32"
proof -
  show "(0 :: rat) \<le> of_int (units p)" using units_bounds(1) by (simp only: of_int_0_le_iff)
  have "(of_int (units p) :: rat) \<le> of_int (2 ^ 32)"
    using units_bounds(2) [of p] by (simp only: of_int_le_iff less_imp_le)
  then show "(of_int (units p) :: rat) \<le> 2 ^ 32" by simp
qed

lemma to_double_error:
  "\<bar>to_double p - of_int (units p) / 10000\<bar> \<le> of_int (units p) / 10000 / 2 ^ 53"
  using fl_error [of "of_int (units p) / 10000"] units_bounds_rat(1) [of p] by (simp add: to_double_def)

lemma to_double_strict:
  assumes "p < q"
  shows "to_double p < to_double q"
proof -
  define n :: rat where "n = of_int (units p)"
  define m :: rat where "m = of_int (units q)"
  have "units p + 1 \<le> units q" using assms by (simp add: less_Price_def word_less_alt units_def)
  then have "(of_int (units p + 1) :: rat) \<le> of_int (units q)" by (simp only: of_int_le_iff)
  then have nm: "n + 1 \<le> m" by (simp add: n_def m_def)
  have "to_double p \<le> n / 10000 + n / 10000 / 2 ^ 53" "m / 10000 - m / 10000 / 2 ^ 53 \<le> to_double q"
    using to_double_error [of p] to_double_error [of q] unfolding n_def m_def abs_le_iff by linarith+
  moreover have "n \<le> 2 ^ 32" "m \<le> 2 ^ 32" unfolding n_def m_def by (rule units_bounds_rat)+
  ultimately show ?thesis using nm by simp
qed

lemma raw_of_double_recovers:
  "raw_of_double (to_double p) = (if units p < 2 ^ 31 then Some (units p) else None)"
proof -
  define n :: rat where "n = of_int (units p)"
  define x where "x = to_double p * 10000"
  define y where "y = fl x"
  define z where "z = fl (y + 1 / 2)"
  have n: "0 \<le> n" "n \<le> 2 ^ 32" unfolding n_def by (rule units_bounds_rat)+
  have x: "\<bar>x - n\<bar> \<le> n / 2 ^ 53"
    using to_double_error [of p] unfolding x_def n_def abs_le_iff by simp
  then have "\<bar>x - n\<bar> \<le> 1 / 2 ^ 21" using n by simp
  moreover have "\<bar>y - x\<bar> \<le> \<bar>x\<bar> / 2 ^ 53" unfolding y_def by (rule fl_error)
  ultimately have y: "\<bar>y - n\<bar> \<le> 1 / 2 ^ 19" using n by (simp add: abs_if split: if_splits)
  have "\<bar>z - (y + 1 / 2)\<bar> \<le> \<bar>y + 1 / 2\<bar> / 2 ^ 53" unfolding z_def by (rule fl_error)
  then have z: "\<bar>z - (n + 1 / 2)\<bar> \<le> 1 / 2 ^ 17" using y n by (simp add: abs_if split: if_splits)
  then have "n \<le> z" "z < n + 1" by (simp_all add: abs_if split: if_splits)
  then have "\<lfloor>z\<rfloor> = units p" "z \<ge> 0" using n by (simp_all add: floor_eq_iff n_def)
  then show ?thesis
    using units_bounds(1) [of p] by (simp add: raw_of_double_def Let_def z_def y_def x_def)
qed


text \<open>
  (C34) Prices as doubles: a converted price is off the exact decimal by at most one part in
  \<open>2 ^ 53\<close>, conversion keeps the order of prices strictly, and the way back that the top-of-book
  handler takes gives the fixed-point price exactly when it is below \<open>2 ^ 31\<close> and overflows the
  32-bit cast otherwise.
\<close>

theorem price_conversion:
  "\<bar>to_double p - of_int (units p) / 10000\<bar> \<le> of_int (units p) / 10000 / 2 ^ 53 \<and>
   (to_double p < to_double q \<longleftrightarrow> p < q) \<and>
   raw_of_double (to_double p) = (if units p < 2 ^ 31 then Some (units p) else None)"
  using to_double_error [of p] to_double_strict [of p q] to_double_strict [of q p] raw_of_double_recovers [of p]
  by (cases p q rule: linorder_cases) auto

end
