(* ===== verification/Snapshot.thy ===== *)
theory Snapshot
  imports Book_Engine Price_Double "HOL-Library.AList"
begin

text \<open>
  \<^verbatim>\<open>include/itch/snapshot.h\<close>, the snapshot part of \<^verbatim>\<open>src/book_engine.cpp\<close> and
  \<^verbatim>\<open>src/snapshot_publisher.cpp\<close>. An \<^verbatim>\<open>unordered_map\<close> of a snapshot is an association list that is
  read by \<^const>\<open>map_of\<close>; the order in which a hash map is iterated, which the language leaves open,
  and the wall clock are given by a \<open>SnapEnv\<close>. The publisher holds the current snapshot, or
  \<^const>\<open>None\<close> for the null pointer.
\<close>

section \<open>Snapshot structs\<close>

record PriceLevelSnapshot =
  ls_price :: rat
  ls_total_shares :: u64
  ls_order_count :: u32

record OrderBookSnapshot =
  bs_symbol :: string
  bs_trading_state :: char
  bs_bids :: "PriceLevelSnapshot list"
  bs_asks :: "PriceLevelSnapshot list"
  bs_last_update_timestamp :: u64
  bs_stock_locate :: u16
  bs_round_lot_size :: u32
  bs_market_category :: char

record SystemSnapshot =
  ss_books :: "(string \<times> OrderBookSnapshot) list"
  ss_symbol_index :: "(string \<times> string) list"
  ss_messages_processed :: u64
  ss_snapshot_timestamp :: u64
  ss_pipeline_complete :: bool

record SnapEnv =
  env_books :: "u16 list"
  env_instruments :: "u16 list"
  env_symbols :: "string list"
  env_now_ms :: u64

section \<open>Building a snapshot\<close>

definition tolower :: "char \<Rightarrow> char" where
  "tolower c = (let n = of_char c :: nat in if 65 \<le> n \<and> n \<le> 90 then char_of (n + 32) else c)"

definition to_lower :: "string \<Rightarrow> string" where
  "to_lower s = map tolower s"

definition snap_level :: "Price \<times> PriceLevel \<Rightarrow> PriceLevelSnapshot" where
  "snap_level e = \<lparr>ls_price = to_double (fst e), ls_total_shares = pl_total_shares (snd e),
     ls_order_count = pl_order_count (snd e)\<rparr>"

definition snap_book :: "InstrumentInfo \<Rightarrow> OrderBook \<Rightarrow> OrderBookSnapshot" where
  "snap_book info book = \<lparr>bs_symbol = in_symbol info, bs_trading_state = in_trading_state info,
     bs_bids = map snap_level (ob_bids book), bs_asks = map snap_level (ob_asks book),
     bs_last_update_timestamp = ob_last_update_timestamp book,
     bs_stock_locate = in_stock_locate info, bs_round_lot_size = in_round_lot_size info,
     bs_market_category = in_market_category info\<rparr>"

definition empty_snap :: "InstrumentInfo \<Rightarrow> OrderBookSnapshot" where
  "empty_snap info = \<lparr>bs_symbol = in_symbol info, bs_trading_state = in_trading_state info,
     bs_bids = [], bs_asks = [], bs_last_update_timestamp = 0,
     bs_stock_locate = in_stock_locate info, bs_round_lot_size = in_round_lot_size info,
     bs_market_category = in_market_category info\<rparr>"

text \<open>The body of the loop over the books.\<close>

definition snap_add_book ::
    "Engine \<Rightarrow> u16 \<Rightarrow> (string \<times> OrderBookSnapshot) list \<Rightarrow> (string \<times> OrderBookSnapshot) list" where
  "snap_add_book st locate sb =
     (case (books st locate, instruments st locate) of
        (Some book, Some info) \<Rightarrow> AList.update (in_symbol info) (snap_book info book) sb
      | _ \<Rightarrow> sb)"

text \<open>The body of the loop over the instruments.\<close>

definition snap_add_instrument ::
    "Engine \<Rightarrow> u16 \<Rightarrow> (string \<times> OrderBookSnapshot) list \<Rightarrow> (string \<times> OrderBookSnapshot) list" where
  "snap_add_instrument st locate sb =
     (case instruments st locate of
        Some info \<Rightarrow>
          if map_of sb (in_symbol info) = None then AList.update (in_symbol info) (empty_snap info) sb else sb
      | None \<Rightarrow> sb)"

definition snap_index :: "string list \<Rightarrow> (string \<times> string) list" where
  "snap_index syms = fold (\<lambda>sym idx. AList.update (to_lower sym) sym idx) syms []"

definition build_snapshot :: "SnapEnv \<Rightarrow> Engine \<Rightarrow> SystemSnapshot" where
  "build_snapshot env st =
     (let sb1 = fold (snap_add_book st) (env_books env) [];
          sb2 = fold (snap_add_instrument st) (env_instruments env) sb1
      in \<lparr>ss_books = sb2, ss_symbol_index = snap_index (env_symbols env),
          ss_messages_processed = messages_processed st, ss_snapshot_timestamp = env_now_ms env,
          ss_pipeline_complete = pipeline_complete st\<rparr>)"

text \<open>
  What the language guarantees of the iterations: each visits every key of its map once.
\<close>

definition env_ok :: "SnapEnv \<Rightarrow> Engine \<Rightarrow> bool" where
  "env_ok env st \<longleftrightarrow>
     distinct (env_books env) \<and> set (env_books env) = dom (books st) \<and>
     distinct (env_instruments env) \<and> set (env_instruments env) = dom (instruments st) \<and>
     distinct (env_symbols env) \<and>
     set (env_symbols env) = dom (map_of (ss_books (build_snapshot env st)))"

section \<open>Publishing\<close>

type_synonym publisher = "SystemSnapshot option"

definition publish :: "SystemSnapshot \<Rightarrow> publisher \<Rightarrow> publisher" where
  "publish snapshot pub = Some snapshot"

definition current :: "publisher \<Rightarrow> SystemSnapshot option" where
  "current pub = pub"

text \<open>
  The built-in \<^verbatim>\<open>%\<close> on 64-bit unsigned values: the language leaves it undefined for a divisor of 0.
\<close>

definition umod :: "u64 \<Rightarrow> u64 \<Rightarrow> u64 option" where
  "umod a b = (if b = 0 then None else Some (a mod b))"

datatype engine_fault = DivisionByZero

definition maybe_publish_snapshot :: "SnapEnv \<Rightarrow> Engine \<Rightarrow> publisher \<Rightarrow> engine_fault + publisher" where
  "maybe_publish_snapshot env st pub =
     (case umod (messages_processed st) (snapshot_interval st) of
        None \<Rightarrow> Inl DivisionByZero
      | Some r \<Rightarrow> Inr (if r = 0 then publish (build_snapshot env st) pub else pub))"

text \<open>The environment of a call may depend on the state it is made in.\<close>

definition apply_msg :: "(Engine \<Rightarrow> SnapEnv) \<Rightarrow> ParsedMessage \<Rightarrow> Engine \<times> publisher \<Rightarrow>
    engine_fault + Engine \<times> publisher" where
  "apply_msg env msg w =
     (let st1 = handle msg (fst w);
          st2 = st1\<lparr>messages_processed := messages_processed st1 + 1\<rparr>
      in case maybe_publish_snapshot (env st2) st2 (snd w) of
           Inl e \<Rightarrow> Inl e
         | Inr pub \<Rightarrow> Inr (st2, pub))"

definition set_pipeline_complete :: "(Engine \<Rightarrow> SnapEnv) \<Rightarrow> Engine \<times> publisher \<Rightarrow> Engine \<times> publisher" where
  "set_pipeline_complete env w =
     (let st1 = (fst w)\<lparr>pipeline_complete := True\<rparr>
      in (st1, publish (build_snapshot (env st1) st1) (snd w)))"

fun apply_all :: "(Engine \<Rightarrow> SnapEnv) \<Rightarrow> ParsedMessage list \<Rightarrow> Engine \<times> publisher \<Rightarrow>
    engine_fault + Engine \<times> publisher" where
  "apply_all env [] w = Inr w"
| "apply_all env (m # ms) w =
     (case apply_msg env m w of Inl e \<Rightarrow> Inl e | Inr w' \<Rightarrow> apply_all env ms w')"

end
