(* ===== verification/Snapshot_Properties.thy ===== *)
theory Snapshot_Properties
  imports Snapshot Engine_Properties
begin

text \<open>
  What a snapshot shows of the engine, for every iteration order of the hash maps: the books of
  the instruments under their symbols, a symbol index that only leads to books, and when a
  snapshot is published.
\<close>

section \<open>The books of a snapshot\<close>

definition symbols_distinct :: "Engine \<Rightarrow> bool" where
  "symbols_distinct st \<longleftrightarrow>
     (\<forall>l l' i i'. instruments st l = Some i \<and> instruments st l' = Some i' \<and> in_symbol i = in_symbol i' \<longrightarrow> l = l')"

lemma symbols_distinctD:
  "symbols_distinct st \<Longrightarrow> instruments st l = Some i \<Longrightarrow> instruments st l' = Some i' \<Longrightarrow>
     in_symbol i = in_symbol i' \<Longrightarrow> l = l'"
  unfolding symbols_distinct_def by blast

lemma add_books_other:
  "(\<And>l i. l \<in> set ls \<Longrightarrow> instruments st l = Some i \<Longrightarrow> in_symbol i \<noteq> sy) \<Longrightarrow>
     map_of (fold (snap_add_book st) ls sb) sy = map_of sb sy"
proof (induction ls arbitrary: sb)
  case (Cons l ls)
  have "map_of (fold (snap_add_book st) ls (snap_add_book st l sb)) sy = map_of (snap_add_book st l sb) sy"
    by (rule Cons.IH) (rule Cons.prems, simp_all)
  moreover have "map_of (snap_add_book st l sb) sy = map_of sb sy"
    using Cons.prems [of l] by (auto simp: snap_add_book_def update_conv split: option.split)
  ultimately show ?case by simp
qed simp

lemma add_books_self:
  assumes "symbols_distinct st" and "distinct ls" and "l \<in> set ls"
    and "books st l = Some b" and "instruments st l = Some i"
  shows "map_of (fold (snap_add_book st) ls sb) (in_symbol i) = Some (snap_book i b)"
proof -
  obtain xs ys where ls: "ls = xs @ l # ys" using assms(3) by (meson split_list)
  then have "l \<notin> set ys" using assms(2) by simp
  then have "map_of (fold (snap_add_book st) ys sb') (in_symbol i) = map_of sb' (in_symbol i)" for sb'
    using symbols_distinctD [OF assms(1,5)] by (intro add_books_other) metis
  then show ?thesis by (simp add: ls snap_add_book_def assms(4,5) update_conv)
qed

lemma add_instrument_kept: "map_of sb sy = Some x \<Longrightarrow> map_of (snap_add_instrument st l sb) sy = Some x"
  by (auto simp: snap_add_instrument_def update_conv split: option.split)

lemma add_instruments_kept:
  "map_of sb sy = Some x \<Longrightarrow> map_of (fold (snap_add_instrument st) ls sb) sy = Some x"
  by (induction ls arbitrary: sb) (simp_all add: add_instrument_kept)

lemma add_instruments_other:
  "(\<And>l i. l \<in> set ls \<Longrightarrow> instruments st l = Some i \<Longrightarrow> in_symbol i \<noteq> sy) \<Longrightarrow>
     map_of (fold (snap_add_instrument st) ls sb) sy = map_of sb sy"
proof (induction ls arbitrary: sb)
  case (Cons l ls)
  have "map_of (fold (snap_add_instrument st) ls (snap_add_instrument st l sb)) sy =
      map_of (snap_add_instrument st l sb) sy"
    by (rule Cons.IH) (rule Cons.prems, simp_all)
  moreover have "map_of (snap_add_instrument st l sb) sy = map_of sb sy"
    using Cons.prems [of l] by (auto simp: snap_add_instrument_def update_conv split: option.split)
  ultimately show ?case by simp
qed simp

lemma add_instruments_self:
  assumes "symbols_distinct st" and "l \<in> set ls" and "instruments st l = Some i" and "map_of sb (in_symbol i) = None"
  shows "map_of (fold (snap_add_instrument st) ls sb) (in_symbol i) = Some (empty_snap i)"
  using assms(2,4)
proof (induction ls arbitrary: sb)
  case (Cons l' ls)
  show ?case
  proof (cases "l' = l")
    case True
    have "map_of (snap_add_instrument st l sb) (in_symbol i) = Some (empty_snap i)"
      using Cons.prems assms(3) by (simp add: snap_add_instrument_def update_conv)
    with True show ?thesis by (simp add: add_instruments_kept)
  next
    case False
    then have "map_of (snap_add_instrument st l' sb) (in_symbol i) = None"
      using Cons.prems symbols_distinctD [OF assms(1,3), of l']
      by (auto simp: snap_add_instrument_def update_conv split: option.split)
    then show ?thesis using Cons False by simp
  qed
qed simp

lemma snapshot_book:
  assumes "symbols_distinct st" and "env_ok env st" and "instruments st l = Some i"
  shows "map_of (ss_books (build_snapshot env st)) (in_symbol i) =
           Some (case books st l of Some b \<Rightarrow> snap_book i b | None \<Rightarrow> empty_snap i)"
proof (cases "books st l")
  case (Some b)
  then have "l \<in> set (env_books env)" "distinct (env_books env)" using assms(2) by (auto simp: env_ok_def)
  from add_books_self [OF assms(1) this(2,1) Some assms(3), of "[]"] show ?thesis
    by (simp add: build_snapshot_def Let_def Some add_instruments_kept)
next
  case None
  have "l' \<in> set (env_books env) \<Longrightarrow> instruments st l' = Some i' \<Longrightarrow> in_symbol i' \<noteq> in_symbol i" for l' i'
    using assms(2) None symbols_distinctD [OF assms(1,3), of l' i'] by (auto simp: env_ok_def)
  then have "map_of (fold (snap_add_book st) (env_books env) []) (in_symbol i) = None"
    by (subst add_books_other) auto
  moreover have "l \<in> set (env_instruments env)" using assms(2,3) by (auto simp: env_ok_def)
  ultimately show ?thesis
    by (simp add: build_snapshot_def Let_def None add_instruments_self [OF assms(1) _ assms(3)])
qed

lemma snapshot_symbols:
  assumes "env_ok env st" and "dom (books st) \<subseteq> dom (instruments st)"
    and "map_of (ss_books (build_snapshot env st)) sy = Some x"
  shows "\<exists>l i. instruments st l = Some i \<and> in_symbol i = sy"
proof (rule ccontr)
  assume "\<nexists>l i. instruments st l = Some i \<and> in_symbol i = sy"
  then have "map_of (ss_books (build_snapshot env st)) sy = None"
    by (auto simp: build_snapshot_def Let_def add_books_other add_instruments_other)
  with assms(3) show False by simp
qed

lemma snapshot_all_symbols:
  assumes "env_ok env st" and "instruments st l = Some i"
  shows "map_of (ss_books (build_snapshot env st)) (in_symbol i) \<noteq> None"
proof -
  have mono: "map_of sb s \<noteq> None \<Longrightarrow> map_of (fold (snap_add_instrument st) ls sb) s \<noteq> None" for ls sb s
    using add_instruments_kept by fastforce
  have "l \<in> set ls \<Longrightarrow> map_of (fold (snap_add_instrument st) ls sb) (in_symbol i) \<noteq> None" for ls sb
  proof (induction ls arbitrary: sb)
    case (Cons l' ls)
    have "map_of (snap_add_instrument st l sb) (in_symbol i) \<noteq> None"
      using assms(2) by (simp add: snap_add_instrument_def update_conv)
    then show ?case using Cons mono by (cases "l' = l") simp_all
  qed simp
  moreover have "l \<in> set (env_instruments env)" using assms by (auto simp: env_ok_def)
  ultimately show ?thesis by (simp add: build_snapshot_def Let_def)
qed

section \<open>The symbol index\<close>

lemma snap_index_snoc: "snap_index (syms @ [s]) = AList.update (to_lower s) s (snap_index syms)"
  by (simp add: snap_index_def)

lemma snap_index_sound: "map_of (snap_index syms) lo = Some sy \<Longrightarrow> sy \<in> set syms \<and> to_lower sy = lo"
proof (induction syms rule: rev_induct)
  case (snoc s syms)
  then show ?case by (auto simp: snap_index_snoc update_conv split: if_splits)
qed (simp add: snap_index_def)

lemma snap_index_complete: "sy \<in> set syms \<Longrightarrow> map_of (snap_index syms) (to_lower sy) \<noteq> None"
proof (induction syms rule: rev_induct)
  case (snoc s syms)
  then show ?case by (auto simp: snap_index_snoc update_conv)
qed simp


section \<open>Control fields\<close>

text \<open>
  The message counter, the snapshot interval and the completion flag do not influence the
  handlers, and the handlers do not change them.
\<close>

definition with_control :: "u64 \<Rightarrow> u64 \<Rightarrow> bool \<Rightarrow> Engine \<Rightarrow> Engine" where
  "with_control c k done st = st\<lparr>messages_processed := c, snapshot_interval := k, pipeline_complete := done\<rparr>"

lemma with_control_self: "with_control (messages_processed st) (snapshot_interval st) (pipeline_complete st) st = st"
  by (simp add: with_control_def)

lemma with_control_simps [simp]:
  "order_index (with_control c k d st) = order_index st" "books (with_control c k d st) = books st"
  "instruments (with_control c k d st) = instruments st"
  "messages_processed (with_control c k d st) = c" "snapshot_interval (with_control c k d st) = k"
  "pipeline_complete (with_control c k d st) = d"
  "with_control c k d (with_control c' k' d' st) = with_control c k d st"
  by (simp_all add: with_control_def)

lemma update_control:
  "(with_control c k d st)\<lparr>order_index := x\<rparr> = with_control c k d (st\<lparr>order_index := x\<rparr>)"
  "(with_control c k d st)\<lparr>corrupt_messages := y\<rparr> = with_control c k d (st\<lparr>corrupt_messages := y\<rparr>)"
  "(with_control c k d st)\<lparr>skipped_unknown_ref := y\<rparr> = with_control c k d (st\<lparr>skipped_unknown_ref := y\<rparr>)"
  "(with_control c k d st)\<lparr>instruments := z\<rparr> = with_control c k d (st\<lparr>instruments := z\<rparr>)"
  "corrupt_messages (with_control c k d st) = corrupt_messages st"
  "skipped_unknown_ref (with_control c k d st) = skipped_unknown_ref st"
  by (simp_all add: with_control_def)

lemma book_control:
  "put_book l b (with_control c k d st) = with_control c k d (put_book l b st)"
  "stamp_book l t (with_control c k d st) = with_control c k d (stamp_book l t st)"
  "get_or_create_book l (with_control c k d st) =
     (fst (get_or_create_book l st), with_control c k d (snd (get_or_create_book l st)))"
  by (auto simp: with_control_def put_book_def stamp_book_def get_or_create_book_def Let_def split: option.split)

lemmas control_simps = update_control book_control

lemma handle_control: "handle msg (with_control c k d st) = with_control c k d (handle msg st)"
proof (cases msg)
  case (AddOrder m)
  then show ?thesis
    by (simp add: handle_add_order_def add_order_impl_def control_simps Let_def split: prod.split)
next
  case (AddOrderMPID m)
  then show ?thesis
    by (simp add: handle_add_order_mpid_def add_order_impl_def control_simps Let_def split: prod.split)
next
  case (OrderExecuted m)
  then show ?thesis
    by (simp add: handle_order_executed_def control_simps Let_def split: prod.split option.split)
next
  case (OrderExecutedPrice m)
  then show ?thesis
    by (simp add: handle_order_executed_price_def control_simps Let_def split: prod.split option.split)
next
  case (OrderCancel m)
  then show ?thesis
    by (simp add: handle_order_cancel_def control_simps Let_def split: prod.split option.split)
next
  case (OrderDelete m)
  then show ?thesis
    by (simp add: handle_order_delete_def control_simps Let_def split: prod.split option.split)
next
  case (OrderReplace m)
  then show ?thesis
    by (simp add: handle_order_replace_def control_simps Let_def split: prod.split option.split)
qed (simp_all add: handle_stock_directory_def handle_stock_trading_action_def control_simps Let_def split: option.split)

lemma handle_keeps_control:
  "messages_processed (handle m st) = messages_processed st" "snapshot_interval (handle m st) = snapshot_interval st"
proof -
  have "handle m st = with_control (messages_processed st) (snapshot_interval st) (pipeline_complete st) (handle m st)"
    using handle_control [of m _ _ _ st] with_control_self [of st] by metis
  then show "messages_processed (handle m st) = messages_processed st"
    "snapshot_interval (handle m st) = snapshot_interval st"
    by (metis with_control_simps(4), metis with_control_simps(5))
qed

lemma run_feed_control: "run_feed ms (with_control c k d st) = with_control c k d (run_feed ms st)"
  by (induction ms arbitrary: st) (simp_all add: handle_control)


section \<open>When snapshots are published\<close>

lemma apply_all_snoc:
  "apply_all env (ms @ [m]) w = (case apply_all env ms w of Inl e \<Rightarrow> Inl e | Inr w' \<Rightarrow> apply_msg env m w')"
  by (induction ms arbitrary: w) (auto split: sum.split)

definition engine_at :: "u64 \<Rightarrow> ParsedMessage list \<Rightarrow> nat \<Rightarrow> Engine" where
  "engine_at k ms n = with_control (of_nat n) k False (run_feed (take n ms) init_engine)"

definition published_at :: "(Engine \<Rightarrow> SnapEnv) \<Rightarrow> u64 \<Rightarrow> ParsedMessage list \<Rightarrow> publisher" where
  "published_at env k ms =
     (let n = length ms; j = n - n mod unat k
      in if n < unat k then None else Some (build_snapshot (env (engine_at k ms j)) (engine_at k ms j)))"

lemma engine_at_snoc: "n \<le> length ms \<Longrightarrow> engine_at k (ms @ [m]) n = engine_at k ms n"
  by (simp add: engine_at_def)

lemma word_mod_zero:
  assumes "n < 2 ^ 64"
  shows "of_nat n mod k = (0 :: u64) \<longleftrightarrow> n mod unat k = 0"
proof -
  have "unat (of_nat n mod k :: u64) = n mod unat k"
    using assms by (simp add: unat_mod unat_of_nat_u64)
  then show ?thesis by (metis unat_eq_0)
qed

lemma published_snoc_keep:
  assumes "k \<noteq> 0" and "Suc (length ms) mod unat k \<noteq> 0"
  shows "published_at env k (ms @ [m]) = published_at env k ms"
proof -
  let ?n = "length ms" and ?k = "unat k"
  have k: "?k > 0" using assms(1) by (simp add: unat_gt_0)
  have md: "Suc ?n mod ?k = Suc (?n mod ?k)" using assms(2) by (simp add: mod_Suc split: if_splits)
  have "Suc ?n < ?k \<longleftrightarrow> ?n < ?k"
  proof
    assume "?n < ?k"
    moreover have "Suc ?n \<noteq> ?k" using assms(2) by auto
    ultimately show "Suc ?n < ?k" by simp
  qed simp
  then show ?thesis by (simp add: published_at_def Let_def md engine_at_snoc)
qed

lemma apply_all_schedule:
  assumes "k \<noteq> 0"
  shows "length ms < 2 ^ 64 \<Longrightarrow>
     apply_all env ms (with_control 0 k False init_engine, None) =
       Inr (engine_at k ms (length ms), published_at env k ms)"
proof (induction ms rule: rev_induct)
  case Nil
  show ?case using assms by (simp add: engine_at_def published_at_def unat_gt_0)
next
  case (snoc m ms)
  let ?n = "length ms"
  have w: "apply_all env ms (with_control 0 k False init_engine, None) = Inr (engine_at k ms ?n, published_at env k ms)"
    using snoc by simp
  have st: "(handle m (engine_at k ms ?n))\<lparr>messages_processed := messages_processed (handle m (engine_at k ms ?n)) + 1\<rparr> =
      engine_at k (ms @ [m]) (Suc ?n)"
    by (simp add: engine_at_def handle_control) (simp add: with_control_def)
  have z: "messages_processed (engine_at k (ms @ [m]) (Suc ?n)) mod k = 0 \<longleftrightarrow> Suc ?n mod unat k = 0"
    using word_mod_zero [of "Suc ?n" k] snoc.prems by (simp add: engine_at_def)
  have i: "snapshot_interval (engine_at k (ms @ [m]) (Suc ?n)) = k"
    "snapshot_interval (handle m (engine_at k ms ?n)) = k"
    by (simp_all add: engine_at_def handle_control)
  have "published_at env k (ms @ [m]) = Some (build_snapshot (env st) st)"
    if "Suc ?n mod unat k = 0" and "st = engine_at k (ms @ [m]) (Suc ?n)" for st
    using that by (auto simp: published_at_def Let_def)
  then show ?case
    using assms published_snoc_keep [OF assms, of ms env m] z
    by (simp add: apply_all_snoc w apply_msg_def Let_def st maybe_publish_snapshot_def umod_def i publish_def)
qed

text \<open>
  The prices of a snapshot are strictly ordered after conversion to double: the bids of a
  book strictly descend and its asks strictly ascend.
\<close>

lemma snapshot_prices_ordered:
  assumes "engine_wf st" and "books st l = Some b"
  shows "sorted_wrt (>) (map ls_price (bs_bids (snap_book i b))) \<and>
         sorted_wrt (<) (map ls_price (bs_asks (snap_book i b)))"
proof -
  have "book_wf b" using wf_bookD [OF assms] by blast
  then have s: "sorted_wrt (map_compare Bid) (keys (ob_bids b))" "sorted_wrt (map_compare Ask) (keys (ob_asks b))"
    by (simp_all add: book_wf_def ml_invar_def)
  have p: "map ls_price (map snap_level m) = map to_double (keys m)" for m
    by (simp add: snap_level_def)
  have "sorted_wrt (>) (map to_double ps)" if "sorted_wrt (map_compare Bid) ps" for ps
    using that by (auto simp: sorted_wrt_map map_compare_def elim!: sorted_wrt_mono_rel [rotated] intro: to_double_strict)
  moreover have "sorted_wrt (<) (map to_double ps)" if "sorted_wrt (map_compare Ask) ps" for ps
    using that by (auto simp: sorted_wrt_map map_compare_def elim!: sorted_wrt_mono_rel [rotated] intro: to_double_strict)
  ultimately show ?thesis using s by (simp only: snap_book_def OrderBookSnapshot.select_convs p)
qed

section \<open>Properties\<close>

text \<open>
  Whatever symbols the instruments have, the symbol index of a snapshot is complete (every
  symbol of the snapshot is found under its lower-case spelling) and safe (every entry leads to a
  symbol of the snapshot that spells the key in lower case), so the handlers' \<^verbatim>\<open>books.at\<close> cannot
  throw.
\<close>

lemma symbol_index_sound_complete:
  assumes "env_ok env st" and "snap = build_snapshot env st"
  shows "(\<forall>s. map_of (ss_books snap) s \<noteq> None \<longrightarrow> map_of (ss_symbol_index snap) (to_lower s) \<noteq> None) \<and>
         (\<forall>lo s. map_of (ss_symbol_index snap) lo = Some s \<longrightarrow>
            to_lower s = lo \<and> map_of (ss_books snap) s \<noteq> None)"
proof -
  have idx: "ss_symbol_index snap = snap_index (env_symbols env)"
    by (simp add: assms(2) build_snapshot_def Let_def)
  have "set (env_symbols env) = dom (map_of (ss_books snap))" using assms by (simp add: env_ok_def)
  then show ?thesis
    unfolding idx using snap_index_sound [of "env_symbols env"] snap_index_complete [of _ "env_symbols env"]
    by blast
qed

text \<open>
  (C13) When the instruments have distinct symbols, a snapshot built in any iteration order shows
  under the symbol of every instrument a book with the symbol, trading state, locate, round lot
  size and market category of that instrument, the time of the last update of its order book, and
  for each price level of each side, in the order of the book, one entry with the price converted
  to double, the level's share total and its order count. The converted bid prices strictly
  descend and the ask prices strictly ascend. An instrument without a book has empty sides and
  timestamp 0. No other symbol occurs.
\<close>

theorem snapshot_shows_books:
  assumes "engine_wf st" and "symbols_distinct st" and "env_ok env st"
    and "shown = (\<lambda>(p, lvl). \<lparr>ls_price = to_double p, ls_total_shares = pl_total_shares lvl,
           ls_order_count = pl_order_count lvl\<rparr>)"
  shows "(\<forall>l i. instruments st l = Some i \<longrightarrow> (\<exists>bs.
            map_of (ss_books (build_snapshot env st)) (in_symbol i) = Some bs \<and>
            bs_symbol bs = in_symbol i \<and> bs_trading_state bs = in_trading_state i \<and>
            bs_stock_locate bs = in_stock_locate i \<and> bs_round_lot_size bs = in_round_lot_size i \<and>
            bs_market_category bs = in_market_category i \<and>
            (case books st l of
               None \<Rightarrow> bs_bids bs = [] \<and> bs_asks bs = [] \<and> bs_last_update_timestamp bs = 0
             | Some b \<Rightarrow> bs_bids bs = map shown (ob_bids b) \<and> bs_asks bs = map shown (ob_asks b) \<and>
                 bs_last_update_timestamp bs = ob_last_update_timestamp b) \<and>
            sorted_wrt (>) (map ls_price (bs_bids bs)) \<and> sorted_wrt (<) (map ls_price (bs_asks bs)))) \<and>
         dom (map_of (ss_books (build_snapshot env st))) = {in_symbol i | l i. instruments st l = Some i}"
proof (intro conjI allI impI)
  have "dom (books st) \<subseteq> dom (instruments st)" using assms(1) by (simp add: engine_wf_def)
  then show "dom (map_of (ss_books (build_snapshot env st))) = {in_symbol i | l i. instruments st l = Some i}"
    using snapshot_symbols [OF assms(3)] snapshot_all_symbols [OF assms(3)] by fastforce
next
  fix l i
  assume i: "instruments st l = Some i"
  have lev: "snap_level = shown" by (auto simp: assms(4) snap_level_def fun_eq_iff)
  show "\<exists>bs. map_of (ss_books (build_snapshot env st)) (in_symbol i) = Some bs \<and>
      bs_symbol bs = in_symbol i \<and> bs_trading_state bs = in_trading_state i \<and>
      bs_stock_locate bs = in_stock_locate i \<and> bs_round_lot_size bs = in_round_lot_size i \<and>
      bs_market_category bs = in_market_category i \<and>
      (case books st l of
         None \<Rightarrow> bs_bids bs = [] \<and> bs_asks bs = [] \<and> bs_last_update_timestamp bs = 0
       | Some b \<Rightarrow> bs_bids bs = map shown (ob_bids b) \<and> bs_asks bs = map shown (ob_asks b) \<and>
           bs_last_update_timestamp bs = ob_last_update_timestamp b) \<and>
      sorted_wrt (>) (map ls_price (bs_bids bs)) \<and> sorted_wrt (<) (map ls_price (bs_asks bs))"
  proof (cases "books st l")
    case None
    then show ?thesis using snapshot_book [OF assms(2,3) i] by (simp add: empty_snap_def)
  next
    case (Some b)
    then show ?thesis
      using snapshot_book [OF assms(2,3) i] snapshot_prices_ordered [OF assms(1) Some, of i]
      by (simp add: snap_book_def lev)
  qed
qed

text \<open>
  (C14) With a positive interval \<open>k\<close>, applying \<open>n\<close> messages to a fresh engine succeeds, counts
  them all, and leaves published the snapshot of the state after the last multiple of \<open>k\<close>
  messages, or nothing when fewer than \<open>k\<close> were applied; what a reader sees is never more than
  \<open>k - 1\<close> messages old.
\<close>

theorem publish_schedule:
  assumes "k \<noteq> 0" and "length ms < 2 ^ 64" and "n = length ms" and "j = n - n mod unat k"
    and "w = (set_snapshot_interval k init_engine, None)"
  shows "apply_all env ms w = Inr
     (with_control (of_nat n) k False (run_feed ms init_engine),
      if n < unat k then None
      else let st = with_control (of_nat j) k False (run_feed (take j ms) init_engine)
           in Some (build_snapshot (env st) st))"
proof -
  have "set_snapshot_interval k init_engine = with_control 0 k False init_engine"
    by (simp add: set_snapshot_interval_def with_control_def init_engine_def)
  then show ?thesis
    using apply_all_schedule [OF assms(1,2), of env]
    by (simp add: assms(3-5) published_at_def engine_at_def Let_def)
qed

section \<open>The properties on a small engine\<close>

text \<open>One bid for an instrument that was not announced: the placeholder instrument carries it.\<close>

definition one_bid :: Engine where
  "one_bid = handle (AddOrder (sample_add 1 CHR ''B'' 100 1000000)) init_engine"

definition one_bid_env :: "Engine \<Rightarrow> SnapEnv" where
  "one_bid_env st = \<lparr>env_books = [7], env_instruments = [7], env_symbols = [''UNKNOWN_7''], env_now_ms = 0\<rparr>"

lemma one_bid_wf: "engine_wf one_bid"
  unfolding one_bid_def by (rule wf_handle [OF engine_wf_init])

lemma one_bid_dom: "dom (books one_bid) = {7}" "dom (instruments one_bid) = {7}"
  by (simp_all add: one_bid_def sample_add_def handle_add_order_def add_order_closed ensure_instrument_def
      init_engine_def)

lemma one_bid_symbols: "symbols_distinct one_bid"
proof -
  have "instruments one_bid l = Some i \<Longrightarrow> l = 7" for l i
    using one_bid_dom(2) domI [of "instruments one_bid" l i] by simp
  then show ?thesis unfolding symbols_distinct_def by metis
qed

lemma one_bid_snapshot_keys: "map fst (ss_books (build_snapshot (one_bid_env one_bid) one_bid)) = [''UNKNOWN_7'']"
  by code_simp

lemma one_bid_env_ok: "env_ok (one_bid_env one_bid) one_bid"
  using arg_cong [OF one_bid_snapshot_keys, of set]
  by (simp add: env_ok_def one_bid_env_def one_bid_dom dom_map_of_conv_image_fst)

theorem snapshot_shows_books_witness:
  "\<exists>b bs. books one_bid 7 = Some b \<and>
     map_of (ss_books (build_snapshot (one_bid_env one_bid) one_bid)) ''UNKNOWN_7'' = Some bs \<and>
     map ls_total_shares (bs_bids bs) = map (pl_total_shares \<circ> snd) (ob_bids b) \<and>
     map ls_total_shares (bs_bids bs) = [100]"
proof -
  let ?P = "case (instruments one_bid 7, books one_bid 7) of
    (Some i, Some b) \<Rightarrow> in_symbol i = ''UNKNOWN_7'' \<and> map (pl_total_shares \<circ> snd) (ob_bids b) = [100] | _ \<Rightarrow> False"
  have ?P by code_simp
  then obtain i b where i: "instruments one_bid 7 = Some i" "books one_bid 7 = Some b" "in_symbol i = ''UNKNOWN_7''"
    "map (pl_total_shares \<circ> snd) (ob_bids b) = [100]" by (auto split: option.splits)
  with snapshot_shows_books [OF one_bid_wf one_bid_symbols one_bid_env_ok refl, THEN conjunct1, rule_format, OF i(1)]
  show ?thesis by (auto simp: o_def case_prod_beta)
qed

lemma symbol_index_sound_complete_witness:
  "map_of (ss_symbol_index (build_snapshot (one_bid_env one_bid) one_bid)) ''unknown_7'' \<noteq> None"
proof -
  let ?snap = "build_snapshot (one_bid_env one_bid) one_bid"
  have "map_of (ss_books ?snap) ''UNKNOWN_7'' \<noteq> None"
    using one_bid_snapshot_keys by (cases "ss_books ?snap") auto
  moreover have "to_lower ''UNKNOWN_7'' = ''unknown_7''" by code_simp
  ultimately show ?thesis
    using symbol_index_sound_complete [OF one_bid_env_ok refl] by metis
qed

lemma snapshot_prices_ordered_witness:
  "\<exists>b. books sample_engine 7 = Some b \<and> length (ob_bids b) = 1 \<and> length (ob_asks b) = 1 \<and>
     sorted_wrt (>) (map ls_price (bs_bids (snap_book empty_instrument b)))"
proof -
  have "(case books sample_engine 7 of None \<Rightarrow> False
         | Some b \<Rightarrow> length (ob_bids b) = 1 \<and> length (ob_asks b) = 1)" by code_simp
  then obtain b where b: "books sample_engine 7 = Some b" "length (ob_bids b) = 1" "length (ob_asks b) = 1"
    by (auto split: option.splits)
  with snapshot_prices_ordered [OF sample_wf b(1), of empty_instrument] show ?thesis by blast
qed

theorem publish_schedule_witness:
  "apply_all one_bid_env sample_feed (set_snapshot_interval 3 init_engine, None) = Inr
     (with_control 4 3 False sample_engine,
      let st = with_control 3 3 False (run_feed (take 3 sample_feed) init_engine)
      in Some (build_snapshot (one_bid_env st) st))"
  using publish_schedule [of 3 sample_feed _ _ _ one_bid_env, OF _ _ refl refl refl]
  by (simp add: sample_feed_def)

end
