(* ===== verification/Rest_Server.thy ===== *)
theory Rest_Server
  imports Snapshot_Properties
begin

text \<open>
  \<^verbatim>\<open>src/rest_server.cpp\<close>: the four GET handlers as functions of the published snapshot and the
  request. A JSON value is a tree; of its printing by the library's \<^verbatim>\<open>dump\<close> the documented
  exception is modelled, thrown when a string of the value is not valid UTF-8, and not the text. A
  response has the status the handler sets, \<^const>\<open>None\<close> when it leaves the library's default. What
  would escape the handler or be undefined is a value of \<open>rest_exn\<close>.
\<close>

section \<open>JSON, requests and responses\<close>

datatype json =
    JNull | JBool bool | JInt int | JDouble rat | JStr string
  | JArr "json list" | JObj "(string \<times> json) list"

record Response =
  rs_status :: "nat option"
  rs_body :: json

datatype rest_exn = OutOfRange | CastOverflow | SignedOverflow | NotUtf8

text \<open>
  Well-formed UTF-8 (RFC 3629): the ranges in which the bytes that follow a leading byte must lie,
  and the scan of a string with the ranges still to be met.
\<close>

definition utf8_lead :: "int \<Rightarrow> (int \<times> int) list option" where
  "utf8_lead b =
     (let tail = (0x80, 0xBF)
      in if b \<le> 0x7F then Some []
         else if 0xC2 \<le> b \<and> b \<le> 0xDF then Some [tail]
         else if b = 0xE0 then Some [(0xA0, 0xBF), tail]
         else if b = 0xED then Some [(0x80, 0x9F), tail]
         else if 0xE1 \<le> b \<and> b \<le> 0xEF then Some [tail, tail]
         else if b = 0xF0 then Some [(0x90, 0xBF), tail, tail]
         else if 0xF1 \<le> b \<and> b \<le> 0xF3 then Some [tail, tail, tail]
         else if b = 0xF4 then Some [(0x80, 0x8F), tail, tail]
         else None)"

fun utf8_scan :: "(int \<times> int) list \<Rightarrow> string \<Rightarrow> bool" where
  "utf8_scan rs [] = (rs = [])"
| "utf8_scan [] (c # cs) = (case utf8_lead (of_char c) of None \<Rightarrow> False | Some rs \<Rightarrow> utf8_scan rs cs)"
| "utf8_scan ((lo, hi) # rs) (c # cs) = (lo \<le> of_char c \<and> of_char c \<le> hi \<and> utf8_scan rs cs)"

definition utf8_ok :: "string \<Rightarrow> bool" where
  "utf8_ok s = utf8_scan [] s"

fun json_utf8 :: "json \<Rightarrow> bool" where
  "json_utf8 (JStr s) = utf8_ok s"
| "json_utf8 (JArr js) = list_all json_utf8 js"
| "json_utf8 (JObj kvs) = list_all (\<lambda>(k, v). utf8_ok k \<and> json_utf8 v) kvs"
| "json_utf8 j = True"

text \<open>\<^verbatim>\<open>res.set_content(j.dump(), ...)\<close> at the end of a handler.\<close>

definition dumped :: "Response \<Rightarrow> rest_exn + Response" where
  "dumped r = (if json_utf8 (rs_body r) then Inr r else Inl NotUtf8)"

definition respond :: "json \<Rightarrow> rest_exn + Response" where
  "respond j = dumped \<lparr>rs_status = None, rs_body = j\<rparr>"

definition fail :: "nat \<Rightarrow> string \<Rightarrow> rest_exn + Response" where
  "fail status msg = dumped \<lparr>rs_status = Some status, rs_body = JObj [(''error'', JStr msg)]\<rparr>"

definition trading_state_description :: "char \<Rightarrow> string" where
  "trading_state_description state =
     (if state = CHR ''T'' then ''Trading''
      else if state = CHR ''H'' then ''Halted''
      else if state = CHR ''P'' then ''Paused''
      else if state = CHR ''Q'' then ''Quotation only''
      else ''Unknown'')"

section \<open>GET /status and GET /instruments\<close>

definition get_status :: "int \<Rightarrow> publisher \<Rightarrow> rest_exn + Response" where
  "get_status now_ms pub =
     (case current pub of
        None \<Rightarrow> respond (JObj
          [(''messages_processed'', JInt 0), (''instruments_tracked'', JInt 0),
           (''snapshot_timestamp'', JInt 0), (''snapshot_age_ms'', JNull),
           (''pipeline_complete'', JBool False)])
      | Some snap \<Rightarrow> respond (JObj
          [(''messages_processed'', JInt (uint (ss_messages_processed snap))),
           (''instruments_tracked'', JInt (int (length (ss_books snap)))),
           (''snapshot_timestamp'', JInt (uint (ss_snapshot_timestamp snap))),
           (''snapshot_age_ms'', JInt (now_ms - sint (ss_snapshot_timestamp snap))),
           (''pipeline_complete'', JBool (ss_pipeline_complete snap))]))"

definition instrument_entry :: "OrderBookSnapshot \<Rightarrow> json" where
  "instrument_entry book = JObj
     [(''symbol'', JStr (bs_symbol book)), (''stock_locate'', JInt (uint (bs_stock_locate book))),
      (''trading_state'', JStr [bs_trading_state book]),
      (''trading_state_description'', JStr (trading_state_description (bs_trading_state book))),
      (''market_category'', if bs_market_category book \<noteq> CHR 0x00 then JStr [bs_market_category book] else JNull),
      (''round_lot_size'', if bs_round_lot_size book \<noteq> 0 then JInt (uint (bs_round_lot_size book)) else JNull)]"

text \<open>The order of the symbols is the iteration order of the snapshot's hash map.\<close>

definition get_instruments :: "string list \<Rightarrow> publisher \<Rightarrow> rest_exn + Response" where
  "get_instruments symbols pub =
     (case current pub of
        None \<Rightarrow> fail 503 ''snapshot not yet available''
      | Some snap \<Rightarrow>
          let instruments = map (\<lambda>s. instrument_entry (the (map_of (ss_books snap) s))) symbols
          in respond (JObj [(''count'', JInt (int (length instruments))), (''instruments'', JArr instruments)]))"

section \<open>The depth parameter\<close>

definition is_space :: "char \<Rightarrow> bool" where
  "is_space c \<longleftrightarrow> c \<in> {CHR '' '', CHR 0x09, CHR 0x0A, CHR 0x0B, CHR 0x0C, CHR 0x0D}"

definition is_digit :: "char \<Rightarrow> bool" where
  "is_digit c \<longleftrightarrow> 48 \<le> (of_char c :: nat) \<and> (of_char c :: nat) \<le> 57"

definition digits_value :: "string \<Rightarrow> int" where
  "digits_value ds = foldl (\<lambda>a c. a * 10 + (int (of_char c) - 48)) 0 ds"

text \<open>
  \<^verbatim>\<open>std::stoi\<close>: leading white space, an optional sign, decimal digits; the value and the number of
  characters used, or \<^const>\<open>None\<close> when it throws (no digits, or not an \<^verbatim>\<open>int\<close>).
\<close>

definition stoi :: "string \<Rightarrow> (int \<times> nat) option" where
  "stoi s =
     (let ws = takeWhile is_space s; r = dropWhile is_space s;
          sign = (case r of c # _ \<Rightarrow> if c = CHR ''-'' \<or> c = CHR ''+'' then [c] else [] | [] \<Rightarrow> []);
          ds = takeWhile is_digit (drop (length sign) r);
          v = (if sign = ''-'' then - digits_value ds else digits_value ds)
      in if ds = [] \<or> v < - (2 ^ 31) \<or> v \<ge> 2 ^ 31 then None
         else Some (v, length ws + length sign + length ds))"

text \<open>Either the message of the 400 response or the depth.\<close>

definition depth_param :: "string option \<Rightarrow> string + int" where
  "depth_param param =
     (case param of
        None \<Rightarrow> Inr 10
      | Some d \<Rightarrow>
          (case stoi d of
             None \<Rightarrow> Inl ''depth must be an integer''
           | Some (depth, pos) \<Rightarrow>
               if pos \<noteq> length d then Inl ''depth must be an integer''
               else if depth < 1 then Inl ''depth must be at least 1''
               else if depth > 50 then Inl ''depth must not exceed 50''
               else Inr depth))"

section \<open>GET /book/:symbol\<close>

definition level_json :: "PriceLevelSnapshot \<Rightarrow> json" where
  "level_json level = JObj [(''price'', JDouble (ls_price level)),
     (''total_shares'', JInt (uint (ls_total_shares level))),
     (''order_count'', JInt (uint (ls_order_count level)))]"

text \<open>The loop that pushes levels until \<open>depth\<close> of them are counted.\<close>

fun push_levels :: "int \<Rightarrow> int \<Rightarrow> PriceLevelSnapshot list \<Rightarrow> json list \<times> int" where
  "push_levels depth count [] = ([], count)"
| "push_levels depth count (level # levels) =
     (if count \<ge> depth then ([], count)
      else let (js, n) = push_levels depth (count + 1) levels in (level_json level # js, n))"

definition timestamp_json :: "u64 \<Rightarrow> json" where
  "timestamp_json t = (if t > 0 then JInt (uint t) else JNull)"

definition find_book :: "string \<Rightarrow> SystemSnapshot \<Rightarrow> (rest_exn + OrderBookSnapshot) option" where
  "find_book symbol snap =
     (case map_of (ss_symbol_index snap) (to_lower symbol) of
        None \<Rightarrow> None
      | Some canonical \<Rightarrow>
          (case map_of (ss_books snap) canonical of
             None \<Rightarrow> Some (Inl OutOfRange)
           | Some book \<Rightarrow> Some (Inr book)))"

definition get_book_handler :: "string \<Rightarrow> string option \<Rightarrow> publisher \<Rightarrow> rest_exn + Response" where
  "get_book_handler symbol param pub =
     (case current pub of
        None \<Rightarrow> fail 503 ''snapshot not yet available''
      | Some snap \<Rightarrow>
          (case depth_param param of
             Inl msg \<Rightarrow> fail 400 msg
           | Inr depth \<Rightarrow>
               (case find_book symbol snap of
                  None \<Rightarrow> fail 404 (''instrument not found: '' @ symbol)
                | Some (Inl e) \<Rightarrow> Inl e
                | Some (Inr book) \<Rightarrow>
                    let (bids, bid_count) = push_levels depth 0 (bs_bids book);
                        (asks, ask_count) = push_levels depth 0 (bs_asks book)
                    in respond (JObj
                         [(''symbol'', JStr (bs_symbol book)), (''trading_state'', JStr [bs_trading_state book]),
                          (''last_update_timestamp'', timestamp_json (bs_last_update_timestamp book)),
                          (''bid_count'', JInt bid_count), (''ask_count'', JInt ask_count),
                          (''bids'', JArr bids), (''asks'', JArr asks)]))))"

section \<open>GET /book/:symbol/top\<close>

definition best_json :: "PriceLevelSnapshot list \<Rightarrow> json" where
  "best_json levels = (case levels of [] \<Rightarrow> JNull | l # _ \<Rightarrow> level_json l)"

text \<open>Whether the book is crossed, and the spread, when both sides have a level.\<close>

definition spread_crossed :: "PriceLevelSnapshot list \<Rightarrow> PriceLevelSnapshot list \<Rightarrow> rest_exn + bool \<times> json" where
  "spread_crossed bids asks =
     (case (bids, asks) of
        (b # _, a # _) \<Rightarrow>
          (case (raw_of_double (ls_price a), raw_of_double (ls_price b)) of
             (Some ask_raw, Some bid_raw) \<Rightarrow>
               let d = ask_raw - bid_raw
               in if d < - (2 ^ 31) \<or> d \<ge> 2 ^ 31 then Inl SignedOverflow
                  else Inr (ask_raw < bid_raw, JDouble (fl (of_int d / 10000)))
           | _ \<Rightarrow> Inl CastOverflow)
      | _ \<Rightarrow> Inr (False, JNull))"

definition get_top :: "string \<Rightarrow> publisher \<Rightarrow> rest_exn + Response" where
  "get_top symbol pub =
     (case current pub of
        None \<Rightarrow> fail 503 ''snapshot not yet available''
      | Some snap \<Rightarrow>
          (case find_book symbol snap of
             None \<Rightarrow> fail 404 (''instrument not found: '' @ symbol)
           | Some (Inl e) \<Rightarrow> Inl e
           | Some (Inr book) \<Rightarrow>
               (case spread_crossed (bs_bids book) (bs_asks book) of
                  Inl e \<Rightarrow> Inl e
                | Inr (crossed, spread) \<Rightarrow> respond (JObj
                    [(''symbol'', JStr (bs_symbol book)), (''trading_state'', JStr [bs_trading_state book]),
                     (''last_update_timestamp'', timestamp_json (bs_last_update_timestamp book)),
                     (''best_bid'', best_json (bs_bids book)), (''best_ask'', best_json (bs_asks book)),
                     (''spread'', spread), (''crossed'', JBool crossed)]))))"

end
