(* ===== verification/Rest_Properties.thy ===== *)
theory Rest_Properties
  imports Rest_Server
begin

text \<open>
  What a client of the REST interface can rely on: validation of the depth parameter,
  case-insensitive lookup, and the contents of the book and top-of-book responses in terms of the
  engine state the snapshot was built from.
\<close>

section \<open>Depth\<close>

lemma digit_of_nat: "d < 10 \<Longrightarrow> is_digit (digit_char d) \<and> (of_char (digit_char d) :: nat) = 48 + d"
  by (simp add: digit_char_def of_char_of is_digit_def)

lemma digits_to_string: "(\<forall>c \<in> set (to_string n). is_digit c) \<and> digits_value (to_string n) = int n"
proof (induction n rule: to_string.induct)
  case (1 n)
  show ?case
  proof (cases "n < 10")
    case True
    then show ?thesis using digit_of_nat [of n] by (simp add: to_string.simps [of n] digits_value_def)
  next
    case False
    then show ?thesis
      using 1 digit_of_nat [of "n mod 10"]
      by (simp add: to_string.simps [of n] digits_value_def) (simp add: zdiv_int zmod_int)
  qed
qed

lemma digit_not_special: "is_digit c \<Longrightarrow> \<not> is_space c \<and> c \<noteq> CHR ''-'' \<and> c \<noteq> CHR ''+''"
  by (auto simp: is_digit_def is_space_def)

lemma stoi_digits:
  assumes "ds \<noteq> []" and "\<forall>c \<in> set ds. is_digit c"
  shows "stoi ds = (if digits_value ds < - (2 ^ 31) \<or> digits_value ds \<ge> 2 ^ 31 then None
                    else Some (digits_value ds, length ds))"
proof -
  obtain c cs where ds: "ds = c # cs" using assms(1) by (cases ds) auto
  then have c: "\<not> is_space c" "c \<noteq> CHR ''-''" "c \<noteq> CHR ''+''" using assms(2) digit_not_special by auto
  have "takeWhile is_digit ds = ds" using assms(2) by simp
  then show ?thesis using c assms(1) by (simp add: stoi_def ds Let_def)
qed

lemma depth_to_string:
  "depth_param (Some (to_string n)) =
     (if n \<ge> 2 ^ 31 then Inl ''depth must be an integer''
      else if n = 0 then Inl ''depth must be at least 1''
      else if n > 50 then Inl ''depth must not exceed 50'' else Inr (int n))"
  using stoi_digits [of "to_string n"] digits_to_string [of n] by (simp add: depth_param_def)

lemma depth_range: "depth_param p = Inr d \<Longrightarrow> 1 \<le> d \<and> d \<le> 50"
  by (auto simp: depth_param_def split: option.splits if_splits)

lemma push_levels_eq:
  "count \<le> depth \<Longrightarrow> push_levels depth count ls =
     (map level_json (take (nat (depth - count)) ls), min depth (count + int (length ls)))"
proof (induction ls arbitrary: count)
  case (Cons l ls)
  show ?case
  proof (cases "count = depth")
    case False
    then have "count + 1 \<le> depth" and "nat (depth - count) = Suc (nat (depth - (count + 1)))"
      using Cons.prems by auto
    with Cons.IH [of "count + 1"] show ?thesis using False Cons.prems by simp
  qed simp
qed simp

section \<open>Printing\<close>

lemma utf8_scan_append: "utf8_scan rs a \<Longrightarrow> utf8_scan rs (a @ b) = utf8_scan [] b"
  by (induction rs a rule: utf8_scan.induct) (auto split: option.splits)

lemma utf8_append: "utf8_ok a \<Longrightarrow> utf8_ok (a @ b) = utf8_ok b"
  by (simp add: utf8_ok_def utf8_scan_append)

lemma utf8_keys [simp]:
  "utf8_ok ''error''" "utf8_ok ''symbol''" "utf8_ok ''trading_state''" "utf8_ok ''last_update_timestamp''"
  "utf8_ok ''bid_count''" "utf8_ok ''ask_count''" "utf8_ok ''bids''" "utf8_ok ''asks''" "utf8_ok ''price''"
  "utf8_ok ''total_shares''" "utf8_ok ''order_count''" "utf8_ok ''best_bid''" "utf8_ok ''best_ask''"
  "utf8_ok ''spread''" "utf8_ok ''crossed''" "utf8_ok ''messages_processed''" "utf8_ok ''instruments_tracked''"
  "utf8_ok ''snapshot_timestamp''" "utf8_ok ''snapshot_age_ms''" "utf8_ok ''pipeline_complete''"
  "utf8_ok ''snapshot not yet available''" "utf8_ok ''depth must be an integer''"
  "utf8_ok ''depth must be at least 1''" "utf8_ok ''depth must not exceed 50''"
  by (simp_all add: utf8_ok_def utf8_lead_def)

lemma utf8_not_found [simp]: "utf8_ok (''instrument not found: '' @ s) = utf8_ok s"
  by (rule utf8_append) (simp add: utf8_ok_def utf8_lead_def)

lemma json_utf8_parts [simp]:
  "json_utf8 (level_json l)" "json_utf8 (timestamp_json t)" "json_utf8 (best_json ls)"
  "list_all json_utf8 (map level_json ls)"
  by (auto simp: level_json_def timestamp_json_def best_json_def list_all_iff split: list.split)



section \<open>Lookup\<close>

text \<open>No two instruments have symbols that differ in case only.\<close>

definition lower_distinct :: "Engine \<Rightarrow> bool" where
  "lower_distinct st \<longleftrightarrow>
     (\<forall>l l' i i'. instruments st l = Some i \<and> instruments st l' = Some i' \<and>
        to_lower (in_symbol i) = to_lower (in_symbol i') \<longrightarrow> l = l')"

lemma lower_distinct_symbols: "lower_distinct st \<Longrightarrow> symbols_distinct st"
  unfolding lower_distinct_def symbols_distinct_def by metis

lemma index_facts:
  assumes "env_ok env st" and "snap = build_snapshot env st"
  shows "map_of (ss_books snap) s \<noteq> None \<Longrightarrow> map_of (ss_symbol_index snap) (to_lower s) \<noteq> None"
    and "map_of (ss_symbol_index snap) lo = Some c \<Longrightarrow> to_lower c = lo \<and> map_of (ss_books snap) c \<noteq> None"
proof -
  have idx: "ss_symbol_index snap = snap_index (env_symbols env)"
    by (simp add: assms(2) build_snapshot_def Let_def)
  have k: "set (env_symbols env) = dom (map_of (ss_books snap))" using assms by (simp add: env_ok_def)
  show "map_of (ss_books snap) s \<noteq> None \<Longrightarrow> map_of (ss_symbol_index snap) (to_lower s) \<noteq> None"
    unfolding idx using snap_index_complete [of s "env_symbols env"] k by blast
  show "map_of (ss_symbol_index snap) lo = Some c \<Longrightarrow> to_lower c = lo \<and> map_of (ss_books snap) c \<noteq> None"
    unfolding idx using snap_index_sound [of "env_symbols env" lo c] k by blast
qed

definition shown_book :: "Engine \<Rightarrow> u16 \<Rightarrow> InstrumentInfo \<Rightarrow> OrderBookSnapshot" where
  "shown_book st l i = (case books st l of Some b \<Rightarrow> snap_book i b | None \<Rightarrow> empty_snap i)"

lemma find_book_instrument:
  assumes "engine_wf st" and "env_ok env st" and "lower_distinct st" and "instruments st l = Some i"
    and "to_lower s = to_lower (in_symbol i)"
  shows "find_book s (build_snapshot env st) = Some (Inr (shown_book st l i))"
proof -
  let ?snap = "build_snapshot env st"
  have bk: "map_of (ss_books ?snap) (in_symbol i) = Some (shown_book st l i)"
    using snapshot_book [OF lower_distinct_symbols [OF assms(3)] assms(2,4)] by (simp add: shown_book_def)
  then obtain c where c: "map_of (ss_symbol_index ?snap) (to_lower (in_symbol i)) = Some c"
    using index_facts(1) [OF assms(2) refl, of "in_symbol i"] by auto
  from index_facts(2) [OF assms(2) refl c]
  have lc: "to_lower c = to_lower (in_symbol i)" and "map_of (ss_books ?snap) c \<noteq> None" by auto
  then obtain l' i' where i': "instruments st l' = Some i'" "in_symbol i' = c"
    using snapshot_symbols [OF assms(2), of c] assms(1) by (auto simp: engine_wf_def)
  then have "l' = l" using assms(3,4) lc unfolding lower_distinct_def by metis
  then have "c = in_symbol i" using i' assms(4) by simp
  then show ?thesis by (simp add: find_book_def assms(5) c bk)
qed







section \<open>Spread\<close>

lemma spread_of_sides:
  "spread_crossed (map snap_level bid_side) (map snap_level ask_side) =
     (case (bid_side, ask_side) of
        ((pb, _) # _, (pa, _) # _) \<Rightarrow>
          if units pa < 2 ^ 31 \<and> units pb < 2 ^ 31
          then Inr (units pa < units pb, JDouble (fl (of_int (units pa - units pb) / 10000)))
          else Inl CastOverflow
      | _ \<Rightarrow> Inr (False, JNull))"
proof -
  have "units pb < 2147483648 \<Longrightarrow> \<not> units pa - units pb < - 2147483648"
    and "units pa < 2147483648 \<Longrightarrow> \<not> 2147483648 \<le> units pa - units pb" for pa pb
    using units_bounds(1) [of pa] units_bounds(1) [of pb] by linarith+
  then show ?thesis
    by (auto simp: spread_crossed_def snap_level_def raw_of_double_recovers Let_def split: list.split)
qed

lemma spread_json: "spread_crossed x y = Inr (c, sp) \<Longrightarrow> json_utf8 sp"
  by (auto simp: spread_crossed_def Let_def split: list.splits option.splits if_splits)

section \<open>Properties\<close>

text \<open>
  The depth parameter of a book request: the decimal numbers 1 to 50 are accepted as they
  are, 0 and larger numbers are rejected with the matching message, a number beyond the range of
  an \<^verbatim>\<open>int\<close> is rejected as not an integer, no parameter means 10, and whatever is accepted lies
  between 1 and 50.
\<close>

lemma depth_validation:
  "depth_param (Some (to_string n)) =
     (if n \<ge> 2 ^ 31 then Inl ''depth must be an integer''
      else if n = 0 then Inl ''depth must be at least 1''
      else if n > 50 then Inl ''depth must not exceed 50'' else Inr (int n)) \<and>
   depth_param None = Inr 10 \<and> depth_param p \<notin> {Inr d | d. d < 1 \<or> d > 50}"
  using depth_to_string [of n] depth_range [of p] by (fastforce simp: depth_param_def)

lemma book_reply:
  assumes "engine_wf st" and "env_ok env st" and "lower_distinct st" and "instruments st l = Some i"
    and "to_lower s = to_lower (in_symbol i)" and "depth_param p = Inr d" and "book = shown_book st l i"
  shows "get_book_handler s p (Some (build_snapshot env st)) =
     (if utf8_ok (in_symbol i) \<and> utf8_ok [in_trading_state i] then Inr \<lparr>rs_status = None, rs_body = JObj
        [(''symbol'', JStr (in_symbol i)), (''trading_state'', JStr [in_trading_state i]),
         (''last_update_timestamp'', timestamp_json (bs_last_update_timestamp book)),
         (''bid_count'', JInt (min d (int (length (bs_bids book))))),
         (''ask_count'', JInt (min d (int (length (bs_asks book))))),
         (''bids'', JArr (map level_json (take (nat d) (bs_bids book)))),
         (''asks'', JArr (map level_json (take (nat d) (bs_asks book))))]\<rparr>
      else Inl NotUtf8)"
proof -
  have "bs_symbol book = in_symbol i" "bs_trading_state book = in_trading_state i"
    by (auto simp: assms(7) shown_book_def snap_book_def empty_snap_def split: option.split)
  then show ?thesis
    using find_book_instrument [OF assms(1-5)] depth_range [OF assms(6)]
    by (simp add: get_book_handler_def current_def assms(6,7) push_levels_eq respond_def dumped_def del: json_utf8.simps(2))
      (simp add: respond_def dumped_def)
qed

text \<open>
  (C24) The whole outcome of a request for the top of the book of an instrument, when no two
  instruments have symbols that differ in case only. The answer shows for each side its best level
  with the converted price, share total and order count, or null for an empty side. With both
  sides, the book is reported as crossed exactly when the best ask is below the best bid, and the
  spread is the double nearest to the exact difference of the two fixed-point prices, negative when
  crossed; with an empty side the spread is null. When both sides are there and a best price is
  214748.3648 or more, the cast to a 32-bit integer is undefined; otherwise the handler answers,
  unless the symbol or the trading state is not valid UTF-8.
\<close>

theorem top_response:
  assumes "engine_wf st" and "env_ok env st" and "lower_distinct st" and "instruments st l = Some i"
    and "to_lower s = to_lower (in_symbol i)"
    and "(bid_side, ask_side, t) = (case books st l of None \<Rightarrow> ([], [], 0)
           | Some b \<Rightarrow> (ob_bids b, ob_asks b, ob_last_update_timestamp b))"
    and "best = (\<lambda>side. case side of [] \<Rightarrow> JNull
           | (p, lvl) # _ \<Rightarrow> JObj [(''price'', JDouble (to_double p)), (''total_shares'', JInt (uint (pl_total_shares lvl))),
               (''order_count'', JInt (uint (pl_order_count lvl)))])"
    and "answer = (\<lambda>spread crossed. if utf8_ok (in_symbol i) \<and> utf8_ok [in_trading_state i]
           then Inr \<lparr>rs_status = None, rs_body = JObj
             [(''symbol'', JStr (in_symbol i)), (''trading_state'', JStr [in_trading_state i]),
              (''last_update_timestamp'', if t = 0 then JNull else JInt (uint t)),
              (''best_bid'', best bid_side), (''best_ask'', best ask_side),
              (''spread'', spread), (''crossed'', JBool crossed)]\<rparr>
           else Inl NotUtf8)"
  shows "get_top s (Some (build_snapshot env st)) =
     (case (bid_side, ask_side) of
        ((pb, _) # _, (pa, _) # _) \<Rightarrow>
          if units pa < 2 ^ 31 \<and> units pb < 2 ^ 31
          then answer (JDouble (fl (of_int (units pa - units pb) / 10000))) (units pa < units pb)
          else Inl CastOverflow
      | _ \<Rightarrow> answer JNull False)"
proof -
  let ?book = "shown_book st l i"
  have found: "find_book s (build_snapshot env st) = Some (Inr ?book)" by (rule find_book_instrument [OF assms(1-5)])
  have sides: "bs_bids ?book = map snap_level bid_side" "bs_asks ?book = map snap_level ask_side"
    "bs_last_update_timestamp ?book = t" "bs_symbol ?book = in_symbol i" "bs_trading_state ?book = in_trading_state i"
    using assms(6) by (auto simp: shown_book_def snap_book_def empty_snap_def split: option.splits)
  have best: "best_json (map snap_level side) = best side" for side
    by (auto simp: best_json_def level_json_def snap_level_def assms(7) split: list.split)
  have time: "timestamp_json t = (if t = 0 then JNull else JInt (uint t))"
    by (simp add: timestamp_json_def word_gt_0)
  have answer: "answer sp c = respond (JObj
      [(''symbol'', JStr (bs_symbol ?book)), (''trading_state'', JStr [bs_trading_state ?book]),
       (''last_update_timestamp'', timestamp_json (bs_last_update_timestamp ?book)),
       (''best_bid'', best_json (bs_bids ?book)), (''best_ask'', best_json (bs_asks ?book)),
       (''spread'', sp), (''crossed'', JBool c)])" if "json_utf8 sp" for sp c
    using that unfolding assms(8) sides time [symmetric] best [symmetric] by (simp add: respond_def dumped_def)
  have "get_top s (Some (build_snapshot env st)) =
      (case spread_crossed (map snap_level bid_side) (map snap_level ask_side) of
         Inl e \<Rightarrow> Inl e | Inr (c, sp) \<Rightarrow> if json_utf8 sp then answer sp c else Inl NotUtf8)"
    using spread_json by (auto simp: get_top_def current_def found sides(1,2) answer split: sum.split prod.split)
  then show ?thesis using spread_of_sides [of bid_side ask_side] by (auto split: list.split)
qed


text \<open>
  Before the first snapshot is published the status handler answers with zeros and the three
  other handlers answer 503.
\<close>

lemma before_first_snapshot:
  "(\<exists>r. get_status now None = Inr r \<and> rs_status r = None) \<and>
   (\<exists>r. get_instruments syms None = Inr r \<and> rs_status r = Some 503) \<and>
   (\<exists>r. get_book_handler s p None = Inr r \<and> rs_status r = Some 503) \<and>
   (\<exists>r. get_top s None = Inr r \<and> rs_status r = Some 503)"
  by (simp add: get_status_def get_instruments_def get_book_handler_def get_top_def current_def
      respond_def fail_def dumped_def)

text \<open>
  With a best ask of 214748.3648 or more the cast of the top handler to a 32-bit integer
  overflows.
\<close>

lemma large_price_overflows_top:
  assumes "ob_bids b = (pb, lb) # bs" and "ob_asks b = (pa, la) # as" and "2 ^ 31 \<le> units pa"
  shows "spread_crossed (bs_bids (snap_book i b)) (bs_asks (snap_book i b)) = Inl CastOverflow"
  using assms by (simp add: spread_crossed_def snap_book_def snap_level_def raw_of_double_recovers)


section \<open>The properties on a two-sided book\<close>

text \<open>A bid at 100.00 and an ask at 100.01 on an unannounced instrument.\<close>

definition two_sided :: Engine where
  "two_sided = handle (AddOrder (sample_add 2 CHR ''S'' 70 1000100)) one_bid"

abbreviation two_sided_env :: SnapEnv where
  "two_sided_env \<equiv> one_bid_env two_sided"

lemma two_sided_wf: "engine_wf two_sided"
  unfolding two_sided_def by (rule wf_handle [OF one_bid_wf])

lemma two_sided_dom: "dom (books two_sided) = {7}" "dom (instruments two_sided) = {7}"
  by (simp_all add: two_sided_def one_bid_def sample_add_def handle_add_order_def add_order_closed
      ensure_instrument_def init_engine_def)

lemma two_sided_only: "instruments two_sided l = Some i \<Longrightarrow> l = 7"
  using two_sided_dom(2) domI [of "instruments two_sided" l i] by simp

lemma two_sided_lower: "lower_distinct two_sided"
  unfolding lower_distinct_def using two_sided_only by metis

lemma two_sided_keys: "map fst (ss_books (build_snapshot two_sided_env two_sided)) = [''UNKNOWN_7'']"
  by code_simp

lemma two_sided_env_ok: "env_ok two_sided_env two_sided"
  using arg_cong [OF two_sided_keys, of set]
  by (simp add: env_ok_def one_bid_env_def two_sided_dom dom_map_of_conv_image_fst)

lemma two_sided_instrument: "instruments two_sided 7 = Some (placeholder 7)"
  by code_simp

lemma two_sided_name: "to_lower ''Unknown_7'' = to_lower (in_symbol (placeholder 7))"
  by code_simp

lemma placeholder_utf8: "utf8_ok (in_symbol (placeholder 7)) \<and> utf8_ok [in_trading_state (placeholder 7)]"
  by code_simp

theorem top_response_witness:
  "\<exists>a b c d e f. get_top ''Unknown_7'' (Some (build_snapshot two_sided_env two_sided)) =
     Inr \<lparr>rs_status = None, rs_body = JObj [a, b, c, d, (''best_ask'', JObj [(''price'', JDouble (to_double (Price 1000100))),
       (''total_shares'', JInt 70), (''order_count'', JInt 1)]), e, f]\<rparr>"
proof -
  have "(case books two_sided 7 of None \<Rightarrow> False
         | Some b \<Rightarrow> map fst (ob_bids b) = [Price 1000000] \<and>
             map (\<lambda>(p, lvl). (p, pl_total_shares lvl, pl_order_count lvl)) (ob_asks b) = [(Price 1000100, 70, 1)])"
    by code_simp
  then obtain b lb la where b: "books two_sided 7 = Some b" "ob_bids b = (Price 1000000, lb) # []"
    "ob_asks b = (Price 1000100, la) # []" "pl_total_shares la = 70" "pl_order_count la = 1"
    by (auto split: option.splits)
  have u: "units (Price 1000100) < 2 ^ 31" "units (Price 1000000) < 2 ^ 31" by (simp_all add: units_def)
  have s: "(ob_bids b, ob_asks b, ob_last_update_timestamp b) = (case books two_sided 7 of None \<Rightarrow> ([], [], 0)
      | Some b \<Rightarrow> (ob_bids b, ob_asks b, ob_last_update_timestamp b))" by (simp add: b(1))
  show ?thesis
    using top_response [OF two_sided_wf two_sided_env_ok two_sided_lower two_sided_instrument two_sided_name s refl refl]
      u placeholder_utf8 by (simp add: b)
qed


text \<open>A requested symbol of the single byte 255, as in \<^verbatim>\<open>GET /book/%FF\<close>, is not answered.\<close>

lemma invalid_symbol_throws:
  "get_book_handler [CHR 0xFF] None (Some (build_snapshot two_sided_env two_sided)) = Inl NotUtf8"
  by code_simp

lemma large_price_overflows_top_witness:
  "spread_crossed
     (bs_bids (snap_book empty_instrument (empty_book\<lparr>ob_bids := [(Price 1, empty_level)], ob_asks := [(Price 2147483648, empty_level)]\<rparr>)))
     (bs_asks (snap_book empty_instrument (empty_book\<lparr>ob_bids := [(Price 1, empty_level)], ob_asks := [(Price 2147483648, empty_level)]\<rparr>)))
   = Inl CastOverflow"
  by (rule large_price_overflows_top [where pb = "Price 1" and pa = "Price 2147483648"])
    (simp_all add: empty_book_def units_def)

end
