(* ===== verification/Feed_Reader.thy ===== *)
theory Feed_Reader
  imports Byte_Order Messages
begin

text \<open>
  \<^verbatim>\<open>src/feed_reader.cpp\<close>: reading length-prefixed frames from a file. The system call \<^verbatim>\<open>read\<close> is a
  parameter \<open>sys_read\<close> on an abstract state of the descriptor; \<open>posix_read\<close> is what its manual
  promises for a regular file without I/O errors (at most the requested number of the next bytes,
  none only at the end). Exceptions are values of \<open>feed_exn\<close>.
\<close>

section \<open>The reader\<close>

datatype read_result = ReadError | ReadBytes "u8 list"

datatype feed_exn = CannotOpen | TruncatedRead | ReadFailed | ZeroLengthFrame | TruncatedFrame

definition write_at :: "nat \<Rightarrow> u8 list \<Rightarrow> u8 list \<Rightarrow> u8 list" where
  "write_at off bs buf = take off buf @ bs @ drop (off + length bs) buf"

text \<open>
  The loop of \<^verbatim>\<open>read_exact\<close> from \<open>total_n\<close> bytes on: the outcome, the buffer and the descriptor.
\<close>

function read_exact :: "(nat \<Rightarrow> 's \<Rightarrow> read_result \<times> 's) \<Rightarrow> nat \<Rightarrow> nat \<Rightarrow> u8 list \<Rightarrow> 's \<Rightarrow>
    (feed_exn + bool) \<times> u8 list \<times> 's" where
  "read_exact sys_read n total_n buf s =
     (if total_n < n then
        (case sys_read (n - total_n) s of
           (ReadError, s') \<Rightarrow> (Inl ReadFailed, buf, s')
         | (ReadBytes bs, s') \<Rightarrow>
             if bs = [] then (if total_n = 0 then (Inr False, buf, s') else (Inl TruncatedRead, buf, s'))
             else read_exact sys_read n (total_n + length bs) (write_at total_n bs buf) s')
      else (Inr True, buf, s))"
  by pat_completeness auto
termination by (relation "measure (\<lambda>(_, n, total_n, _, _). n - total_n)") (auto simp: neq_Nil_conv)

declare read_exact.simps [simp del]

definition feed_next_message :: "(nat \<Rightarrow> 's \<Rightarrow> read_result \<times> 's) \<Rightarrow> 's \<Rightarrow>
    (feed_exn + MessageBuffer option) \<times> 's" where
  "feed_next_message sys_read s =
     (case read_exact sys_read 2 0 (replicate 2 0) s of
        (Inl e, _, s1) \<Rightarrow> (Inl e, s1)
      | (Inr False, _, s1) \<Rightarrow> (Inr None, s1)
      | (Inr True, len_buf, s1) \<Rightarrow>
          let msg_len = push_bit 8 (ucast (len_buf ! 0)) OR ucast (len_buf ! 1) :: u16
          in if msg_len = 0 then (Inl ZeroLengthFrame, s1)
             else (case read_exact sys_read (unat msg_len) 0 (replicate (unat msg_len) 0) s1 of
                     (Inl _, _, s2) \<Rightarrow> (Inl TruncatedFrame, s2)
                   | (Inr _, buf, s2) \<Rightarrow> (Inr (Some buf), s2)))"

section \<open>Reading a regular file\<close>

definition posix_read :: "(nat \<Rightarrow> 's \<Rightarrow> read_result \<times> 's) \<Rightarrow> ('s \<Rightarrow> u8 list) \<Rightarrow> bool" where
  "posix_read sys_read contents \<longleftrightarrow>
     (\<forall>n s. n > 0 \<longrightarrow>
        (\<exists>bs s'. sys_read n s = (ReadBytes bs, s') \<and> contents s = bs @ contents s' \<and>
           length bs \<le> n \<and> (bs = [] \<longrightarrow> contents s = [])))"

lemma posix_readE:
  assumes "posix_read sys_read contents" and "n > 0"
  obtains bs s' where "sys_read n s = (ReadBytes bs, s')" and "contents s = bs @ contents s'"
    and "length bs \<le> n" and "bs = [] \<Longrightarrow> contents s = []"
  using assms unfolding posix_read_def by blast

text \<open>The outcome of \<open>read_exact\<close> as a function of the bytes left in the file.\<close>

definition read_outcome :: "nat \<Rightarrow> nat \<Rightarrow> u8 list \<Rightarrow> feed_exn + bool" where
  "read_outcome n total_n rest =
     (if n \<le> total_n + length rest then Inr True
      else if total_n = 0 \<and> rest = [] then Inr False else Inl TruncatedRead)"

lemma read_exact_spec:
  assumes "posix_read sys_read contents"
  shows "total_n \<le> n \<Longrightarrow> length buf = n \<Longrightarrow> read_exact sys_read n total_n buf s = (r, buf', s') \<Longrightarrow>
     r = read_outcome n total_n (contents s) \<and>
     (r = Inr True \<longrightarrow> buf' = take total_n buf @ take (n - total_n) (contents s) \<and>
        contents s' = drop (n - total_n) (contents s)) \<and>
     (r = Inr False \<longrightarrow> buf' = buf \<and> contents s' = [])"
proof (induction "n - total_n" arbitrary: total_n buf s rule: less_induct)
  case less
  show ?case
  proof (cases "total_n < n")
    case False
    then show ?thesis using less.prems by (auto simp: read_exact.simps [of _ n] read_outcome_def)
  next
    case True
    obtain bs s1 where rd: "sys_read (n - total_n) s = (ReadBytes bs, s1)" "contents s = bs @ contents s1"
      "length bs \<le> n - total_n" "bs = [] \<Longrightarrow> contents s = []"
      using posix_readE [OF assms, of "n - total_n" s] True by auto
    show ?thesis
    proof (cases "bs = []")
      case bs: True
      then show ?thesis
        using less.prems rd True by (auto simp: read_exact.simps [of _ n] read_outcome_def split: if_splits)
    next
      case bs: False
      let ?buf = "write_at total_n bs buf"
      have "read_exact sys_read n (total_n + length bs) ?buf s1 = (r, buf', s')"
        using less.prems rd(1) True bs by (simp add: read_exact.simps [of _ n total_n])
      moreover have "n - (total_n + length bs) < n - total_n" using bs True by (simp add: diff_less_mono2)
      moreover have "length ?buf = n" using less.prems rd(3) True by (simp add: write_at_def)
      moreover have "take (total_n + length bs) ?buf = take total_n buf @ bs"
        using less.prems rd(3) True by (simp add: write_at_def)
      ultimately show ?thesis
        using less.hyps [of "total_n + length bs" ?buf s1] rd bs less.prems True
        by (auto simp: read_outcome_def split: if_splits)
    qed
  qed
qed

section \<open>Frames of a file\<close>

text \<open>
  The frame format as \<^verbatim>\<open>feed_reader.h\<close> documents it, on the bytes left in the file: the outcome of
  the next call and the bytes left after it. Nothing only at a clean end of the file; a frame that
  is cut short anywhere is an error.
\<close>

fun documented_frame :: "u8 list \<Rightarrow> (feed_exn + MessageBuffer option) \<times> u8 list" where
  "documented_frame [] = (Inr None, [])"
| "documented_frame [b] = (Inl TruncatedRead, [])"
| "documented_frame (hi # lo # rest) =
     (let len = 256 * unat hi + unat lo
      in if len = 0 then (Inl ZeroLengthFrame, rest)
         else if length rest < len then (Inl TruncatedFrame, [])
         else (Inr (Some (take len rest)), drop len rest))"

text \<open>A file of which nothing but a non-zero length prefix is left.\<close>

definition lone_prefix :: "u8 list \<Rightarrow> bool" where
  "lone_prefix bs \<longleftrightarrow> length bs = 2 \<and> bs \<noteq> [0, 0]"

text \<open>
  What the code does with the bytes left in the file. It departs from the documented format on a
  lone prefix, for which it makes up a frame of zero bytes; \<open>next_frame_documented\<close> shows that this
  is the only departure.
\<close>

definition next_frame :: "u8 list \<Rightarrow> (feed_exn + MessageBuffer option) \<times> u8 list" where
  "next_frame bs =
     (if bs = [] then (Inr None, [])
      else if length bs < 2 then (Inl TruncatedRead, [])
      else let len = be_val (take 2 bs); rest = drop 2 bs
           in if len = 0 then (Inl ZeroLengthFrame, rest)
              else if rest = [] then (Inr (Some (replicate len 0)), [])
              else if length rest < len then (Inl TruncatedFrame, [])
              else (Inr (Some (take len rest)), drop len rest))"

lemma be_val_pair: "be_val [hi, lo] = 256 * unat hi + unat (lo :: u8)"
  by (simp add: be_val_def)

lemma next_frame_documented: "\<not> lone_prefix bs \<Longrightarrow> next_frame bs = documented_frame bs"
proof (induction bs rule: documented_frame.induct)
  case (3 hi lo rest)
  then have "rest = [] \<Longrightarrow> hi = 0 \<and> lo = 0" by (auto simp: lone_prefix_def)
  then show ?case by (auto simp: next_frame_def Let_def be_val_pair)
qed (simp_all add: next_frame_def)

lemma lone_prefix_frame:
  assumes "lone_prefix bs"
  shows "next_frame bs = (Inr (Some (replicate (be_val bs) 0)), []) \<and> fst (documented_frame bs) = Inl TruncatedFrame"
proof -
  obtain hi lo where bs: "bs = [hi, lo]" using assms by (auto simp: lone_prefix_def numeral_2_eq_2 length_Suc_conv)
  have "unat hi \<noteq> 0 \<or> unat lo \<noteq> 0" using assms by (auto simp: lone_prefix_def bs unat_eq_0)
  then show ?thesis by (auto simp: bs next_frame_def Let_def be_val_pair)
qed

lemma len_word:
  assumes "length bs = 2"
  shows "unat (push_bit 8 (ucast (bs ! 0)) OR ucast (bs ! 1) :: u16) = be_val bs"
proof -
  have bs: "bs = [bs ! 0, bs ! 1]" using assms by (cases bs rule: list.exhaust; cases "tl bs") auto
  have "push_bit 8 (ucast (bs ! 0)) OR ucast (bs ! 1) = (be_word [bs ! 0, bs ! 1] :: u16)"
    by (simp only: be_word_shifts)
  also have "unat (be_word [bs ! 0, bs ! 1] :: u16) = be_val [bs ! 0, bs ! 1]"
    by (rule unat_be_word) simp
  finally show ?thesis using bs by simp
qed


lemma len_word_zero:
  "length bs = 2 \<Longrightarrow> (push_bit 8 (ucast (bs ! 0)) OR ucast (bs ! 1) :: u16) = 0 \<longleftrightarrow> be_val bs = 0"
  by (metis len_word unat_eq_0)

lemma feed_next_message_frame:
  assumes "posix_read sys_read contents" and "feed_next_message sys_read s = (r, s')"
  shows "r = fst (next_frame (contents s)) \<and>
     (\<forall>buf. r = Inr (Some buf) \<longrightarrow> contents s' = snd (next_frame (contents s)))"
proof -
  obtain r1 lb s1 where e1: "read_exact sys_read 2 0 (replicate 2 0) s = (r1, lb, s1)" by (metis prod_cases3)
  note one = read_exact_spec [OF assms(1) _ _ e1]
  show ?thesis
  proof (cases "length (contents s) < 2")
    case True
    then have "r1 = (if contents s = [] then Inr False else Inl TruncatedRead)"
      using one by (auto simp: read_outcome_def)
    then show ?thesis
      using assms(2) True e1 by (auto simp: feed_next_message_def next_frame_def split: if_splits)
  next
    case False
    then have r1: "r1 = Inr True" using one by (auto simp: read_outcome_def)
    with one have lb: "lb = take 2 (contents s)" "contents s1 = drop 2 (contents s)" by auto
    have l2: "length lb = 2" using False by (simp add: lb(1))
    define len where "len = be_val lb"
    obtain r2 buf s2 where e2: "read_exact sys_read len 0 (replicate len 0) s1 = (r2, buf, s2)" by (metis prod_cases3)
    note two = read_exact_spec [OF assms(1) _ _ e2]
    have nm: "feed_next_message sys_read s = (if len = 0 then (Inl ZeroLengthFrame, s1)
        else case r2 of Inl _ \<Rightarrow> (Inl TruncatedFrame, s2) | Inr _ \<Rightarrow> (Inr (Some buf), s2))"
      using e2 l2 len_word [OF l2, unfolded One_nat_def] len_word_zero [OF l2, unfolded One_nat_def]
      by (cases r2) (simp_all add: feed_next_message_def e1 r1 Let_def flip: len_def)
    have nf: "next_frame (contents s) = (if len = 0 then (Inl ZeroLengthFrame, contents s1)
        else if contents s1 = [] then (Inr (Some (replicate len 0)), [])
        else if length (contents s1) < len then (Inl TruncatedFrame, [])
        else (Inr (Some (take len (contents s1))), drop len (contents s1)))"
      using False by (auto simp: next_frame_def Let_def len_def lb)
    show ?thesis
      using assms(2) two unfolding nm nf by (auto simp: read_outcome_def split: if_splits)
  qed
qed


definition frame :: "u8 list \<Rightarrow> u8 list" where
  "frame p = be_bytes 2 (length p) @ p"

lemma next_frame_frame:
  assumes "p \<noteq> []" and "length p < 2 ^ 16"
  shows "next_frame (frame p @ rest) = (Inr (Some p), rest)"
proof -
  have "be_val (be_bytes 2 (length p)) = length p"
    using assms(2) by (simp add: be_val_be_bytes)
  moreover have "be_bytes 2 (length p) \<noteq> []" by (metis length_be_bytes list.size(3) zero_neq_numeral)
  ultimately show ?thesis using assms(1) by (simp add: next_frame_def frame_def Let_def)
qed

lemma next_frame_progress: "next_frame bs = (Inr (Some m), rest) \<Longrightarrow> length rest < length bs"
  by (auto simp: next_frame_def Let_def split: if_splits)

text \<open>A file descriptor that delivers at most \<open>k\<close> bytes at a time.\<close>

definition chunk_read :: "nat \<Rightarrow> nat \<Rightarrow> u8 list \<Rightarrow> read_result \<times> u8 list" where
  "chunk_read k n bs = (ReadBytes (take (min k n) bs), drop (min k n) bs)"

lemma posix_chunk_read: "0 < k \<Longrightarrow> posix_read (chunk_read k) id"
  by (auto simp: posix_read_def chunk_read_def)

section \<open>Properties\<close>

text \<open>
  (C28) However the system splits the reads, a call of \<^verbatim>\<open>next_message\<close> depends only on the bytes left
  in the file and follows the documented frame format, with one exception. At the end of the file
  it returns nothing; a lone first byte, a zero length and a payload of which some bytes but not all
  are there are exceptions; a complete frame gives exactly its payload and leaves the bytes after it
  for the next call. The one exception is a file that ends right after a non-zero length prefix:
  the documented format calls it a truncated frame, the code returns a message of zero bytes.
\<close>

theorem next_message_reads_frames:
  assumes "posix_read sys_read contents" and "feed_next_message sys_read s = (r, s')"
  shows "if lone_prefix (contents s)
         then fst (documented_frame (contents s)) = Inl TruncatedFrame \<and>
           r = Inr (Some (replicate (be_val (contents s)) 0)) \<and> contents s' = []
         else r = fst (documented_frame (contents s)) \<and>
           (\<forall>buf. r = Inr (Some buf) \<longrightarrow> contents s' = snd (documented_frame (contents s)))"
  using feed_next_message_frame [OF assms] next_frame_documented lone_prefix_frame
  by (cases "lone_prefix (contents s)") simp_all

theorem next_message_reads_frames_witness:
  "fst (feed_next_message (chunk_read 1) [0, 2, 65, 66, 0]) = Inr (Some [65, 66]) \<and>
   fst (feed_next_message (chunk_read 1) [0, 2, 65]) = Inl TruncatedFrame \<and>
   fst (feed_next_message (chunk_read 1) [0, 2]) = Inr (Some [0, 0])"
proof -
  have spec: "if lone_prefix bs then fst (feed_next_message (chunk_read 1) bs) = Inr (Some (replicate (be_val bs) 0))
      else fst (feed_next_message (chunk_read 1) bs) = fst (documented_frame bs)" for bs
    using next_message_reads_frames [OF posix_chunk_read [of 1], of bs] by (cases "feed_next_message (chunk_read 1) bs") auto
  have "\<not> lone_prefix [0, 2, 65, 66, 0]" "\<not> lone_prefix [0, 2, 65]" "lone_prefix [0, 2]"
    "fst (documented_frame [0, 2, 65, 66, 0]) = Inr (Some [65, 66])"
    "fst (documented_frame [0, 2, 65]) = Inl TruncatedFrame" "replicate (be_val [0, 2]) (0 :: u8) = [0, 0]" by code_simp+
  then show ?thesis
    using spec [of "[0, 2, 65, 66, 0]"] spec [of "[0, 2, 65]"] spec [of "[0, 2]"] by (simp del: documented_frame.simps)
qed

text \<open>
  A payload of 1 to 65535 bytes written behind its length is read back as it is, and the
  bytes after it stay for the next call.
\<close>

lemma next_message_roundtrip:
  assumes "posix_read sys_read contents" and "contents s = frame p @ rest" and "p \<noteq> []" and "length p < 2 ^ 16"
    and "feed_next_message sys_read s = (r, s')"
  shows "r = Inr (Some p) \<and> contents s' = rest"
  using feed_next_message_frame [OF assms(1,5)] next_frame_frame [OF assms(3,4), of rest]
  by (simp add: assms(2))



end
