(* ===== verification/Udp_Feed_Reader.thy ===== *)
theory Udp_Feed_Reader
  imports Feed_Reader
begin

text \<open>
  \<^verbatim>\<open>src/udp_feed_reader.cpp\<close>: receiving MoldUDP64 packets. What \<^verbatim>\<open>recvfrom\<close> returns is an event of
  the environment: an error, or a datagram, of which the receive buffer keeps the first 2048
  bytes. A call of \<^verbatim>\<open>next_message\<close> consumes events until it has a message; when the events are
  used up it is still waiting. Reading the buffer outside the received bytes is \<^const>\<open>None\<close>.
\<close>

section \<open>The reader\<close>

datatype recv_event = RecvError | Packet "u8 list"

record UDPFeedReader =
  ud_sock_open :: bool
  ud_expected_seq :: u64
  ud_gaps_detected :: u64
  ud_dropped_behind :: u64
  ud_messages_received :: u64
  ud_pending :: "MessageBuffer list"
  ud_pending_idx :: nat

definition udp_init :: UDPFeedReader where
  "udp_init = \<lparr>ud_sock_open = True, ud_expected_seq = 1, ud_gaps_detected = 0, ud_dropped_behind = 0,
     ud_messages_received = 0, ud_pending = [], ud_pending_idx = 0\<rparr>"

definition MOLD_HEADER_LEN :: nat where
  "MOLD_HEADER_LEN = 20"

definition MOLD_RECV_BUF :: nat where
  "MOLD_RECV_BUF = 2048"

definition MOLD_HEARTBEAT :: u16 where
  "MOLD_HEARTBEAT = 0xFFFF"

text \<open>The loop over the message blocks, with the number of blocks left to read.\<close>

fun parse_blocks :: "nat \<Rightarrow> u8 list \<Rightarrow> nat \<Rightarrow> MessageBuffer list option" where
  "parse_blocks 0 pkt offset = Some []"
| "parse_blocks (Suc k) pkt offset =
     (if offset + 2 > length pkt then Some []
      else do {
        msg_len \<leftarrow> read_be16 pkt offset;
        if offset + 2 + unat msg_len > length pkt then Some []
        else do {
          rest \<leftarrow> parse_blocks k pkt (offset + 2 + unat msg_len);
          Some (byte_slice pkt (offset + 2) (unat msg_len) # rest)
        }
      })"

text \<open>The end of \<^verbatim>\<open>refill\<close>, once the sequence number is not behind.\<close>

definition accept_packet :: "u64 \<Rightarrow> u16 \<Rightarrow> u8 list \<Rightarrow> UDPFeedReader \<Rightarrow> (bool \<times> UDPFeedReader) option" where
  "accept_packet seq msg_count pkt u = do {
     let u1 = u\<lparr>ud_expected_seq := seq + ucast msg_count\<rparr>;
     blocks \<leftarrow> parse_blocks (unat msg_count) pkt MOLD_HEADER_LEN;
     Some (True, u1\<lparr>ud_pending := ud_pending u1 @ blocks\<rparr>)
   }"

definition refill :: "recv_event \<Rightarrow> UDPFeedReader \<Rightarrow> (bool \<times> UDPFeedReader) option" where
  "refill ev u =
     (case ev of
        RecvError \<Rightarrow> Some (ud_sock_open u, u)
      | Packet datagram \<Rightarrow>
          let pkt = take MOLD_RECV_BUF datagram
          in if length pkt < MOLD_HEADER_LEN then Some (True, u)
             else do {
               seq \<leftarrow> read_be64 pkt 10;
               msg_count \<leftarrow> read_be16 pkt 18;
               if msg_count = MOLD_HEARTBEAT then Some (True, u)
               else if msg_count = 0 then Some (True, u)
               else if seq > ud_expected_seq u then
                 let gap = seq - ud_expected_seq u
                 in accept_packet seq msg_count pkt (u\<lparr>ud_gaps_detected := ud_gaps_detected u + gap\<rparr>)
               else if seq < ud_expected_seq u then
                 Some (True, u\<lparr>ud_dropped_behind := ud_dropped_behind u + 1\<rparr>)
               else accept_packet seq msg_count pkt u
             })"

datatype udp_outcome = Message MessageBuffer | Closed | Waiting

definition take_pending :: "UDPFeedReader \<Rightarrow> (MessageBuffer \<times> UDPFeedReader) option" where
  "take_pending u =
     (if ud_pending_idx u < length (ud_pending u) then
        Some (ud_pending u ! ud_pending_idx u,
              u\<lparr>ud_pending_idx := ud_pending_idx u + 1,
                ud_messages_received := ud_messages_received u + 1\<rparr>)
      else None)"

definition clear_pending :: "UDPFeedReader \<Rightarrow> UDPFeedReader" where
  "clear_pending u = u\<lparr>ud_pending := [], ud_pending_idx := 0\<rparr>"

fun udp_next_message :: "recv_event list \<Rightarrow> UDPFeedReader \<Rightarrow>
    (udp_outcome \<times> UDPFeedReader \<times> recv_event list) option" where
  "udp_next_message [] u =
     (case take_pending u of
        Some (buf, u') \<Rightarrow> Some (Message buf, u', [])
      | None \<Rightarrow> Some (Waiting, clear_pending u, []))"
| "udp_next_message (ev # evs) u =
     (case take_pending u of
        Some (buf, u') \<Rightarrow> Some (Message buf, u', ev # evs)
      | None \<Rightarrow>
          (case refill ev (clear_pending u) of
             None \<Rightarrow> None
           | Some (False, u') \<Rightarrow> Some (Closed, u', evs)
           | Some (True, u') \<Rightarrow> udp_next_message evs u'))"

section \<open>Blocks of a packet\<close>

text \<open>The reading of the block area as a function of its bytes.\<close>

fun blocks_of :: "nat \<Rightarrow> u8 list \<Rightarrow> MessageBuffer list" where
  "blocks_of 0 bs = []"
| "blocks_of (Suc k) bs =
     (if length bs < 2 \<or> length (drop 2 bs) < be_val (take 2 bs) then []
      else take (be_val (take 2 bs)) (drop 2 bs) # blocks_of k (drop (2 + be_val (take 2 bs)) bs))"

lemma unat_be16: "length bs = 2 \<Longrightarrow> unat (be_word bs :: u16) = be_val bs"
  by (rule unat_be_word) simp

lemma unat_be64: "length bs = 8 \<Longrightarrow> unat (be_word bs :: u64) = be_val bs"
  by (rule unat_be_word) simp

lemma parse_blocks_eq: "offset \<le> length pkt \<Longrightarrow> parse_blocks k pkt offset = Some (blocks_of k (drop offset pkt))"
proof (induction k arbitrary: offset)
  case (Suc k)
  show ?case
  proof (cases "offset + 2 \<le> length pkt")
    case True
    let ?len = "be_val (byte_slice pkt offset 2)"
    have rd: "read_be16 pkt offset = Some (be_word (byte_slice pkt offset 2))"
      using True by (simp add: read_be16_eq)
    have u: "unat (be_word (byte_slice pkt offset 2) :: u16) = ?len"
      using True by (intro unat_be16) simp
    show ?thesis
      using True Suc.IH [of "offset + 2 + ?len"]
      by (auto simp: rd u add.commute add.left_commute)
  next
    case False
    then have "length (drop offset pkt) < 2" by simp
    with False show ?thesis by simp
  qed
qed simp

definition mold_packet :: "u8 list \<Rightarrow> nat \<Rightarrow> MessageBuffer list \<Rightarrow> u8 list" where
  "mold_packet session seq msgs =
     session @ be_bytes 8 seq @ be_bytes 2 (length msgs) @ concat (map frame msgs)"

lemma blocks_of_frames:
  "(\<And>m. m \<in> set msgs \<Longrightarrow> length m < 2 ^ 16) \<Longrightarrow> blocks_of (length msgs) (concat (map frame msgs) @ rest) = msgs"
proof (induction msgs)
  case (Cons m msgs)
  have "be_val (be_bytes 2 (length m)) = length m"
    using Cons.prems [of m] by (simp add: be_val_be_bytes)
  then show ?case using Cons by (simp add: frame_def)
qed simp


section \<open>The messages a sequence of events delivers\<close>

text \<open>Sequence number, announced count and blocks of a packet that carries messages.\<close>

definition packet_data :: "recv_event \<Rightarrow> (u64 \<times> u16 \<times> MessageBuffer list) option" where
  "packet_data ev =
     (case ev of
        RecvError \<Rightarrow> None
      | Packet datagram \<Rightarrow>
          let pkt = take 2048 datagram; count = be_word (byte_slice pkt 18 2) :: u16
          in if length pkt < 20 \<or> count = 0xFFFF \<or> count = 0 then None
             else Some (be_word (byte_slice pkt 10 8), count, blocks_of (unat count) (drop 20 pkt)))"

fun incoming :: "u64 \<Rightarrow> recv_event list \<Rightarrow> MessageBuffer list" where
  "incoming expected [] = []"
| "incoming expected (ev # evs) =
     (case packet_data ev of
        None \<Rightarrow> incoming expected evs
      | Some (seq, count, blocks) \<Rightarrow>
          if seq < expected then incoming expected evs else blocks @ incoming (seq + ucast count) evs)"

definition udp_stream :: "UDPFeedReader \<Rightarrow> recv_event list \<Rightarrow> MessageBuffer list" where
  "udp_stream u evs = drop (ud_pending_idx u) (ud_pending u) @ incoming (ud_expected_seq u) evs"

lemma accept_packet_eq:
  "20 \<le> length pkt \<Longrightarrow> accept_packet seq c pkt u = Some (True,
     u\<lparr>ud_expected_seq := seq + ucast c, ud_pending := ud_pending u @ blocks_of (unat c) (drop 20 pkt)\<rparr>)"
  by (simp add: accept_packet_def MOLD_HEADER_LEN_def parse_blocks_eq)

lemma refill_eq:
  "refill ev u = Some
     (case packet_data ev of
        None \<Rightarrow> (ev = RecvError \<longrightarrow> ud_sock_open u, u)
      | Some (seq, count, blocks) \<Rightarrow>
          (True, if seq < ud_expected_seq u then u\<lparr>ud_dropped_behind := ud_dropped_behind u + 1\<rparr>
                 else u\<lparr>ud_gaps_detected := ud_gaps_detected u + (seq - ud_expected_seq u),
                         ud_expected_seq := seq + ucast count, ud_pending := ud_pending u @ blocks\<rparr>))"
proof (cases ev)
  case (Packet d)
  define pkt where "pkt = take 2048 d"
  show ?thesis
  proof (cases "length pkt < 20")
    case True
    then show ?thesis
      by (simp add: Packet refill_def packet_data_def Let_def MOLD_RECV_BUF_def MOLD_HEADER_LEN_def
          del: length_take flip: pkt_def)
  next
    case False
    then have l: "20 \<le> length pkt" by simp
    then have "read_be64 pkt 10 = Some (be_word (byte_slice pkt 10 8))"
      "read_be16 pkt 18 = Some (be_word (byte_slice pkt 18 2))"
      by (simp_all add: read_be64_eq read_be16_eq)
    then show ?thesis
      using l by (auto simp: Packet refill_def packet_data_def Let_def MOLD_RECV_BUF_def MOLD_HEADER_LEN_def
          MOLD_HEARTBEAT_def accept_packet_eq simp flip: pkt_def)
  qed
qed (simp add: refill_def packet_data_def)

lemma udp_stream_pending:
  "take_pending u = Some (m, u') \<Longrightarrow> udp_stream u evs = m # udp_stream u' evs \<and> ud_sock_open u' = ud_sock_open u"
  by (auto simp: take_pending_def udp_stream_def Cons_nth_drop_Suc split: if_splits)

lemma udp_stream_idle: "take_pending u = None \<Longrightarrow> udp_stream u evs = incoming (ud_expected_seq u) evs"
  by (simp add: take_pending_def udp_stream_def split: if_splits)

lemma udp_stream_refill:
  assumes "ud_sock_open u" and "take_pending u = None"
  obtains u' where "refill ev (clear_pending u) = Some (True, u')" and "ud_sock_open u'"
    and "udp_stream u' evs = udp_stream u (ev # evs)"
proof (cases "packet_data ev")
  case None
  then show thesis
    using assms that [of "clear_pending u"]
    by (simp add: refill_eq clear_pending_def udp_stream_idle) (simp add: udp_stream_def)
next
  case (Some x)
  obtain seq c bl where x: "x = (seq, c, bl)" by (cases x)
  show thesis
  proof (cases "seq < ud_expected_seq u")
    case True
    then show thesis
      using assms Some x that [of "(clear_pending u)\<lparr>ud_dropped_behind := ud_dropped_behind u + 1\<rparr>"]
      by (simp add: refill_eq clear_pending_def udp_stream_idle) (simp add: udp_stream_def)
  next
    case False
    then show thesis
      using assms Some x that [of "(clear_pending u)\<lparr>ud_gaps_detected := ud_gaps_detected u + (seq - ud_expected_seq u),
               ud_expected_seq := seq + ucast c, ud_pending := bl\<rparr>"]
      by (simp add: refill_eq clear_pending_def udp_stream_idle) (simp add: udp_stream_def)
  qed
qed

lemma udp_next_message_stream:
  assumes "ud_sock_open u"
  obtains out u' evs' where "udp_next_message evs u = Some (out, u', evs')" and "ud_sock_open u'"
    and "(\<exists>m. out = Message m \<and> udp_stream u evs = m # udp_stream u' evs') \<or>
         (out = Waiting \<and> udp_stream u evs = [] \<and> evs' = [])"
  using assms
proof (induction evs arbitrary: u thesis)
  case Nil
  show ?case
  proof (cases "take_pending u")
    case None
    then show ?thesis using Nil by (simp add: udp_stream_idle clear_pending_def)
  next
    case (Some x)
    then show ?thesis using Nil udp_stream_pending [of u "fst x" "snd x" "[]"] by (cases x) auto
  qed
next
  case (Cons ev evs)
  show ?case
  proof (cases "take_pending u")
    case None
    obtain u1 where u1: "refill ev (clear_pending u) = Some (True, u1)" "ud_sock_open u1"
      "udp_stream u1 evs = udp_stream u (ev # evs)"
      using udp_stream_refill [OF Cons.prems(2) None] by metis
    have "udp_next_message (ev # evs) u = udp_next_message evs u1" using None u1(1) by simp
    with Cons.IH [OF _ u1(2)] Cons.prems(1) u1(3) show ?thesis by metis
  next
    case (Some x)
    then show ?thesis
      using Cons.prems udp_stream_pending [of u "fst x" "snd x" "ev # evs"] by (cases x) auto
  qed
qed


section \<open>Repeated calls and the accounting of lost messages\<close>

text \<open>
  Up to \<open>n\<close> calls of \<^verbatim>\<open>next_message\<close>, stopping when a call has to wait: the messages returned, the
  reader and the remaining events.
\<close>

fun udp_calls :: "nat \<Rightarrow> recv_event list \<Rightarrow> UDPFeedReader \<Rightarrow>
    (MessageBuffer list \<times> UDPFeedReader \<times> recv_event list) option" where
  "udp_calls 0 evs u = Some ([], u, evs)"
| "udp_calls (Suc n) evs u =
     (case udp_next_message evs u of
        None \<Rightarrow> None
      | Some (Message m, u', evs') \<Rightarrow>
          (case udp_calls n evs' u' of
             None \<Rightarrow> None
           | Some (ms, u'', evs'') \<Rightarrow> Some (m # ms, u'', evs''))
      | Some (_, u', evs') \<Rightarrow> Some ([], u', evs'))"

lemma udp_calls_stream:
  "ud_sock_open u \<Longrightarrow> \<exists>u' evs'. udp_calls n evs u = Some (take n (udp_stream u evs), u', evs')"
proof (induction n arbitrary: evs u)
  case (Suc n)
  obtain out u1 evs1 where c: "udp_next_message evs u = Some (out, u1, evs1)" "ud_sock_open u1"
    "(\<exists>m. out = Message m \<and> udp_stream u evs = m # udp_stream u1 evs1) \<or>
     (out = Waiting \<and> udp_stream u evs = [] \<and> evs1 = [])"
    using udp_next_message_stream [OF Suc.prems] by metis
  then show ?case using Suc.IH [OF c(2), of evs1] by auto
qed simp

text \<open>Every packet that carries messages carries as many as it announces.\<close>

definition complete :: "recv_event \<Rightarrow> bool" where
  "complete ev \<longleftrightarrow> (case packet_data ev of None \<Rightarrow> True | Some (seq, count, blocks) \<Rightarrow> length blocks = unat count)"

definition balanced :: "UDPFeedReader \<Rightarrow> bool" where
  "balanced u \<longleftrightarrow> ud_pending_idx u \<le> length (ud_pending u) \<and>
     ud_messages_received u + of_nat (length (ud_pending u) - ud_pending_idx u) + ud_gaps_detected u + 1 =
       ud_expected_seq u"

lemma balanced_pending: "balanced u \<Longrightarrow> take_pending u = Some (m, u') \<Longrightarrow> balanced u'"
proof -
  assume b: "balanced u" and t: "take_pending u = Some (m, u')"
  let ?k = "length (ud_pending u) - ud_pending_idx u"
  have "?k = Suc (length (ud_pending u) - Suc (ud_pending_idx u))" using t by (auto simp: take_pending_def split: if_splits)
  then have "of_nat ?k = (1 + of_nat (length (ud_pending u) - Suc (ud_pending_idx u)) :: u64)" by (simp only: of_nat_Suc)
  with b t show "balanced u'" by (auto simp: balanced_def take_pending_def algebra_simps split: if_splits)
qed

lemma balanced_refill:
  assumes "balanced u" and "take_pending u = None" and "complete ev" and "refill ev (clear_pending u) = Some (b, u')"
  shows "balanced u'"
proof -
  have e: "ud_expected_seq u = ud_messages_received u + ud_gaps_detected u + 1"
    using assms(1,2) by (simp add: balanced_def take_pending_def split: if_splits)
  have c: "of_nat (unat (c :: u16)) = (ucast c :: u64)" for c by simp
  show ?thesis
    using assms(3,4)
    by (auto simp: refill_eq complete_def balanced_def clear_pending_def e c split: option.splits if_splits)
qed

lemma balanced_next_message:
  "balanced u \<Longrightarrow> list_all complete evs \<Longrightarrow> udp_next_message evs u = Some (out, u', evs') \<Longrightarrow>
     balanced u' \<and> list_all complete evs'"
proof (induction evs arbitrary: u)
  case Nil
  then show ?case
    by (auto simp: take_pending_def balanced_def clear_pending_def intro: balanced_pending split: option.splits if_splits)
next
  case (Cons ev evs)
  show ?case
  proof (cases "take_pending u")
    case None
    obtain b u1 where r: "refill ev (clear_pending u) = Some (b, u1)"
      using Cons.prems(3) None by (auto split: option.splits)
    have "balanced u1" using balanced_refill [OF Cons.prems(1) None _ r] Cons.prems(2) by simp
    then show ?thesis using Cons None r by (cases b) auto
  next
    case (Some x)
    then show ?thesis using Cons.prems balanced_pending by (cases x) auto
  qed
qed

lemma balanced_calls:
  "balanced u \<Longrightarrow> list_all complete evs \<Longrightarrow> udp_calls n evs u = Some (ms, u', evs') \<Longrightarrow> balanced u'"
proof (induction n arbitrary: evs u ms)
  case (Suc n)
  obtain out u1 evs1 where c: "udp_next_message evs u = Some (out, u1, evs1)"
    using Suc.prems(3) by (auto split: option.splits)
  then have "balanced u1" "list_all complete evs1" using balanced_next_message Suc.prems by blast+
  then show ?case
    using Suc.IH [of u1 evs1] Suc.prems(3) c by (cases out) (auto split: option.splits prod.splits)
qed simp


section \<open>Properties\<close>

text \<open>
  (C15) Whatever arrives on the socket, the reader never touches bytes outside the received
  packet, never reports a closed socket while it is open, and its calls return, in order and each
  once, the message blocks of the packets whose sequence number is not behind the expected one;
  errors, short packets, heartbeats, empty packets and packets that are behind deliver nothing.
\<close>

theorem udp_delivers_stream:
  "\<exists>u' evs'. udp_calls n evs udp_init = Some (take n (incoming 1 evs), u', evs')"
  using udp_calls_stream [of udp_init n evs] by (simp add: udp_init_def udp_stream_def)

definition packet_ok :: "u8 list \<Rightarrow> nat \<Rightarrow> MessageBuffer list \<Rightarrow> bool" where
  "packet_ok session seq msgs \<longleftrightarrow>
     length session = 10 \<and> 0 < length msgs \<and> length msgs < 65535 \<and> (\<forall>m \<in> set msgs. length m < 2 ^ 16) \<and>
     length (mold_packet session seq msgs) \<le> 2048 \<and> seq < 2 ^ 64"

lemma ucast_of_nat_u16: "n < 2 ^ 16 \<Longrightarrow> (ucast (of_nat n :: u16) :: u64) = of_nat n"
  using unat_of_nat_u16 [of n] by (metis of_nat_unat unsigned_ucast_eq)

lemma packet_data_mold:
  assumes "packet_ok session seq msgs"
  shows "packet_data (Packet (mold_packet session seq msgs)) = Some (of_nat seq, of_nat (length msgs), msgs)"
proof -
  let ?p = "mold_packet session seq msgs" and ?c = "of_nat (length msgs) :: u16"
  have ok: "length session = 10" "0 < length msgs" "length msgs < 65535" "\<And>m. m \<in> set msgs \<Longrightarrow> length m < 2 ^ 16"
    "length ?p \<le> 2048" "seq < 2 ^ 64"
    using assms unfolding packet_ok_def by blast+
  have sl: "byte_slice ?p 10 8 = be_bytes 8 seq" "byte_slice ?p 18 2 = be_bytes 2 (length msgs)"
    "drop 20 ?p = concat (map frame msgs)" "20 \<le> length ?p"
    using ok(1) by (simp_all add: mold_packet_def)
  have c: "unat ?c = length msgs" and q: "unat (of_nat seq :: u64) = seq"
    using ok(3,6) by (intro unat_of_nat_u16 unat_of_nat_u64; simp)+
  have w: "be_word (be_bytes 8 seq) = (of_nat seq :: u64)" "be_word (be_bytes 2 (length msgs)) = ?c"
    using be_word_be_bytes_u64 [of "of_nat seq"] be_word_be_bytes_u16 [of ?c] unfolding c q by simp_all
  have nz: "?c \<noteq> 0xFFFF" "?c \<noteq> 0" using ok(2,3) c by (auto simp: word_unat_eq_iff)
  have "blocks_of (length msgs) (concat (map frame msgs) @ []) = msgs"
    by (rule blocks_of_frames) (rule ok(4))
  then show ?thesis using sl w nz c ok(5) by (simp add: packet_data_def Let_def)
qed

text \<open>The packets of a session from a sequence number on, and their lists of messages.\<close>

fun mold_session :: "u8 list \<Rightarrow> nat \<Rightarrow> MessageBuffer list list \<Rightarrow> recv_event list" where
  "mold_session session seq [] = []"
| "mold_session session seq (p # ps) =
     Packet (mold_packet session seq p) # mold_session session (seq + length p) ps"

fun session_ok :: "u8 list \<Rightarrow> nat \<Rightarrow> MessageBuffer list list \<Rightarrow> bool" where
  "session_ok session seq [] = True"
| "session_ok session seq (p # ps) = (packet_ok session seq p \<and> session_ok session (seq + length p) ps)"

lemma incoming_session:
  "session_ok session seq ps \<Longrightarrow> incoming (of_nat seq) (mold_session session seq ps) = concat ps"
proof (induction ps arbitrary: seq)
  case (Cons p ps)
  have ok: "packet_ok session seq p" using Cons.prems by simp
  then have "length p < 2 ^ 16" by (simp add: packet_ok_def)
  then show ?case
    using Cons.IH [of "seq + length p"] Cons.prems by (simp add: packet_data_mold [OF ok] ucast_of_nat_u16)
qed simp

text \<open>
  A MoldUDP64 packet with a ten-byte session, the expected sequence number and up to 65534
  messages that fits the receive buffer is accepted whole: its messages become pending in order
  and the next expected number is the one after its last message.
\<close>

lemma refill_mold_packet:
  assumes "packet_ok session seq msgs" and "ud_expected_seq u = of_nat seq" and "ud_pending u = []"
  shows "refill (Packet (mold_packet session seq msgs)) u =
     Some (True, u\<lparr>ud_expected_seq := of_nat (seq + length msgs), ud_pending := msgs\<rparr>)"
proof -
  have "length msgs < 2 ^ 16" using assms(1) by (simp add: packet_ok_def)
  then show ?thesis
    by (simp add: refill_eq packet_data_mold [OF assms(1)] assms(2,3) ucast_of_nat_u16)
qed

text \<open>
  (C17) A session received in order is delivered completely: the calls return all its messages, in
  order.
\<close>

theorem session_roundtrip:
  assumes "session_ok session 1 ps" and "n = length (concat ps)"
  shows "\<exists>u' evs'. udp_calls n (mold_session session 1 ps) udp_init = Some (concat ps, u', evs')"
  using udp_calls_stream [of udp_init n "mold_session session 1 ps"] incoming_session [OF assms(1)] assms(2)
  by (simp add: udp_init_def udp_stream_def)

theorem session_roundtrip_witness:
  "\<exists>u' evs'. udp_calls 3 (mold_session (replicate 10 32) 1 [[[65], [66, 67]], [[68]]]) udp_init =
     Some ([[65], [66, 67], [68]], u', evs')"
  using session_roundtrip [of "replicate 10 32" "[[[65], [66, 67]], [[68]]]" 3]
  by (simp add: packet_ok_def mold_packet_def frame_def)

text \<open>
  (C16) When every packet carries as many messages as it announces, the counters account for the
  whole sequence space after any number of calls: messages returned, messages still pending and
  messages reported lost add up to the expected sequence number less one.
\<close>

theorem udp_accounting:
  assumes "list_all complete evs" and "udp_calls n evs udp_init = Some (ms, u, evs')"
  shows "ud_messages_received u + of_nat (length (ud_pending u) - ud_pending_idx u) + ud_gaps_detected u + 1 =
     ud_expected_seq u"
proof -
  have "balanced udp_init" by (simp add: balanced_def udp_init_def)
  then have "balanced u" by (rule balanced_calls [OF _ assms])
  then show ?thesis unfolding balanced_def by blast
qed


theorem udp_accounting_witness:
  "\<exists>u evs'. udp_calls 2 [RecvError, Packet (mold_packet (replicate 10 32) 5 [[65], [66]])] udp_init =
       Some ([[65], [66]], u, evs') \<and>
     ud_messages_received u + of_nat (length (ud_pending u) - ud_pending_idx u) + ud_gaps_detected u + 1 =
       ud_expected_seq u"
proof -
  let ?evs = "[RecvError, Packet (mold_packet (replicate 10 32) 5 [[65], [66]])]"
  have d: "packet_data (Packet (mold_packet (replicate 10 32) 5 [[65], [66]])) = Some (5, 2, [[65], [66]])"
    using packet_data_mold [of "replicate 10 32" 5 "[[65], [66]]"]
    by (simp add: packet_ok_def mold_packet_def frame_def)
  obtain u evs' where c: "udp_calls 2 ?evs udp_init = Some (take 2 (incoming 1 ?evs), u, evs')"
    using udp_calls_stream [of udp_init 2 ?evs] by (auto simp: udp_init_def udp_stream_def)
  have e: "packet_data RecvError = None" by (simp add: packet_data_def)
  have "list_all complete ?evs" by (simp add: complete_def d e)
  from udp_accounting [OF this c] c show ?thesis by (simp add: d e)
qed

end
