(* ===== verification/Pipeline.thy ===== *)
theory Pipeline
  imports Rest_Server Feed_Reader Udp_Feed_Reader Parser
begin

text \<open>
  \<^verbatim>\<open>src/main.cpp\<close>: configuration from the environment, the file-mode loop and the two threads of
  live mode. The world of the pipeline is the engine and the publisher. The concurrent queue of
  live mode is a parameter; \<open>fifo_queue\<close> states what its documentation promises for one producer
  and one consumer.
\<close>

section \<open>Configuration\<close>

definition env_var :: "(string \<Rightarrow> string option) \<Rightarrow> string \<Rightarrow> string \<Rightarrow> string" where
  "env_var getenv key fallback = (case getenv key of Some val \<Rightarrow> val | None \<Rightarrow> fallback)"

text \<open>
  \<^verbatim>\<open>std::stoull\<close>: as \<^const>\<open>stoi\<close> for 64-bit unsigned values; a minus sign negates modulo \<open>2 ^ 64\<close>.
\<close>

definition stoull :: "string \<Rightarrow> u64 option" where
  "stoull s =
     (let r = dropWhile is_space s;
          sign = (case r of c # _ \<Rightarrow> if c = CHR ''-'' \<or> c = CHR ''+'' then [c] else [] | [] \<Rightarrow> []);
          ds = takeWhile is_digit (drop (length sign) r);
          v = digits_value ds
      in if ds = [] \<or> v \<ge> 2 ^ 64 then None
         else Some (if sign = ''-'' then - of_int v else of_int v))"

record Config =
  cf_mode :: string
  cf_itch_file :: string
  cf_mcast_group :: string
  cf_mcast_iface :: string
  cf_mcast_port :: u16
  cf_rest_port :: u16
  cf_snapshot_interval :: u64

text \<open>\<^const>\<open>None\<close> when a conversion throws, which nothing in \<^verbatim>\<open>main\<close> catches.\<close>

definition read_config :: "(string \<Rightarrow> string option) \<Rightarrow> Config option" where
  "read_config getenv = do {
     mcast_port \<leftarrow> stoi (env_var getenv ''MCAST_PORT'' ''26477'');
     rest_port \<leftarrow> stoi (env_var getenv ''REST_PORT'' ''8080'');
     snapshot_interval \<leftarrow> stoull (env_var getenv ''SNAPSHOT_INTERVAL'' ''1000'');
     Some \<lparr>cf_mode = env_var getenv ''ITCH_MODE'' ''file'',
           cf_itch_file = env_var getenv ''ITCH_FILE'' ''data/sample.bin'',
           cf_mcast_group = env_var getenv ''MCAST_GROUP'' ''233.54.12.111'',
           cf_mcast_iface = env_var getenv ''MCAST_IFACE'' ''eth0'',
           cf_mcast_port = of_int (fst mcast_port), cf_rest_port = of_int (fst rest_port),
           cf_snapshot_interval = snapshot_interval\<rparr>
   }"

section \<open>Processing one buffer\<close>

type_synonym world = "Engine \<times> publisher"

text \<open>Parse errors are caught and logged; unknown types are dropped.\<close>

definition process :: "(Engine \<Rightarrow> SnapEnv) \<Rightarrow> MessageBuffer \<Rightarrow> world \<Rightarrow> engine_fault + world" where
  "process env buf w =
     (case parse buf of
        Inl _ \<Rightarrow> Inr w
      | Inr None \<Rightarrow> Inr w
      | Inr (Some msg) \<Rightarrow> apply_msg env msg w)"

fun process_all :: "(Engine \<Rightarrow> SnapEnv) \<Rightarrow> MessageBuffer list \<Rightarrow> world \<Rightarrow> engine_fault + world" where
  "process_all env [] w = Inr w"
| "process_all env (b # bs) w = (case process env b w of Inl f \<Rightarrow> Inl f | Inr w' \<Rightarrow> process_all env bs w')"

section \<open>File mode\<close>

text \<open>
  The loop over the reader. The result is a fault of the engine, or the exception that ended the
  feed, if any, with the world reached.
\<close>

partial_function (option) file_loop ::
    "(nat \<Rightarrow> 's \<Rightarrow> read_result \<times> 's) \<Rightarrow> (Engine \<Rightarrow> SnapEnv) \<Rightarrow> 's \<Rightarrow> world \<Rightarrow>
     (engine_fault + feed_exn option \<times> world) option" where
  "file_loop sys_read env s w =
     (case feed_next_message sys_read s of
        (r, s') \<Rightarrow>
          (case r of
             Inl e \<Rightarrow> Some (Inr (Some e, w))
           | Inr None \<Rightarrow> Some (Inr (None, w))
           | Inr (Some buf) \<Rightarrow>
               (case process env buf w of
                  Inl f \<Rightarrow> Some (Inl f)
                | Inr w' \<Rightarrow> file_loop sys_read env s' w')))"

text \<open>
  \<^verbatim>\<open>main\<close> in file mode, from opening the file to the exit code 1 or the idle server (0).
  \<^const>\<open>None\<close> as the descriptor means that the file cannot be opened.
\<close>

definition run_file :: "(nat \<Rightarrow> 's \<Rightarrow> read_result \<times> 's) \<Rightarrow> (Engine \<Rightarrow> SnapEnv) \<Rightarrow> Config \<Rightarrow> 's option \<Rightarrow>
    (engine_fault + nat \<times> world) option" where
  "run_file sys_read env cf fd =
     (let w = (set_snapshot_interval (cf_snapshot_interval cf) init_engine, None)
      in case fd of
           None \<Rightarrow> Some (Inr (1, w))
         | Some s \<Rightarrow>
             (case file_loop sys_read env s w of
                None \<Rightarrow> None
              | Some (Inl f) \<Rightarrow> Some (Inl f)
              | Some (Inr (Some e, w')) \<Rightarrow> Some (Inr (1, w'))
              | Some (Inr (None, w')) \<Rightarrow> Some (Inr (0, set_pipeline_complete env w'))))"

section \<open>Live mode\<close>

datatype recv_pc = RecvStart | RecvLoop | RecvDone

datatype engine_pc = CheckFlag | TryDequeue | Drain | EngineDone | Crashed

record 'q Live =
  lv_recv :: recv_pc
  lv_reader :: UDPFeedReader
  lv_events :: "recv_event list"
  lv_queue :: 'q
  lv_recv_done :: bool
  lv_engine :: engine_pc
  lv_world :: world
  lv_enqueued :: "MessageBuffer list"

text \<open>
  The steps of the two threads. \<open>lv_enqueued\<close> records what the receive thread has enqueued. The
  constructor of the reader may throw; no one requests the receive thread to stop before the
  engine loop has ended. Polling may find nothing although a message is on its way.
\<close>

inductive live_step :: "(MessageBuffer \<Rightarrow> 'q \<Rightarrow> 'q) \<Rightarrow> ('q \<Rightarrow> (MessageBuffer \<times> 'q) option) \<Rightarrow>
    (Engine \<Rightarrow> SnapEnv) \<Rightarrow> 'q Live \<Rightarrow> 'q Live \<Rightarrow> bool"
  for enqueue try_dequeue env where
  recv_open: "lv_recv s = RecvStart \<Longrightarrow> live_step enqueue try_dequeue env s (s\<lparr>lv_recv := RecvLoop\<rparr>)"
| recv_throw: "lv_recv s = RecvStart \<Longrightarrow>
     live_step enqueue try_dequeue env s (s\<lparr>lv_recv := RecvDone, lv_recv_done := True\<rparr>)"
| recv_message: "lv_recv s = RecvLoop \<Longrightarrow>
     udp_next_message (lv_events s) (lv_reader s) = Some (Message m, u, evs) \<Longrightarrow>
     live_step enqueue try_dequeue env s
       (s\<lparr>lv_reader := u, lv_events := evs, lv_queue := enqueue m (lv_queue s),
          lv_enqueued := lv_enqueued s @ [m]\<rparr>)"
| recv_closed: "lv_recv s = RecvLoop \<Longrightarrow>
     udp_next_message (lv_events s) (lv_reader s) = Some (Closed, u, evs) \<Longrightarrow>
     live_step enqueue try_dequeue env s
       (s\<lparr>lv_reader := u, lv_events := evs, lv_recv := RecvDone, lv_recv_done := True\<rparr>)"
| flag_clear: "lv_engine s = CheckFlag \<Longrightarrow> \<not> lv_recv_done s \<Longrightarrow>
     live_step enqueue try_dequeue env s (s\<lparr>lv_engine := TryDequeue\<rparr>)"
| flag_set: "lv_engine s = CheckFlag \<Longrightarrow> lv_recv_done s \<Longrightarrow>
     live_step enqueue try_dequeue env s (s\<lparr>lv_engine := Drain\<rparr>)"
| poll_empty: "lv_engine s = TryDequeue \<Longrightarrow>
     live_step enqueue try_dequeue env s (s\<lparr>lv_engine := CheckFlag\<rparr>)"
| poll_process: "lv_engine s = TryDequeue \<Longrightarrow> try_dequeue (lv_queue s) = Some (m, q) \<Longrightarrow>
     process env m (lv_world s) = Inr w \<Longrightarrow>
     live_step enqueue try_dequeue env s (s\<lparr>lv_queue := q, lv_world := w, lv_engine := CheckFlag\<rparr>)"
| drain_process: "lv_engine s = Drain \<Longrightarrow> try_dequeue (lv_queue s) = Some (m, q) \<Longrightarrow>
     process env m (lv_world s) = Inr w \<Longrightarrow>
     live_step enqueue try_dequeue env s (s\<lparr>lv_queue := q, lv_world := w\<rparr>)"
| process_fault: "lv_engine s \<in> {TryDequeue, Drain} \<Longrightarrow> try_dequeue (lv_queue s) = Some (m, q) \<Longrightarrow>
     process env m (lv_world s) = Inl f \<Longrightarrow>
     live_step enqueue try_dequeue env s (s\<lparr>lv_queue := q, lv_engine := Crashed\<rparr>)"
| drain_finish: "lv_engine s = Drain \<Longrightarrow> try_dequeue (lv_queue s) = None \<Longrightarrow>
     live_step enqueue try_dequeue env s
       (s\<lparr>lv_engine := EngineDone, lv_world := set_pipeline_complete env (lv_world s)\<rparr>)"

definition live_init :: "'q \<Rightarrow> recv_event list \<Rightarrow> Config \<Rightarrow> 'q Live" where
  "live_init q0 evs cf = \<lparr>lv_recv = RecvStart, lv_reader = udp_init, lv_events = evs, lv_queue = q0,
     lv_recv_done = False, lv_engine = CheckFlag,
     lv_world = (set_snapshot_interval (cf_snapshot_interval cf) init_engine, None), lv_enqueued = []\<rparr>"

abbreviation live_reaches :: "(MessageBuffer \<Rightarrow> 'q \<Rightarrow> 'q) \<Rightarrow> ('q \<Rightarrow> (MessageBuffer \<times> 'q) option) \<Rightarrow>
    (Engine \<Rightarrow> SnapEnv) \<Rightarrow> 'q Live \<Rightarrow> 'q Live \<Rightarrow> bool" where
  "live_reaches enqueue try_dequeue env \<equiv> (live_step enqueue try_dequeue env)\<^sup>*\<^sup>*"

definition fifo_queue :: "(MessageBuffer \<Rightarrow> 'q \<Rightarrow> 'q) \<Rightarrow> ('q \<Rightarrow> (MessageBuffer \<times> 'q) option) \<Rightarrow>
    ('q \<Rightarrow> MessageBuffer list) \<Rightarrow> 'q \<Rightarrow> bool" where
  "fifo_queue enqueue try_dequeue contents q0 \<longleftrightarrow>
     contents q0 = [] \<and> (\<forall>m q. contents (enqueue m q) = contents q @ [m]) \<and>
     (\<forall>q. case try_dequeue q of
            None \<Rightarrow> contents q = []
          | Some (m, q') \<Rightarrow> contents q = m # contents q')"

end
