(* ===== verification/Frame_Loop.thy ===== *)
theory Frame_Loop
  imports Feed_Reader
begin

text \<open>
  The loops that read a file frame by frame: file mode of \<^verbatim>\<open>main\<close>, the replay benchmark and the
  loading of a capture. A file is a list of frames and the way it ends (\<open>frames_of\<close>). The locale
  \<open>frame_loop\<close> states the shape the loops share, and shows once that on a regular file such a loop
  returns, with the result of consuming the frames in order.
\<close>

section \<open>The frames of a file\<close>

function frames_of :: "u8 list \<Rightarrow> MessageBuffer list \<times> feed_exn option" where
  "frames_of bs =
     (case next_frame bs of
        (Inl e, _) \<Rightarrow> ([], Some e)
      | (Inr None, _) \<Rightarrow> ([], None)
      | (Inr (Some m), rest) \<Rightarrow> (let (ms, e) = frames_of rest in (m # ms, e)))"
  by pat_completeness auto
termination
  by (relation "measure length") (auto dest!: sym [THEN next_frame_progress])

declare frames_of.simps [simp del]

lemma frames_of_frames:
  assumes "\<And>p. p \<in> set ps \<Longrightarrow> p \<noteq> [] \<and> length p < 2 ^ 16"
  shows "frames_of (concat (map frame ps)) = (ps, None)"
  using assms
proof (induction ps)
  case Nil
  show ?case by (simp add: frames_of.simps [of "[]"] next_frame_def)
next
  case (Cons p ps)
  have "next_frame (frame p @ concat (map frame ps)) = (Inr (Some p), concat (map frame ps))"
    using Cons.prems [of p] by (intro next_frame_frame) simp_all
  then show ?case using Cons by (simp add: frames_of.simps [of "frame p @ _"])
qed

section \<open>Loops over a reader\<close>

text \<open>
  \<open>guard\<close> may end the loop before it reads, \<open>step\<close> may end it at a frame, \<open>finish\<close> makes the result
  at the end of the file or on an exception of the reader.
\<close>

fun consume :: "('a \<Rightarrow> 'r option) \<Rightarrow> (MessageBuffer \<Rightarrow> 'a \<Rightarrow> 'r + 'a) \<Rightarrow> (feed_exn option \<Rightarrow> 'a \<Rightarrow> 'r) \<Rightarrow>
    MessageBuffer list \<Rightarrow> feed_exn option \<Rightarrow> 'a \<Rightarrow> 'r" where
  "consume guard step finish [] e a = (case guard a of Some r \<Rightarrow> r | None \<Rightarrow> finish e a)"
| "consume guard step finish (m # ms) e a =
     (case guard a of
        Some r \<Rightarrow> r
      | None \<Rightarrow> (case step m a of Inl r \<Rightarrow> r | Inr a' \<Rightarrow> consume guard step finish ms e a'))"

locale frame_loop =
  fixes sys_read :: "nat \<Rightarrow> 's \<Rightarrow> read_result \<times> 's"
    and loop :: "'s \<Rightarrow> 'a \<Rightarrow> 'r option"
    and guard :: "'a \<Rightarrow> 'r option"
    and step :: "MessageBuffer \<Rightarrow> 'a \<Rightarrow> 'r + 'a"
    and finish :: "feed_exn option \<Rightarrow> 'a \<Rightarrow> 'r"
  assumes loop_unfold: "loop s a =
    (case guard a of
       Some r \<Rightarrow> Some r
     | None \<Rightarrow>
         (case feed_next_message sys_read s of
            (Inl e, _) \<Rightarrow> Some (finish (Some e) a)
          | (Inr None, _) \<Rightarrow> Some (finish None a)
          | (Inr (Some buf), s') \<Rightarrow> (case step buf a of Inl r \<Rightarrow> Some r | Inr a' \<Rightarrow> loop s' a')))"
begin

lemma loop_frames:
  assumes "posix_read sys_read contents"
  shows "loop s a = Some (consume guard step finish (fst (frames_of (contents s))) (snd (frames_of (contents s))) a)"
proof (induction "length (contents s)" arbitrary: s a rule: less_induct)
  case less
  obtain r s' where nm: "feed_next_message sys_read s = (r, s')" by fastforce
  obtain r' rest where nf: "next_frame (contents s) = (r', rest)" by fastforce
  note fr = feed_next_message_frame [OF assms nm]
  have r: "r' = r" using fr nf by simp
  show ?case
  proof (cases "guard a")
    case None
    consider e where "r = Inl e" | "r = Inr None" | buf where "r = Inr (Some buf)" by (cases r) auto
    then show ?thesis
    proof cases
      case 3
      then have c: "contents s' = rest" using fr nf by simp
      have "length (contents s') < length (contents s)" using next_frame_progress nf r 3 c by blast
      note IH = less [OF this, unfolded c]
      have "frames_of (contents s) = (buf # fst (frames_of rest), snd (frames_of rest))"
        using nf r 3 by (simp add: frames_of.simps [of "contents s"] split_def Let_def)
      then show ?thesis using None nm 3 IH by (simp add: loop_unfold [of s] split: sum.split)
    qed (use None nf r nm in \<open>simp_all add: loop_unfold [of s] frames_of.simps [of "contents s"]\<close>)
  next
    case (Some x)
    then show ?thesis by (cases "fst (frames_of (contents s))") (simp_all add: loop_unfold [of s])
  qed
qed

end

end
