(* ===== verification/Udp_Socket.thy ===== *)
theory Udp_Socket
  imports Udp_Feed_Reader
begin

text \<open>
  The life cycle of the reader's socket in \<^verbatim>\<open>src/udp_feed_reader.cpp\<close>: the three helpers, the two
  constructors and the destructor. The system calls are parameters, collected in a record; they
  act on a world of type \<open>'w\<close> and return what the C functions return (a descriptor or a negative
  number). \<open>posix_sockets\<close> states what the manual pages say of them, with \<open>fds\<close> the set of
  descriptors open in a world.
\<close>

section \<open>The system calls\<close>

text \<open>\<^verbatim>\<open>sockaddr_in\<close> as the helper fills it; \<open>sin_port\<close> is in network byte order.\<close>

record sockaddr_in =
  sin_port :: "u8 list"
  sin_addr :: u32

record ip_mreq =
  imr_multiaddr :: u32
  imr_interface :: u32

record 'w socket_api =
  sys_socket :: "'w \<Rightarrow> int \<times> 'w"
  sys_reuseaddr :: "int \<Rightarrow> 'w \<Rightarrow> int \<times> 'w"
  sys_bind :: "int \<Rightarrow> sockaddr_in \<Rightarrow> 'w \<Rightarrow> int \<times> 'w"
  sys_inet_pton :: "string \<Rightarrow> u32 option"
  sys_add_membership :: "int \<Rightarrow> ip_mreq \<Rightarrow> 'w \<Rightarrow> int \<times> 'w"
  sys_close :: "int \<Rightarrow> 'w \<Rightarrow> int \<times> 'w"

definition posix_sockets :: "'w socket_api \<Rightarrow> ('w \<Rightarrow> int set) \<Rightarrow> bool" where
  "posix_sockets api fds \<longleftrightarrow>
     (\<forall>w. case sys_socket api w of (fd, w') \<Rightarrow>
            if fd < 0 then fds w' = fds w else fd \<notin> fds w \<and> fds w' = insert fd (fds w)) \<and>
     (\<forall>fd w. fds (snd (sys_reuseaddr api fd w)) = fds w) \<and>
     (\<forall>fd a w. fds (snd (sys_bind api fd a w)) = fds w) \<and>
     (\<forall>fd r w. fds (snd (sys_add_membership api fd r w)) = fds w) \<and>
     (\<forall>fd w. fds (snd (sys_close api fd w)) = fds w - {fd})"

text \<open>\<^verbatim>\<open>inet_pton\<close> accepts an IPv4 address in dotted-decimal form only.\<close>

definition dotted_decimal :: "string \<Rightarrow> bool" where
  "dotted_decimal s = list_all (\<lambda>c. c = CHR ''.'' \<or> 48 \<le> (of_char c :: nat) \<and> (of_char c :: nat) \<le> 57) s"

definition posix_inet_pton :: "(string \<Rightarrow> u32 option) \<Rightarrow> bool" where
  "posix_inet_pton pton \<longleftrightarrow> (\<forall>s a. pton s = Some a \<longrightarrow> dotted_decimal s)"

section \<open>Helpers, constructors and destructor\<close>

datatype udp_exn =
    SocketFailed
  | BindFailed
  | InvalidGroup string
  | InvalidInterface string
  | MembershipFailed

definition make_udp_socket :: "'w socket_api \<Rightarrow> 'w \<Rightarrow> (udp_exn + int) \<times> 'w" where
  "make_udp_socket api w =
     (let (sock, w1) = sys_socket api w
      in if sock < 0 then (Inl SocketFailed, w1)
         else let (_, w2) = sys_reuseaddr api sock w1 in (Inr sock, w2))"

definition bind_socket :: "'w socket_api \<Rightarrow> int \<Rightarrow> u16 \<Rightarrow> 'w \<Rightarrow> (udp_exn + unit) \<times> 'w" where
  "bind_socket api sock port w =
     (let addr = \<lparr>sin_port = be_bytes 2 (unat port), sin_addr = 0\<rparr>;
          (r, w1) = sys_bind api sock addr w
      in if r < 0 then (Inl BindFailed, w1) else (Inr (), w1))"

definition join_multicast :: "'w socket_api \<Rightarrow> int \<Rightarrow> string \<Rightarrow> string \<Rightarrow> 'w \<Rightarrow> (udp_exn + unit) \<times> 'w" where
  "join_multicast api sock mcast_group iface_ip w =
     (case sys_inet_pton api mcast_group of
        None \<Rightarrow> (Inl (InvalidGroup mcast_group), w)
      | Some g \<Rightarrow>
          (case sys_inet_pton api iface_ip of
             None \<Rightarrow> (Inl (InvalidInterface iface_ip), w)
           | Some i \<Rightarrow>
               let (r, w1) = sys_add_membership api sock \<lparr>imr_multiaddr = g, imr_interface = i\<rparr> w
               in if r < 0 then (Inl MembershipFailed, w1) else (Inr (), w1)))"

text \<open>
  A constructor that throws destroys the members only: \<^verbatim>\<open>sock_\<close> is a plain integer, and the
  destructor of the class does not run.
\<close>

definition udp_construct :: "'w socket_api \<Rightarrow> string \<Rightarrow> string \<Rightarrow> u16 \<Rightarrow> 'w \<Rightarrow> (udp_exn + int \<times> UDPFeedReader) \<times> 'w" where
  "udp_construct api mcast_group iface port w =
     (case make_udp_socket api w of
        (Inl e, w1) \<Rightarrow> (Inl e, w1)
      | (Inr sock, w1) \<Rightarrow>
          (case bind_socket api sock port w1 of
             (Inl e, w2) \<Rightarrow> (Inl e, w2)
           | (Inr _, w2) \<Rightarrow>
               (case join_multicast api sock mcast_group iface w2 of
                  (Inl e, w3) \<Rightarrow> (Inl e, w3)
                | (Inr _, w3) \<Rightarrow> (Inr (sock, udp_init), w3))))"

definition udp_construct_test :: "'w socket_api \<Rightarrow> u16 \<Rightarrow> 'w \<Rightarrow> (udp_exn + int \<times> UDPFeedReader) \<times> 'w" where
  "udp_construct_test api port w =
     (case make_udp_socket api w of
        (Inl e, w1) \<Rightarrow> (Inl e, w1)
      | (Inr sock, w1) \<Rightarrow>
          (case bind_socket api sock port w1 of
             (Inl e, w2) \<Rightarrow> (Inl e, w2)
           | (Inr _, w2) \<Rightarrow> (Inr (sock, udp_init), w2)))"

definition udp_destroy :: "'w socket_api \<Rightarrow> int \<Rightarrow> 'w \<Rightarrow> 'w" where
  "udp_destroy api sock w = (if sock \<ge> 0 then snd (sys_close api sock w) else w)"

section \<open>Descriptors\<close>

lemma make_udp_socket_fds:
  assumes "posix_sockets api fds" and "make_udp_socket api w = (r, w')"
  shows "case r of
      Inl e \<Rightarrow> e = SocketFailed \<and> fds w' = fds w
    | Inr fd \<Rightarrow> fd \<ge> 0 \<and> fd \<notin> fds w \<and> fds w' = insert fd (fds w)"
proof -
  obtain fd w1 where s: "sys_socket api w = (fd, w1)" by fastforce
  obtain x w2 where u: "sys_reuseaddr api fd w1 = (x, w2)" by fastforce
  have "if fd < 0 then fds w1 = fds w else fd \<notin> fds w \<and> fds w1 = insert fd (fds w)"
    using assms(1) s unfolding posix_sockets_def by (metis (mono_tags, lifting) case_prod_conv)
  moreover have "fds w2 = fds w1" using assms(1) u unfolding posix_sockets_def by (metis snd_conv)
  ultimately show ?thesis using assms(2) s u by (auto simp: make_udp_socket_def split: if_splits)
qed

lemma bind_socket_fds:
  assumes "posix_sockets api fds"
  shows "fds (snd (bind_socket api sock port w)) = fds w"
    and "fst (bind_socket api sock port w) = Inl e \<Longrightarrow> e = BindFailed"
  using assms by (simp_all add: bind_socket_def posix_sockets_def Let_def split_def split: if_splits)

lemma join_multicast_fds:
  assumes "posix_sockets api fds"
  shows "fds (snd (join_multicast api sock mcast_group iface w)) = fds w"
    and "fst (join_multicast api sock mcast_group iface w) = Inl e \<Longrightarrow> e \<noteq> SocketFailed"
  using assms by (auto simp: join_multicast_def posix_sockets_def Let_def split_def split: if_splits option.splits)

lemma udp_destroy_fds: "posix_sockets api fds \<Longrightarrow> 0 \<le> fd \<Longrightarrow> fds (udp_destroy api fd w) = fds w - {fd}"
  by (simp add: udp_destroy_def posix_sockets_def)

lemma udp_construct_fds:
  assumes api: "posix_sockets api fds" and c: "udp_construct api mcast_group iface port w = (r, w')"
  shows "case r of
      Inl e \<Rightarrow> if e = SocketFailed then fds w' = fds w
               else \<exists>fd. fd \<notin> fds w \<and> fds w' = insert fd (fds w)
    | Inr (fd, u) \<Rightarrow> u = udp_init \<and> 0 \<le> fd \<and> fd \<notin> fds w \<and> fds w' = insert fd (fds w)"
proof -
  obtain r1 w1 where s: "make_udp_socket api w = (r1, w1)" by fastforce
  note f = make_udp_socket_fds [OF api s]
  show ?thesis
  proof (cases r1)
    case (Inl e)
    then show ?thesis using c f by (auto simp: udp_construct_def s)
  next
    case (Inr fd)
    obtain r2 w2 where b: "bind_socket api fd port w1 = (r2, w2)" by fastforce
    have b': "fds w2 = fds w1" "r2 = Inl e \<Longrightarrow> e = BindFailed" for e
      using bind_socket_fds [OF api, of fd port w1] by (simp_all add: b)
    obtain r3 w3 where j: "join_multicast api fd mcast_group iface w2 = (r3, w3)" by fastforce
    have j': "fds w3 = fds w2" "r3 = Inl e \<Longrightarrow> e \<noteq> SocketFailed" for e
      using join_multicast_fds [OF api, of fd mcast_group iface w2] by (simp_all add: j)
    show ?thesis
      using c f b' j' Inr by (cases r2; cases r3) (auto simp: udp_construct_def s b j)
  qed
qed

lemma udp_construct_interface:
  assumes "posix_inet_pton (sys_inet_pton api)" and "\<not> dotted_decimal iface"
  shows "\<exists>e w'. udp_construct api mcast_group iface port w = (Inl e, w')"
proof -
  have "sys_inet_pton api iface = None"
    using assms by (cases "sys_inet_pton api iface") (auto simp: posix_inet_pton_def)
  then show ?thesis
    by (auto simp: udp_construct_def join_multicast_def Let_def split: prod.split sum.split option.split)
qed

section \<open>Properties\<close>

text \<open>
  (C35) Opening and closing the reader's socket. A constructor that succeeds has opened one fresh
  descriptor, the reader starts in its initial state, and the destructor gives the descriptor
  back. A constructor that throws because \<^verbatim>\<open>socket()\<close> failed leaves the descriptors as they were;
  one that throws for any other reason has lost one: a fresh descriptor stays open and no object
  is left to close it.
\<close>

theorem udp_socket_lifecycle:
  assumes "posix_sockets api fds"
  shows "case udp_construct api mcast_group iface port w of
      (Inr (fd, u), w') \<Rightarrow>
        u = udp_init \<and> fd \<notin> fds w \<and> fds w' = insert fd (fds w) \<and> fds (udp_destroy api fd w') = fds w
    | (Inl e, w') \<Rightarrow>
        if e = SocketFailed then fds w' = fds w
        else \<exists>fd. fd \<notin> fds w \<and> fds w' = insert fd (fds w)"
proof -
  obtain r w' where c: "udp_construct api mcast_group iface port w = (r, w')" by fastforce
  show ?thesis
    using udp_construct_fds [OF assms c] udp_destroy_fds [OF assms]
    by (cases r) (auto simp: c)
qed

text \<open>A world that is the list of open descriptors, on which every call succeeds.\<close>

definition list_api :: "int list socket_api" where
  "list_api = \<lparr>
     sys_socket = (\<lambda>w. let fd = int (length w) in if fd \<in> set w then (-1, w) else (fd, fd # w)),
     sys_reuseaddr = (\<lambda>fd w. (0, w)), sys_bind = (\<lambda>fd a w. (0, w)),
     sys_inet_pton = (\<lambda>s. if s = ''233.54.12.111'' then Some 0xE9360C6F else None),
     sys_add_membership = (\<lambda>fd r w. (0, w)), sys_close = (\<lambda>fd w. (0, filter (\<lambda>x. x \<noteq> fd) w))\<rparr>"

lemma list_api_posix: "posix_sockets list_api set"
  by (auto simp: posix_sockets_def list_api_def Let_def)

lemma list_api_inet_pton: "posix_inet_pton (sys_inet_pton list_api)"
  by (auto simp: posix_inet_pton_def list_api_def dotted_decimal_def split: if_splits)

lemma list_api_eth0:
  "udp_construct list_api ''233.54.12.111'' ''eth0'' 26477 [] = (Inl (InvalidInterface ''eth0''), [0])"
  by (simp add: udp_construct_def make_udp_socket_def bind_socket_def join_multicast_def list_api_def)

theorem udp_socket_lifecycle_witness:
  "posix_sockets list_api set \<and>
   udp_construct list_api ''233.54.12.111'' ''eth0'' 26477 [] = (Inl (InvalidInterface ''eth0''), [0]) \<and>
   (\<exists>fd. set [0] = insert fd (set ([] :: int list)))"
  using udp_socket_lifecycle [OF list_api_posix, where mcast_group = "''233.54.12.111''"
      and iface = "''eth0''" and port = 26477 and w = "[]"]
    list_api_posix list_api_eth0
  by simp

end
