(* ===== verification/Pipeline_Properties.thy ===== *)
theory Pipeline_Properties
  imports Pipeline Frame_Loop Udp_Socket Wire_Format Snapshot_Properties
begin

text \<open>
  The pipeline end to end: file mode terminates and processes exactly the frames of the file, a
  file of encoded messages leaves the engine in the state of the feed with its snapshot
  published, and live mode loses and reorders nothing between the reader and the engine.
\<close>

section \<open>File mode as a loop over frames\<close>

interpretation file_mode: frame_loop sys_read "file_loop sys_read env" "\<lambda>_. None"
  "\<lambda>buf w. case process env buf w of Inl f \<Rightarrow> Inl (Inl f) | Inr w' \<Rightarrow> Inr w'" "\<lambda>e w. Inr (e, w)"
  by unfold_locales
    (simp add: file_loop.simps [of sys_read env] split: prod.split sum.split option.split)

lemma file_consume:
  "consume (\<lambda>_. None) (\<lambda>buf w. case process env buf w of Inl f \<Rightarrow> Inl (Inl f) | Inr w' \<Rightarrow> Inr w')
     (\<lambda>e w. Inr (e, w)) ms e w =
   (case process_all env ms w of Inl f \<Rightarrow> Inl f | Inr w' \<Rightarrow> Inr (e, w'))"
  by (induction ms arbitrary: w) (simp_all split: sum.split)

lemma file_loop_frames:
  assumes "posix_read sys_read contents"
  shows "file_loop sys_read env s w = Some
     (case process_all env (fst (frames_of (contents s))) w of
        Inl f \<Rightarrow> Inl f
      | Inr w' \<Rightarrow> Inr (snd (frames_of (contents s)), w'))"
  using file_mode.loop_frames [OF assms] by (simp only: file_consume)

lemma process_ok:
  assumes "snapshot_interval (fst w) \<noteq> 0"
  shows "\<exists>w'. process env b w = Inr w' \<and> snapshot_interval (fst w') \<noteq> 0"
proof -
  have "\<exists>w'. apply_msg env m w = Inr w' \<and> snapshot_interval (fst w') \<noteq> 0" for m
    using assms by (simp add: apply_msg_def Let_def maybe_publish_snapshot_def umod_def handle_keeps_control)
  with assms show ?thesis
    by (auto simp: process_def simp del: split_paired_Ex split: sum.split option.split)
qed

lemma process_all_ok:
  "snapshot_interval (fst w) \<noteq> 0 \<Longrightarrow> \<exists>w'. process_all env ms w = Inr w' \<and> snapshot_interval (fst w') \<noteq> 0"
proof (induction ms arbitrary: w)
  case (Cons b ms)
  obtain w' where "process env b w = Inr w'" "snapshot_interval (fst w') \<noteq> 0"
    using process_ok [OF Cons.prems] by blast
  with Cons.IH show ?case by simp
qed (simp del: split_paired_Ex)

lemma encode_frame_ok: "encode m \<noteq> [] \<and> length (encode m) < 2 ^ 16"
proof -
  have "0 < length (encode m) \<and> length (encode m) < 2 ^ 16"
    unfolding length_encode by (cases m) simp_all
  then show ?thesis by auto
qed

section \<open>A file of encoded messages\<close>

lemma process_encode: "encodable m \<Longrightarrow> process env (encode m) w = apply_msg env m w"
  using parse_encode_append [of m "[]"] by (simp add: process_def)

lemma process_all_encode:
  "list_all encodable ms \<Longrightarrow> process_all env (map encode ms) w = apply_all env ms w"
  by (induction ms arbitrary: w) (simp_all add: process_encode split: sum.split)

text \<open>The messages of a list of buffers: those that parse to one, in order.\<close>

definition parsed_messages :: "MessageBuffer list \<Rightarrow> ParsedMessage list" where
  "parsed_messages bufs = concat (map (\<lambda>b. case parse b of Inr (Some m) \<Rightarrow> [m] | _ \<Rightarrow> []) bufs)"

lemma parsed_messages_append [simp]: "parsed_messages (bs @ bs') = parsed_messages bs @ parsed_messages bs'"
  by (simp add: parsed_messages_def)

lemma parsed_messages_empty: "parsed_messages bs = [] \<longleftrightarrow> (\<forall>b m. b \<in> set bs \<longrightarrow> parse b \<noteq> Inr (Some m))"
  by (induction bs) (auto simp: parsed_messages_def split: sum.splits option.splits)

lemma process_all_parsed: "process_all env bs w = apply_all env (parsed_messages bs) w"
  by (induction bs arbitrary: w) (auto simp: parsed_messages_def process_def split: sum.split option.split)


section \<open>Live mode\<close>

inductive_cases live_stepE: "live_step enqueue try_dequeue env s s'"

lemma process_all_append:
  "process_all env (ms @ ms') w = (case process_all env ms w of Inl f \<Rightarrow> Inl f | Inr w' \<Rightarrow> process_all env ms' w')"
  by (induction ms arbitrary: w) (auto split: sum.split)

lemma process_all_snoc:
  "process_all env (ms @ [m]) w = (case process_all env ms w of Inl f \<Rightarrow> Inl f | Inr w' \<Rightarrow> process env m w')"
  by (auto simp: process_all_append split: sum.split)

lemma fifo_enqueue: "fifo_queue enq deq contents q0 \<Longrightarrow> contents (enq m q) = contents q @ [m]"
  by (simp add: fifo_queue_def)

lemma fifo_dequeue: "fifo_queue enq deq contents q0 \<Longrightarrow> deq q = Some (m, q') \<Longrightarrow> contents q = m # contents q'"
  unfolding fifo_queue_def by (metis (mono_tags, lifting) case_prod_conv option.simps(5))

lemma fifo_empty: "fifo_queue enq deq contents q0 \<Longrightarrow> deq q = None \<Longrightarrow> contents q = []"
  unfolding fifo_queue_def by (metis (mono_tags, lifting) option.simps(4))

text \<open>
  What has been processed is what was enqueued less what is still in the queue, and what was
  enqueued is a prefix of what the reader delivers.
\<close>

definition processed :: "('q \<Rightarrow> MessageBuffer list) \<Rightarrow> (Engine \<Rightarrow> SnapEnv) \<Rightarrow> world \<Rightarrow> 'q Live \<Rightarrow> world \<Rightarrow> bool" where
  "processed contents env w0 s w \<longleftrightarrow>
     (\<exists>ms. lv_enqueued s = ms @ contents (lv_queue s) \<and> process_all env ms w0 = Inr w)"

definition live_inv :: "('q \<Rightarrow> MessageBuffer list) \<Rightarrow> (Engine \<Rightarrow> SnapEnv) \<Rightarrow> world \<Rightarrow> recv_event list \<Rightarrow>
    'q Live \<Rightarrow> bool" where
  "live_inv contents env w0 evs s \<longleftrightarrow>
     ud_sock_open (lv_reader s) \<and>
     lv_enqueued s @ udp_stream (lv_reader s) (lv_events s) = udp_stream udp_init evs \<and>
     (lv_recv_done s \<longleftrightarrow> lv_recv s = RecvDone) \<and>
     (lv_recv s \<noteq> RecvLoop \<longrightarrow> lv_enqueued s = []) \<and>
     (lv_engine s \<in> {Drain, EngineDone} \<longrightarrow> lv_recv_done s) \<and>
     (lv_engine s \<in> {CheckFlag, TryDequeue, Drain} \<longrightarrow> processed contents env w0 s (lv_world s)) \<and>
     (lv_engine s = EngineDone \<longrightarrow>
        (\<exists>w. processed contents env w0 s w \<and> lv_world s = set_pipeline_complete env w) \<and> contents (lv_queue s) = [])"

lemma processed_cong:
  "lv_enqueued s' = lv_enqueued s \<Longrightarrow> lv_queue s' = lv_queue s \<Longrightarrow>
     processed contents env w0 s' w = processed contents env w0 s w"
  by (simp add: processed_def)

lemma processed_enqueue:
  assumes "fifo_queue enq deq contents q0" and "processed contents env w0 s w"
    and "lv_enqueued s' = lv_enqueued s @ [m]" and "lv_queue s' = enq m (lv_queue s)"
  shows "processed contents env w0 s' w"
  using assms(2-4) by (auto simp: processed_def fifo_enqueue [OF assms(1)])

lemma processed_dequeue:
  assumes "fifo_queue enq deq contents q0" and "processed contents env w0 s w" and "deq (lv_queue s) = Some (m, q)"
    and "process env m w = Inr w'" and "lv_enqueued s' = lv_enqueued s" and "lv_queue s' = q"
  shows "processed contents env w0 s' w'"
proof -
  obtain ms where ms: "lv_enqueued s = ms @ contents (lv_queue s)" "process_all env ms w0 = Inr w"
    using assms(2) by (auto simp: processed_def)
  have "lv_enqueued s' = (ms @ [m]) @ contents (lv_queue s')"
    using ms(1) fifo_dequeue [OF assms(1,3)] assms(5,6) by simp
  moreover have "process_all env (ms @ [m]) w0 = Inr w'" using ms(2) assms(4) by (simp add: process_all_snoc)
  ultimately show ?thesis unfolding processed_def by blast
qed

lemma live_inv_step:
  assumes "fifo_queue enq deq contents q0" and "live_inv contents env w0 evs s" and "live_step enq deq env s s'"
  shows "live_inv contents env w0 evs s'"
  using assms(3)
proof (cases rule: live_step.cases)
  case (recv_message m u evs')
  have open_sock: "ud_sock_open (lv_reader s)" using assms(2) by (simp add: live_inv_def)
  have st: "ud_sock_open u \<and> udp_stream (lv_reader s) (lv_events s) = m # udp_stream u evs'"
    by (rule udp_next_message_stream [OF open_sock, of "lv_events s"]) (use recv_message in auto)
  have "processed contents env w0 s' w" if "processed contents env w0 s w" for w
    by (rule processed_enqueue [OF assms(1) that]) (simp_all add: recv_message)
  then show ?thesis
    using assms(2) st recv_message(1,2) by (auto simp: live_inv_def)
next
  case (recv_closed u evs')
  have open_sock: "ud_sock_open (lv_reader s)" using assms(2) by (simp add: live_inv_def)
  have False by (rule udp_next_message_stream [OF open_sock, of "lv_events s"]) (use recv_closed in auto)
  then show ?thesis ..
next
  case (poll_process m q w)
  have "processed contents env w0 s (lv_world s)" using assms(2) poll_process(2) by (simp add: live_inv_def)
  then have "processed contents env w0 s' w"
    by (rule processed_dequeue [OF assms(1) _ poll_process(3,4)]) (simp_all add: poll_process(1))
  then show ?thesis using assms(2) poll_process(1,2) by (simp add: live_inv_def)
next
  case (drain_process m q w)
  have "processed contents env w0 s (lv_world s)" using assms(2) drain_process(2) by (simp add: live_inv_def)
  then have "processed contents env w0 s' w"
    by (rule processed_dequeue [OF assms(1) _ drain_process(3,4)]) (simp_all add: drain_process(1))
  then show ?thesis using assms(2) drain_process(1,2) by (auto simp: live_inv_def)
next
  case drain_finish
  have "processed contents env w0 s (lv_world s)" using assms(2) drain_finish(2) by (simp add: live_inv_def)
  then have "processed contents env w0 s' (lv_world s)" by (simp add: drain_finish(1) processed_def)
  then have "\<exists>w. processed contents env w0 s' w \<and> lv_world s' = set_pipeline_complete env w"
    by (intro exI [of _ "lv_world s"]) (simp add: drain_finish(1))
  then show ?thesis
    using assms(2) drain_finish(1,2) fifo_empty [OF assms(1) drain_finish(3)]
    by (auto simp: live_inv_def simp del: split_paired_Ex)
qed (use assms(2) in \<open>auto simp: live_inv_def processed_def\<close>)


lemma live_inv_reaches:
  assumes "fifo_queue enq deq contents q0"
    and "live_reaches enq deq env (live_init q0 evs cf) s"
    and "w0 = (set_snapshot_interval (cf_snapshot_interval cf) init_engine, None)"
  shows "live_inv contents env w0 evs s"
  using assms(2)
proof (induction rule: rtranclp_induct)
  case base
  have "process_all env [] w0 = Inr w0" by simp
  moreover have "contents q0 = []" using assms(1) by (simp add: fifo_queue_def)
  ultimately show ?case by (auto simp: live_inv_def live_init_def assms(3) udp_init_def processed_def)
next
  case (step s s')
  then show ?case using live_inv_step [OF assms(1)] by blast
qed

section \<open>Progress\<close>

lemma engine_round:
  assumes fifo: "fifo_queue enq deq contents q0" and pc: "lv_engine s \<in> {CheckFlag, TryDequeue, Drain}"
    and q: "contents (lv_queue s) = m # rest" and p: "process env m (lv_world s) = Inr w"
  shows "\<exists>s'. live_reaches enq deq env s s' \<and> lv_engine s' \<in> {CheckFlag, TryDequeue, Drain} \<and>
    contents (lv_queue s') = rest \<and> lv_enqueued s' = lv_enqueued s \<and> lv_world s' = w"
proof -
  obtain q' where d: "deq (lv_queue s) = Some (m, q')" "contents q' = rest"
    using fifo q unfolding fifo_queue_def by (cases "deq (lv_queue s)") (auto dest!: spec [of _ "lv_queue s"])
  let ?done = "\<lambda>t. lv_engine t \<in> {CheckFlag, TryDequeue, Drain} \<and> contents (lv_queue t) = rest \<and>
    lv_enqueued t = lv_enqueued s \<and> lv_world t = w"
  have poll: "\<exists>s'. live_step enq deq env t s' \<and> ?done s'"
    if "lv_engine t = TryDequeue" "lv_queue t = lv_queue s" "lv_world t = lv_world s" "lv_enqueued t = lv_enqueued s"
    for t
    using live_step.poll_process [of t deq m q' env w enq] that d p
    by (intro exI [of _ "t\<lparr>lv_queue := q', lv_world := w, lv_engine := CheckFlag\<rparr>"]) simp
  have drain: "\<exists>s'. live_step enq deq env t s' \<and> ?done s'"
    if "lv_engine t = Drain" "lv_queue t = lv_queue s" "lv_world t = lv_world s" "lv_enqueued t = lv_enqueued s"
    for t
    using live_step.drain_process [of t deq m q' env w enq] that d p
    by (intro exI [of _ "t\<lparr>lv_queue := q', lv_world := w\<rparr>"]) simp
  consider "lv_engine s = CheckFlag" | "lv_engine s = TryDequeue" | "lv_engine s = Drain" using pc by blast
  then show ?thesis
  proof cases
    case 1
    show ?thesis
    proof (cases "lv_recv_done s")
      case True
      then have "live_step enq deq env s (s\<lparr>lv_engine := Drain\<rparr>)" using 1 by (intro live_step.flag_set)
      with drain [of "s\<lparr>lv_engine := Drain\<rparr>"] show ?thesis
        by (auto intro: converse_rtranclp_into_rtranclp)
    next
      case False
      then have "live_step enq deq env s (s\<lparr>lv_engine := TryDequeue\<rparr>)" using 1 by (intro live_step.flag_clear)
      with poll [of "s\<lparr>lv_engine := TryDequeue\<rparr>"] show ?thesis
        by (auto intro: converse_rtranclp_into_rtranclp)
    qed
  qed (use poll [of s] drain [of s] in blast)+
qed

lemma engine_catches_up:
  assumes fifo: "fifo_queue enq deq contents q0" and "lv_engine s \<in> {CheckFlag, TryDequeue, Drain}"
    and "snapshot_interval (fst (lv_world s)) \<noteq> 0"
  shows "\<exists>s'. live_reaches enq deq env s s' \<and> lv_engine s' \<in> {CheckFlag, TryDequeue, Drain} \<and>
    contents (lv_queue s') = [] \<and> lv_enqueued s' = lv_enqueued s \<and>
    process_all env (contents (lv_queue s)) (lv_world s) = Inr (lv_world s')"
  using assms(2,3)
proof (induction "contents (lv_queue s)" arbitrary: s)
  case Nil
  then have "live_reaches enq deq env s s \<and> lv_engine s \<in> {CheckFlag, TryDequeue, Drain} \<and>
      contents (lv_queue s) = [] \<and> lv_enqueued s = lv_enqueued s \<and>
      process_all env (contents (lv_queue s)) (lv_world s) = Inr (lv_world s)" using Nil(1) [symmetric] by simp
  then show ?case by blast
next
  case (Cons m rest)
  obtain w where w: "process env m (lv_world s) = Inr w" "snapshot_interval (fst w) \<noteq> 0"
    using process_ok [OF Cons.prems(2)] by blast
  obtain t where t: "live_reaches enq deq env s t" "lv_engine t \<in> {CheckFlag, TryDequeue, Drain}"
    "contents (lv_queue t) = rest" "lv_enqueued t = lv_enqueued s" "lv_world t = w"
    using engine_round [OF fifo Cons.prems(1) Cons.hyps(2) [symmetric] w(1)] by blast
  obtain s' where s': "live_reaches enq deq env t s'" "contents (lv_queue s') = []" "lv_enqueued s' = lv_enqueued t"
    "lv_engine s' \<in> {CheckFlag, TryDequeue, Drain}" "process_all env rest w = Inr (lv_world s')"
    using Cons.hyps(1) [OF t(3) [symmetric] t(2)] w(2) t(3,5) by auto
  have "process_all env (contents (lv_queue s)) (lv_world s) = Inr (lv_world s')"
    using s'(5) w(1) by (simp add: Cons.hyps(2) [symmetric])
  with t s' show ?case by (metis rtranclp_trans)
qed

section \<open>Bounded response\<close>

text \<open>
  A step belongs to the engine thread when it leaves the receive thread where it was: each step of
  the receive thread moves its program counter or enqueues a message.
\<close>

definition engine_turn :: "'q Live \<Rightarrow> 'q Live \<Rightarrow> bool" where
  "engine_turn s s' \<longleftrightarrow> lv_recv s' = lv_recv s \<and> lv_enqueued s' = lv_enqueued s"

text \<open>
  A poll that misses: it finds nothing although a message is queued, because the enqueue is not
  visible to the engine thread yet.
\<close>

definition poll_misses :: "('q \<Rightarrow> MessageBuffer list) \<Rightarrow> 'q Live \<Rightarrow> 'q Live \<Rightarrow> bool" where
  "poll_misses contents s s' \<longleftrightarrow>
     lv_engine s = TryDequeue \<and> contents (lv_queue s) \<noteq> [] \<and> contents (lv_queue s') = contents (lv_queue s)"

text \<open>
  Runs with \<open>k\<close> steps of the engine thread, \<open>j\<close> of them polls that miss, interleaved in any way with
  steps of the receive thread.
\<close>

inductive live_run :: "(MessageBuffer \<Rightarrow> 'q \<Rightarrow> 'q) \<Rightarrow> ('q \<Rightarrow> (MessageBuffer \<times> 'q) option) \<Rightarrow>
    ('q \<Rightarrow> MessageBuffer list) \<Rightarrow> (Engine \<Rightarrow> SnapEnv) \<Rightarrow> 'q Live \<Rightarrow> nat \<Rightarrow> nat \<Rightarrow> 'q Live \<Rightarrow> bool"
  for enqueue try_dequeue contents env s where
  run_start: "live_run enqueue try_dequeue contents env s 0 0 s"
| run_recv: "live_run enqueue try_dequeue contents env s k j t \<Longrightarrow> live_step enqueue try_dequeue env t s' \<Longrightarrow>
     \<not> engine_turn t s' \<Longrightarrow> live_run enqueue try_dequeue contents env s k j s'"
| run_engine: "live_run enqueue try_dequeue contents env s k j t \<Longrightarrow> live_step enqueue try_dequeue env t s' \<Longrightarrow>
     engine_turn t s' \<Longrightarrow> \<not> poll_misses contents t s' \<Longrightarrow> live_run enqueue try_dequeue contents env s (Suc k) j s'"
| run_miss: "live_run enqueue try_dequeue contents env s k j t \<Longrightarrow> live_step enqueue try_dequeue env t s' \<Longrightarrow>
     engine_turn t s' \<Longrightarrow> poll_misses contents t s' \<Longrightarrow>
     live_run enqueue try_dequeue contents env s (Suc k) (Suc j) s'"

lemma live_run_reaches: "live_run enq deq contents env s k j s' \<Longrightarrow> live_reaches enq deq env s s'"
  by (induction rule: live_run.induct) (auto intro: rtranclp.rtrancl_into_rtrancl)

lemma live_step_enqueued: "live_step enq deq env s s' \<Longrightarrow> \<exists>x. lv_enqueued s' = lv_enqueued s @ x"
  by (erule live_step.cases) auto

lemma live_reaches_enqueued: "live_reaches enq deq env s s' \<Longrightarrow> \<exists>x. lv_enqueued s' = lv_enqueued s @ x"
proof (induction rule: rtranclp_induct)
  case (step t s')
  then show ?case using live_step_enqueued [OF step(2)] by (metis append.assoc)
qed simp

text \<open>With a snapshot interval other than 0 the engine thread never crashes.\<close>

lemma running_interval:
  assumes "live_inv contents env w0 evs s" and "snapshot_interval (fst w0) \<noteq> 0"
    and "lv_engine s \<in> {CheckFlag, TryDequeue, Drain}"
  shows "snapshot_interval (fst (lv_world s)) \<noteq> 0"
proof -
  obtain ms where "process_all env ms w0 = Inr (lv_world s)"
    using assms(1,3) by (auto simp: live_inv_def processed_def)
  then show ?thesis using process_all_ok [OF assms(2), of env ms] by auto
qed

lemma never_crashed_step:
  assumes "live_inv contents env w0 evs s" and "snapshot_interval (fst w0) \<noteq> 0" and "lv_engine s \<noteq> Crashed"
    and "live_step enq deq env s s'"
  shows "lv_engine s' \<noteq> Crashed"
  using assms(4)
proof (cases rule: live_step.cases)
  case (process_fault m q f)
  then have "snapshot_interval (fst (lv_world s)) \<noteq> 0" using running_interval [OF assms(1,2)] by blast
  from process_ok [OF this, of env m] process_fault(4) show ?thesis by auto
qed (use assms(3) in auto)

lemma never_crashed:
  assumes "fifo_queue enq deq contents q0" and "live_reaches enq deq env (live_init q0 evs cf) s"
    and "cf_snapshot_interval cf \<noteq> 0"
  shows "lv_engine s \<noteq> Crashed"
  using assms(2)
proof (induction rule: rtranclp_induct)
  case base
  then show ?case by (simp add: live_init_def)
next
  case (step t s)
  show ?case
    by (rule never_crashed_step [OF live_inv_reaches [OF assms(1) step(1) refl] _ step(3,2)])
      (simp add: set_snapshot_interval_def assms(3))
qed

text \<open>
  The number of the first \<open>n\<close> enqueued messages that are not processed yet, and how many engine
  steps they can still take without misses: a check of the flag and a poll for each.
\<close>

definition backlog :: "('q \<Rightarrow> MessageBuffer list) \<Rightarrow> nat \<Rightarrow> 'q Live \<Rightarrow> nat" where
  "backlog contents n s = n - (length (lv_enqueued s) - length (contents (lv_queue s)))"

definition response :: "('q \<Rightarrow> MessageBuffer list) \<Rightarrow> nat \<Rightarrow> 'q Live \<Rightarrow> nat" where
  "response contents n s =
     (if lv_engine s = CheckFlag then 2 * backlog contents n s else 2 * backlog contents n s - 1)"

lemma inv_queue_le:
  assumes "live_inv contents env w0 evs s" and "lv_engine s \<noteq> Crashed"
  shows "length (contents (lv_queue s)) \<le> length (lv_enqueued s)"
  using assms by (cases "lv_engine s") (auto simp: live_inv_def processed_def)

lemma inv_processed:
  assumes "live_inv contents env w0 evs s" and "lv_engine s \<noteq> Crashed"
  obtains ms w where "lv_enqueued s = ms @ contents (lv_queue s)" and "process_all env ms w0 = Inr w"
    and "lv_world s = (if lv_engine s = EngineDone then set_pipeline_complete env w else w)"
proof (cases "lv_engine s = EngineDone")
  case True
  then obtain w where "processed contents env w0 s w" "lv_world s = set_pipeline_complete env w"
    using assms(1) by (auto simp: live_inv_def simp del: split_paired_Ex)
  with True that show thesis unfolding processed_def by metis
next
  case False
  then have "lv_engine s \<in> {CheckFlag, TryDequeue, Drain}" using assms(2) by (cases "lv_engine s") simp_all
  then have "processed contents env w0 s (lv_world s)" using assms(1) by (simp add: live_inv_def)
  with False that show thesis unfolding processed_def by metis
qed

lemma backlog_queued:
  assumes "live_inv contents env w0 evs s" and "lv_engine s \<noteq> Crashed" and "n \<le> length (lv_enqueued s)"
  shows "backlog contents n s \<le> length (contents (lv_queue s))"
  using inv_queue_le [OF assms(1,2)] assms(3) by (simp add: backlog_def)

lemma response_recv:
  assumes "fifo_queue enq deq contents q0" and "live_step enq deq env s s'" and "\<not> engine_turn s s'"
  shows "response contents n s' = response contents n s"
  using assms(2,3)
  by (cases rule: live_step.cases)
    (auto simp: engine_turn_def response_def backlog_def fifo_enqueue [OF assms(1)])

lemma response_engine:
  assumes fifo: "fifo_queue enq deq contents q0" and inv: "live_inv contents env w0 evs s"
    and nc: "lv_engine s \<noteq> Crashed" and n: "n \<le> length (lv_enqueued s)"
    and st: "live_step enq deq env s s'" "engine_turn s s'"
    and poll: "\<not> poll_misses contents s s'"
  shows "response contents n s' \<le> response contents n s - 1"
proof -
  note le = inv_queue_le [OF inv nc]
  note defs = response_def backlog_def
  have taken: "response contents n s' \<le> response contents n s - 1"
    if "deq (lv_queue s) = Some (m, q)" "lv_queue s' = q" "lv_enqueued s' = lv_enqueued s" "lv_engine s \<noteq> CheckFlag"
    for m q
    using fifo_dequeue [OF fifo that(1)] that(2-4) le n by (auto simp: defs)
  show ?thesis
    using st(1)
  proof (cases rule: live_step.cases)
    case poll_empty
    then have "contents (lv_queue s) = []" using poll by (auto simp: poll_misses_def)
    then show ?thesis using n poll_empty by (simp add: defs)
  next
    case drain_finish
    then show ?thesis using n fifo_empty [OF fifo drain_finish(3)] by (simp add: defs)
  qed (use taken st(2) in \<open>auto simp: defs engine_turn_def\<close>)
qed

lemma response_miss:
  assumes "live_step enq deq env s s'" and "engine_turn s s'" and "poll_misses contents s s'"
  shows "response contents n s' \<le> (if response contents n s = 0 then 0 else Suc (response contents n s))"
proof -
  have "backlog contents n s' = backlog contents n s"
    using assms(2,3) by (simp add: backlog_def engine_turn_def poll_misses_def)
  moreover have "lv_engine s = TryDequeue" using assms(3) by (simp add: poll_misses_def)
  ultimately show ?thesis by (simp add: response_def)
qed

lemma response_bound:
  assumes fifo: "fifo_queue enq deq contents q0"
    and r: "live_reaches enq deq env (live_init q0 evs cf) s" and k: "cf_snapshot_interval cf \<noteq> 0"
    and n: "n \<le> length (lv_enqueued s)"
  shows "live_run enq deq contents env s k j s' \<Longrightarrow> response contents n s' \<le> response contents n s + 2 * j - k"
proof (induction rule: live_run.induct)
  case (run_recv k j t s')
  then show ?case using response_recv [OF fifo run_recv.hyps(2,3)] by simp
next
  case (run_engine k j t s')
  have t: "live_reaches enq deq env (live_init q0 evs cf) t"
    using r live_run_reaches [OF run_engine.hyps(1)] by (rule rtranclp_trans)
  have "n \<le> length (lv_enqueued t)"
    using n live_reaches_enqueued [OF live_run_reaches [OF run_engine.hyps(1)]] by auto
  from response_engine [OF fifo live_inv_reaches [OF fifo t refl] never_crashed [OF fifo t k] this run_engine.hyps(2-4)]
  show ?case using run_engine.IH by linarith
next
  case (run_miss k j t s')
  then show ?case using response_miss [OF run_miss.hyps(2-4), of n] by (auto split: if_splits)
qed simp

text \<open>The engine thread can always take its next step while it runs, whatever the receive thread does.\<close>

lemma engine_never_blocked:
  assumes fifo: "fifo_queue enq deq contents q0" and pc: "lv_engine s \<in> {CheckFlag, TryDequeue, Drain}"
    and k: "snapshot_interval (fst (lv_world s)) \<noteq> 0"
  shows "\<exists>s'. live_step enq deq env s s' \<and> engine_turn s s' \<and> \<not> poll_misses contents s s'"
proof (cases "lv_engine s = CheckFlag")
  case True
  then have "live_step enq deq env s (s\<lparr>lv_engine := if lv_recv_done s then Drain else TryDequeue\<rparr>)"
    using live_step.flag_set [of s] live_step.flag_clear [of s] by (cases "lv_recv_done s") simp_all
  with True show ?thesis
    by (intro exI [of _ "s\<lparr>lv_engine := if lv_recv_done s then Drain else TryDequeue\<rparr>"]) (simp add: engine_turn_def poll_misses_def)
next
  case False
  show ?thesis
  proof (cases "deq (lv_queue s)")
    case None
    then have e: "contents (lv_queue s) = []" by (rule fifo_empty [OF fifo])
    let ?t = "if lv_engine s = TryDequeue then s\<lparr>lv_engine := CheckFlag\<rparr>
        else s\<lparr>lv_engine := EngineDone, lv_world := set_pipeline_complete env (lv_world s)\<rparr>"
    have "live_step enq deq env s ?t"
      using live_step.poll_empty [of s] live_step.drain_finish [of s] pc False None by auto
    then show ?thesis using e by (intro exI [of _ ?t]) (simp add: engine_turn_def poll_misses_def)
  next
    case (Some mq)
    obtain m q where d: "deq (lv_queue s) = Some (m, q)" using Some by (cases mq) simp
    obtain w where w: "process env m (lv_world s) = Inr w" using process_ok [OF k] by blast
    let ?t = "if lv_engine s = TryDequeue then s\<lparr>lv_queue := q, lv_world := w, lv_engine := CheckFlag\<rparr>
        else s\<lparr>lv_queue := q, lv_world := w\<rparr>"
    have "live_step enq deq env s ?t"
      using live_step.poll_process [where try_dequeue = deq, OF _ d w]
        live_step.drain_process [where try_dequeue = deq, OF _ d w] pc False by auto
    then show ?thesis using fifo_dequeue [OF fifo d] by (intro exI [of _ ?t]) (simp add: engine_turn_def poll_misses_def)
  qed
qed

lemma recv_loop_stays:
  assumes fifo: "fifo_queue enq deq contents q0" and r: "live_reaches enq deq env (live_init q0 evs cf) t"
    and o: "lv_recv t = RecvLoop"
  shows "live_reaches enq deq env t s \<Longrightarrow> lv_recv s = RecvLoop"
proof (induction rule: rtranclp_induct)
  case base
  then show ?case by (rule o)
next
  case (step u s)
  have "live_reaches enq deq env (live_init q0 evs cf) u" using r step(1) by (rule rtranclp_trans)
  then have sock: "ud_sock_open (lv_reader u)" using live_inv_reaches [OF fifo _ refl] by (auto simp: live_inv_def)
  show ?case
    using step(2)
  proof (cases rule: live_step.cases)
    case (recv_closed u' evs')
    have False by (rule udp_next_message_stream [OF sock, of "lv_events u"]) (use recv_closed in auto)
    then show ?thesis ..
  qed (use step(3) in auto)
qed

section \<open>Properties\<close>

text \<open>
  (C27) On a regular file, file mode terminates: the loop returns, having processed in order the
  frames of the file up to its end or to the first frame error, unless the engine faulted on one
  of them; a buffer that does not parse does not stop it. The frames are those the reader makes of
  the file, with a length prefix at its very end counted as a frame of zero bytes.
\<close>

theorem file_mode_terminates:
  assumes "posix_read sys_read contents"
  shows "file_loop sys_read env s w = Some
     (case process_all env (fst (frames_of (contents s))) w of
        Inl f \<Rightarrow> Inl f
      | Inr w' \<Rightarrow> Inr (snd (frames_of (contents s)), w'))"
  by (rule file_loop_frames [OF assms])

theorem file_mode_terminates_witness:
  "file_loop (chunk_read 1) one_bid_env [0, 1, 90, 0, 0] (init_engine, None) =
     Some (Inr (Some ZeroLengthFrame, init_engine, None))"
proof -
  have "next_frame [0, 1, 90, 0, 0] = (Inr (Some [90]), [0, 0])" "next_frame [0, 0] = (Inl ZeroLengthFrame, [])"
    by code_simp+
  then have f: "frames_of [0, 1, 90, 0, 0] = ([[90]], Some ZeroLengthFrame)"
    by (simp add: frames_of.simps [of "[0, 1, 90, 0, 0]"] frames_of.simps [of "[0, 0]"])
  have "parse [90] = Inr None" by code_simp
  then show ?thesis
    using file_mode_terminates [OF posix_chunk_read [of 1], of one_bid_env "[0, 1, 90, 0, 0]" "(init_engine, None)"] f
    by (simp add: process_def)
qed

lemma file_end_to_end:
  assumes "posix_read sys_read contents" and "contents s = concat (map (frame \<circ> encode) ms)"
    and "list_all encodable ms" and "length ms < 2 ^ 64" and "cf_snapshot_interval cf \<noteq> 0"
    and "st = with_control (of_nat (length ms)) (cf_snapshot_interval cf) True (run_feed ms init_engine)"
  shows "run_file sys_read env cf (Some s) = Some (Inr (0, st, Some (build_snapshot (env st) st)))"
proof -
  let ?k = "cf_snapshot_interval cf" and ?w = "(set_snapshot_interval (cf_snapshot_interval cf) init_engine, None)"
  have w: "?w = (with_control 0 ?k False init_engine, None)"
    by (simp add: set_snapshot_interval_def with_control_def init_engine_def)
  have "frames_of (concat (map frame (map encode ms))) = (map encode ms, None)"
    by (rule frames_of_frames) (use encode_frame_ok in auto)
  then have fr: "frames_of (contents s) = (map encode ms, None)" by (simp add: assms(2) o_def)
  have "process_all env (map encode ms) ?w = Inr (engine_at ?k ms (length ms), published_at env ?k ms)"
    using apply_all_schedule [OF assms(5,4), of env] assms(3) by (simp add: process_all_encode w)
  then have "file_loop sys_read env s ?w = Some (Inr (None, engine_at ?k ms (length ms), published_at env ?k ms))"
    using file_loop_frames [OF assms(1), of env s ?w] fr by simp
  moreover have "(engine_at ?k ms (length ms))\<lparr>pipeline_complete := True\<rparr> = st"
    by (simp add: assms(6) engine_at_def with_control_def)
  ultimately show ?thesis
    by (simp add: run_file_def set_pipeline_complete_def Let_def publish_def)
qed

text \<open>
  (C7) End to end in file mode: a file that holds the frames of encodable messages is read to its
  end and \<^verbatim>\<open>main\<close> goes on to serve, with the engine in the state of the feed, all messages counted,
  the pipeline marked complete and the snapshot of exactly that state published.
\<close>

theorem file_mode_end_to_end:
  assumes "posix_read sys_read contents" and "contents s = concat (map (frame \<circ> encode) ms)"
    and "list_all encodable ms" and "length ms < 2 ^ 64" and "cf_snapshot_interval cf \<noteq> 0"
    and "st = with_control (of_nat (length ms)) (cf_snapshot_interval cf) True (run_feed ms init_engine)"
  shows "run_file sys_read env cf (Some s) = Some (Inr (0, st, Some (build_snapshot (env st) st)))"
  by (rule file_end_to_end [OF assms])

text \<open>
  In live mode, at every moment of every interleaving of the two threads, the messages
  enqueued so far are a prefix of what the packets deliver, and while the engine thread runs, its
  world is the result of processing in order all of them but those still in the queue.
\<close>

lemma live_mode_in_order:
  assumes "fifo_queue enq deq contents q0" and "live_reaches enq deq env (live_init q0 evs cf) s"
    and "w0 = (set_snapshot_interval (cf_snapshot_interval cf) init_engine, None)"
    and "lv_engine s \<in> {CheckFlag, TryDequeue, Drain}"
  shows "\<exists>ms rest. incoming 1 evs = ms @ contents (lv_queue s) @ rest \<and> process_all env ms w0 = Inr (lv_world s)"
proof -
  have i: "live_inv contents env w0 evs s" by (rule live_inv_reaches [OF assms(1-3)])
  then obtain ms where "lv_enqueued s = ms @ contents (lv_queue s)" "process_all env ms w0 = Inr (lv_world s)"
    using assms(4) by (auto simp: live_inv_def processed_def)
  moreover have "lv_enqueued s @ udp_stream (lv_reader s) (lv_events s) = incoming 1 evs"
    using i by (simp add: live_inv_def udp_stream_def udp_init_def)
  ultimately show ?thesis by (metis append.assoc)
qed

text \<open>
  (C39) Once the reader's socket is open, live mode never ends: in every later state of every
  interleaving the receive thread is still in its loop, its flag is not set and the engine thread
  has not left its polling loop, so neither the drain loop nor the final snapshot is reached. They
  are reached only in runs in which opening the socket failed, and then nothing was enqueued and
  the engine is as it was created.
\<close>

theorem live_mode_shutdown_only_on_failed_open:
  assumes "fifo_queue enq deq contents q0" and "live_reaches enq deq env (live_init q0 evs cf) t"
    and "live_reaches enq deq env t s"
    and "w0 = (set_snapshot_interval (cf_snapshot_interval cf) init_engine, None)"
  shows "(lv_recv t = RecvLoop \<longrightarrow>
            lv_recv s = RecvLoop \<and> \<not> lv_recv_done s \<and> lv_engine s \<notin> {Drain, EngineDone}) \<and>
         (lv_engine s \<in> {Drain, EngineDone} \<longrightarrow>
            lv_recv t \<noteq> RecvLoop \<and> lv_recv s = RecvDone \<and> lv_enqueued s = [] \<and>
            lv_world s = (if lv_engine s = Drain then w0 else set_pipeline_complete env w0))"
proof -
  have r: "live_reaches enq deq env (live_init q0 evs cf) s" using assms(2,3) by (rule rtranclp_trans)
  have i: "live_inv contents env w0 evs s" by (rule live_inv_reaches [OF assms(1) r assms(4)])
  have "lv_recv t = RecvLoop \<Longrightarrow> lv_recv s = RecvLoop" by (rule recv_loop_stays [OF assms(1,2) _ assms(3)])
  then show ?thesis using i by (auto simp: live_inv_def processed_def)
qed

text \<open>
  (C11) Bounded response of live mode, with a snapshot interval other than 0. From every reachable
  state \<open>s\<close> in which the engine thread runs, in every interleaving of the two threads: as soon as the
  engine thread has made two steps for each message queued in \<open>s\<close> and two more for each poll that
  missed a queued message, every message enqueued up to \<open>s\<close> has been processed, in order, with some
  of the messages enqueued since, and the engine's world is the result. The engine thread has not
  crashed, and unless it has ended it can take a further step, one that does not miss, without
  waiting for the receive thread.
\<close>

theorem live_mode_catches_up:
  assumes "fifo_queue enq deq contents q0" and "live_reaches enq deq env (live_init q0 evs cf) s"
    and "w0 = (set_snapshot_interval (cf_snapshot_interval cf) init_engine, None)"
    and "cf_snapshot_interval cf \<noteq> 0" and "lv_engine s \<in> {CheckFlag, TryDequeue, Drain}"
    and "live_run enq deq contents env s k j s'" and "2 * length (contents (lv_queue s)) + 2 * j \<le> k"
  shows "(\<exists>x w. lv_enqueued s' = (lv_enqueued s @ x) @ contents (lv_queue s') \<and>
            process_all env (lv_enqueued s @ x) w0 = Inr w \<and>
            lv_world s' = (if lv_engine s' = EngineDone then set_pipeline_complete env w else w)) \<and>
         lv_engine s' \<noteq> Crashed \<and>
         (lv_engine s' \<noteq> EngineDone \<longrightarrow> (\<exists>s''. live_run enq deq contents env s (Suc k) j s'' \<and> engine_turn s' s''))"
proof -
  let ?n = "length (lv_enqueued s)"
  have r: "live_reaches enq deq env (live_init q0 evs cf) s'"
    using assms(2) live_run_reaches [OF assms(6)] by (rule rtranclp_trans)
  have i: "live_inv contents env w0 evs s'" by (rule live_inv_reaches [OF assms(1) r assms(3)])
  have nc: "lv_engine s' \<noteq> Crashed" by (rule never_crashed [OF assms(1) r assms(4)])
  have "response contents ?n s \<le> 2 * backlog contents ?n s" by (simp add: response_def)
  also have "\<dots> \<le> 2 * length (contents (lv_queue s))"
    using backlog_queued [OF live_inv_reaches [OF assms(1-3)], of ?n] assms(5) by auto
  finally have "response contents ?n s' = 0"
    using response_bound [OF assms(1,2,4) order.refl assms(6)] assms(7) by simp
  then have b: "backlog contents ?n s' = 0" by (auto simp: response_def split: if_splits)
  obtain ms w where ms: "lv_enqueued s' = ms @ contents (lv_queue s')" "process_all env ms w0 = Inr w"
    "lv_world s' = (if lv_engine s' = EngineDone then set_pipeline_complete env w else w)"
    using inv_processed [OF i nc] .
  obtain y where y: "lv_enqueued s' = lv_enqueued s @ y"
    using live_reaches_enqueued [OF live_run_reaches [OF assms(6)]] by blast
  have "?n \<le> length ms" using b ms(1) by (simp add: backlog_def)
  moreover have "take ?n (ms @ contents (lv_queue s')) = lv_enqueued s" using y ms(1) by simp
  ultimately have "ms = lv_enqueued s @ drop ?n ms" by (metis append_take_drop_id diff_is_0_eq take_0 append_Nil2 take_append)
  moreover have "\<exists>s''. live_run enq deq contents env s (Suc k) j s'' \<and> engine_turn s' s''" if "lv_engine s' \<noteq> EngineDone"
  proof -
    have run: "lv_engine s' \<in> {CheckFlag, TryDequeue, Drain}" using that nc by (cases "lv_engine s'") auto
    have "snapshot_interval (fst (lv_world s')) \<noteq> 0"
      by (rule running_interval [OF i _ run]) (simp add: assms(3,4) set_snapshot_interval_def)
    from engine_never_blocked [OF assms(1) run this, of env]
    show ?thesis using live_run.run_engine [OF assms(6)] by blast
  qed
  ultimately show ?thesis using ms nc by metis
qed

text \<open>
  (C38) \<^verbatim>\<open>SNAPSHOT_INTERVAL=0\<close> passes the configuration and crashes file mode: whatever the environment
  holds, file mode ends in the undefined \<^verbatim>\<open>%\<close> by zero exactly when the value of \<^verbatim>\<open>SNAPSHOT_INTERVAL\<close>
  reads as 0 and the file holds a frame that parses to a message. No other input of file mode faults.
\<close>

theorem zero_interval_crashes_file_mode:
  assumes "posix_read sys_read contents" and "read_config getenv = Some cf"
  shows "run_file sys_read env cf (Some s) = Some (Inl DivisionByZero) \<longleftrightarrow>
    stoull (env_var getenv ''SNAPSHOT_INTERVAL'' ''1000'') = Some 0 \<and>
    (\<exists>b m. b \<in> set (fst (frames_of (contents s))) \<and> parse b = Inr (Some m))"
proof -
  let ?ms = "parsed_messages (fst (frames_of (contents s)))"
  let ?w = "(set_snapshot_interval (cf_snapshot_interval cf) init_engine, None)"
  have k: "stoull (env_var getenv ''SNAPSHOT_INTERVAL'' ''1000'') = Some (cf_snapshot_interval cf)"
    using assms(2) by (clarsimp simp: read_config_def bind_eq_Some_conv)
  have "run_file sys_read env cf (Some s) = Some (Inl DivisionByZero) \<longleftrightarrow>
      apply_all env ?ms ?w = Inl DivisionByZero"
    using file_loop_frames [OF assms(1), of env s ?w]
    by (auto simp: run_file_def process_all_parsed split: sum.splits option.splits)
  also have "\<dots> \<longleftrightarrow> cf_snapshot_interval cf = 0 \<and> ?ms \<noteq> []"
  proof (cases "cf_snapshot_interval cf = 0")
    case True
    then show ?thesis
      by (cases ?ms) (simp_all add: apply_msg_def Let_def maybe_publish_snapshot_def umod_def
          handle_keeps_control set_snapshot_interval_def del: handle.simps)
  next
    case False
    then have "\<exists>w'. process_all env (fst (frames_of (contents s))) ?w = Inr w'"
      using process_all_ok [of ?w env "fst (frames_of (contents s))"] by (auto simp: set_snapshot_interval_def)
    then show ?thesis using False by (auto simp: process_all_parsed)
  qed
  also have "?ms \<noteq> [] \<longleftrightarrow> (\<exists>b m. b \<in> set (fst (frames_of (contents s))) \<and> parse b = Inr (Some m))"
    by (simp add: parsed_messages_empty)
  finally show ?thesis using k by simp
qed

text \<open>
  (C40) Without \<^verbatim>\<open>MCAST_IFACE\<close> in the environment, live mode cannot open its socket: the default
  interface is a name, and \<^verbatim>\<open>inet_pton\<close>, which accepts dotted addresses only, rejects it, so the
  constructor of the reader throws whatever the other system calls return.
\<close>

theorem default_interface_rejected:
  assumes "posix_inet_pton (sys_inet_pton api)" and "getenv ''MCAST_IFACE'' = None" and "read_config getenv = Some cf"
  shows "\<exists>e w'. udp_construct api (cf_mcast_group cf) (cf_mcast_iface cf) (cf_mcast_port cf) w = (Inl e, w')"
proof -
  have "cf_mcast_iface cf = ''eth0''"
    using assms(2,3) by (auto simp: read_config_def env_var_def split: Option.bind_splits)
  then have "\<not> dotted_decimal (cf_mcast_iface cf)" by (simp add: dotted_decimal_def)
  then show ?thesis by (rule udp_construct_interface [OF assms(1)])
qed

section \<open>The properties on small runs\<close>

definition sample_config :: Config where
  "sample_config = the (read_config (\<lambda>_. None))"

lemma sample_config_interval: "cf_snapshot_interval sample_config = 1000"
  by code_simp

theorem default_interface_rejected_witness:
  "\<exists>e w'. udp_construct list_api (cf_mcast_group sample_config) (cf_mcast_iface sample_config)
     (cf_mcast_port sample_config) [] = (Inl e, w')"
proof -
  have "read_config (\<lambda>_. None) \<noteq> None" by code_simp
  then have "read_config (\<lambda>_. None) = Some sample_config" by (simp add: sample_config_def)
  then show ?thesis by (intro default_interface_rejected [OF list_api_inet_pton, of "\<lambda>_. None"]) simp_all
qed

definition sample_message :: ParsedMessage where
  "sample_message = AddOrder (sample_add 1 CHR ''B'' 100 1000000)"

lemma sample_encodable: "encodable sample_message"
  by (simp add: sample_message_def sample_add_def ts_ok_def alpha_ok_def)

theorem file_mode_end_to_end_witness:
  "\<exists>st. run_file (chunk_read 4) one_bid_env sample_config (Some (frame (encode sample_message))) =
     Some (Inr (0, st, Some (build_snapshot (one_bid_env st) st)))"
proof -
  have "id (frame (encode sample_message)) = concat (map (frame \<circ> encode) [sample_message])" by simp
  from file_mode_end_to_end [OF posix_chunk_read [of 4] this _ _ _ refl, of sample_config one_bid_env]
  show ?thesis by (simp add: sample_encodable sample_config_interval)
qed

text \<open>A list as queue.\<close>

definition list_enqueue :: "MessageBuffer \<Rightarrow> MessageBuffer list \<Rightarrow> MessageBuffer list" where
  "list_enqueue m q = q @ [m]"

fun list_dequeue :: "MessageBuffer list \<Rightarrow> (MessageBuffer \<times> MessageBuffer list) option" where
  "list_dequeue [] = None"
| "list_dequeue (m # q) = Some (m, q)"

lemma fifo_list: "fifo_queue list_enqueue list_dequeue id []"
proof -
  have "case list_dequeue q of None \<Rightarrow> id q = [] | Some (m, q') \<Rightarrow> id q = m # id q'" for q
    by (cases q) simp_all
  then show ?thesis by (simp add: fifo_queue_def list_enqueue_def)
qed

definition one_packet :: "MessageBuffer \<Rightarrow> recv_event list" where
  "one_packet m = [Packet (mold_packet (replicate 10 32) 1 [m])]"

lemma one_packet_data:
  assumes "length m \<le> 1000"
  shows "packet_data (Packet (mold_packet (replicate 10 32) 1 [m])) = Some (1, 1, [m])"
  using packet_data_mold [of "replicate 10 32" 1 "[m]"] assms by (simp add: packet_ok_def mold_packet_def frame_def)

lemma incoming_one_packet: "length m \<le> 1000 \<Longrightarrow> incoming 1 (one_packet m) = [m]"
  by (simp add: one_packet_def one_packet_data del: One_nat_def)

text \<open>The receive thread has taken the only message, the engine thread has not moved yet.\<close>

lemma live_one_packet:
  assumes "length m \<le> 1000"
  shows "\<exists>s. live_reaches list_enqueue list_dequeue env (live_init [] (one_packet m) cf) s \<and> lv_queue s = [m] \<and>
     lv_enqueued s = [m] \<and> lv_engine s = CheckFlag \<and>
     lv_world s = (set_snapshot_interval (cf_snapshot_interval cf) init_engine, None)"
proof -
  define s0 :: "MessageBuffer list Live" where "s0 = live_init [] (one_packet m) cf"
  let ?s1 = "s0\<lparr>lv_recv := RecvLoop\<rparr>"
  have s0: "lv_recv s0 = RecvStart" "lv_events s0 = one_packet m" "lv_reader s0 = udp_init" "lv_queue s0 = []"
    "lv_enqueued s0 = []" "lv_engine s0 = CheckFlag"
    "lv_world s0 = (set_snapshot_interval (cf_snapshot_interval cf) init_engine, None)" by (simp_all add: s0_def live_init_def)
  have "udp_stream udp_init (one_packet m) = [m]"
    using incoming_one_packet [OF assms] by (simp add: udp_stream_def udp_init_def)
  moreover have "ud_sock_open udp_init" by (simp add: udp_init_def)
  ultimately obtain u evs where m: "udp_next_message (one_packet m) udp_init = Some (Message m, u, evs)"
    using udp_next_message_stream [of udp_init "one_packet m"] by (metis list.distinct(1) list.inject)
  let ?s2 = "?s1\<lparr>lv_reader := u, lv_events := evs, lv_queue := list_enqueue m (lv_queue ?s1),
    lv_enqueued := lv_enqueued ?s1 @ [m]\<rparr>"
  have "live_step list_enqueue list_dequeue env s0 ?s1"
    by (rule live_step.recv_open) (rule s0)
  moreover have "live_step list_enqueue list_dequeue env ?s1 ?s2"
    by (rule live_step.recv_message) (simp_all add: s0 m)
  ultimately have "live_reaches list_enqueue list_dequeue env s0 ?s2"
    by (rule converse_rtranclp_into_rtranclp [OF _ r_into_rtranclp])
  moreover have "lv_queue ?s2 = [m] \<and> lv_enqueued ?s2 = [m] \<and> lv_engine ?s2 = CheckFlag \<and>
      lv_world ?s2 = (set_snapshot_interval (cf_snapshot_interval cf) init_engine, None)"
    by (simp add: s0 list_enqueue_def)
  ultimately show ?thesis unfolding s0_def [symmetric] by blast
qed

abbreviation live_start :: "MessageBuffer list Live" where
  "live_start \<equiv> live_init [] (one_packet [90]) sample_config"

lemma live_sample_run:
  "\<exists>s. live_reaches list_enqueue list_dequeue one_bid_env live_start s \<and> lv_queue s = [[90]] \<and>
     lv_enqueued s = [[90]] \<and> lv_engine s = CheckFlag"
  using live_one_packet [of "[90]" one_bid_env sample_config] by auto

lemma live_mode_in_order_witness:
  "\<exists>s. live_reaches list_enqueue list_dequeue one_bid_env live_start s \<and> lv_queue s = [[90]] \<and>
     (\<exists>ms rest. incoming 1 (one_packet [90]) = ms @ [[90]] @ rest)"
proof -
  obtain s where r: "live_reaches list_enqueue list_dequeue one_bid_env live_start s"
    and s: "lv_queue s = [[90]]" "lv_engine s = CheckFlag" using live_sample_run by blast
  have "\<exists>ms rest. incoming 1 (one_packet [90]) = ms @ id (lv_queue s) @ rest \<and>
      process_all one_bid_env ms (set_snapshot_interval (cf_snapshot_interval sample_config) init_engine, None) =
        Inr (lv_world s)"
    by (rule live_mode_in_order [OF fifo_list r refl]) (simp add: s)
  then show ?thesis using r s by (metis id_apply)
qed

theorem live_mode_catches_up_witness:
  "\<exists>s s' :: MessageBuffer list Live. live_reaches list_enqueue list_dequeue one_bid_env live_start s \<and>
     lv_queue s = [[90]] \<and> live_run list_enqueue list_dequeue id one_bid_env s 2 0 s' \<and>
     (\<exists>x. lv_enqueued s' = ([[90]] @ x) @ lv_queue s')"
proof -
  obtain s where r: "live_reaches list_enqueue list_dequeue one_bid_env live_start s"
    and s: "lv_queue s = [[90]]" "lv_enqueued s = [[90]]" "lv_engine s = CheckFlag" using live_sample_run by blast
  let ?w = "(set_snapshot_interval (cf_snapshot_interval sample_config) init_engine, None)"
  have k: "cf_snapshot_interval sample_config \<noteq> 0" by (simp add: sample_config_interval)
  have step: "\<exists>s''. live_run list_enqueue list_dequeue id one_bid_env s (Suc k) 0 s'' \<and>
      live_step list_enqueue list_dequeue one_bid_env s' s''"
    if run: "live_run list_enqueue list_dequeue id one_bid_env s k 0 s'" and nd: "lv_engine s' \<noteq> EngineDone" for k s'
  proof -
    have rs: "live_reaches list_enqueue list_dequeue one_bid_env live_start s'"
      using r live_run_reaches [OF run] by (rule rtranclp_trans)
    have pc: "lv_engine s' \<in> {CheckFlag, TryDequeue, Drain}"
      using nd never_crashed [OF fifo_list rs k] by (cases "lv_engine s'") auto
    have "snapshot_interval (fst (lv_world s')) \<noteq> 0"
      by (rule running_interval [OF live_inv_reaches [OF fifo_list rs refl] _ pc]) (use k in \<open>simp add: set_snapshot_interval_def\<close>)
    from engine_never_blocked [OF fifo_list pc this, of one_bid_env] show ?thesis
      using live_run.run_engine [OF run] by blast
  qed
  have "lv_engine s \<noteq> EngineDone" by (simp add: s(3))
  then obtain t where t: "live_run list_enqueue list_dequeue id one_bid_env s (Suc 0) 0 t"
    "live_step list_enqueue list_dequeue one_bid_env s t"
    using step [OF live_run.run_start] by blast
  have "lv_engine t \<noteq> EngineDone" using t(2) by (cases rule: live_step.cases) (simp_all add: s(3))
  then obtain s' where s': "live_run list_enqueue list_dequeue id one_bid_env s 2 0 s'"
    using step [OF t(1)] unfolding numeral_2_eq_2 by blast
  have "lv_engine s \<in> {CheckFlag, TryDequeue, Drain}" "2 * length (id (lv_queue s)) + 2 * 0 \<le> 2" by (simp_all add: s)
  from live_mode_catches_up [OF fifo_list r refl k this(1) s' this(2)]
  obtain x where "lv_enqueued s' = ([[90]] @ x) @ lv_queue s'" by (auto simp: s(2))
  with r s(1) s' show ?thesis by blast
qed

theorem live_mode_shutdown_only_on_failed_open_witness:
  "(\<exists>s. live_reaches list_enqueue list_dequeue one_bid_env live_start s \<and> lv_engine s = Drain \<and>
      lv_recv s = RecvDone \<and> lv_enqueued s = []) \<and>
   (\<exists>s. live_reaches list_enqueue list_dequeue one_bid_env live_start s \<and> lv_enqueued s = [[90]] \<and>
      \<not> lv_recv_done s)"
proof
  let ?s1 = "live_start\<lparr>lv_recv := RecvDone, lv_recv_done := True\<rparr>" and
    ?s2 = "live_start\<lparr>lv_recv := RecvDone, lv_recv_done := True, lv_engine := Drain\<rparr>"
  have "live_step list_enqueue list_dequeue one_bid_env live_start ?s1"
    by (rule live_step.recv_throw) (simp add: live_init_def)
  moreover have "live_step list_enqueue list_dequeue one_bid_env ?s1 ?s2"
    using live_step.flag_set [of ?s1 list_enqueue list_dequeue one_bid_env] by (simp add: live_init_def)
  ultimately have r: "live_reaches list_enqueue list_dequeue one_bid_env live_start ?s2"
    by (rule converse_rtranclp_into_rtranclp [OF _ r_into_rtranclp])
  have d: "lv_engine ?s2 = Drain" by simp
  then have "lv_recv ?s2 = RecvDone \<and> lv_enqueued ?s2 = []"
    using live_mode_shutdown_only_on_failed_open [OF fifo_list rtranclp.rtrancl_refl r refl] by blast
  with r d show "\<exists>s. live_reaches list_enqueue list_dequeue one_bid_env live_start s \<and> lv_engine s = Drain \<and>
      lv_recv s = RecvDone \<and> lv_enqueued s = []" by blast
next
  obtain s where r: "live_reaches list_enqueue list_dequeue one_bid_env live_start s" and s: "lv_enqueued s = [[90]]"
    using live_sample_run by blast
  have "lv_recv s = RecvLoop" using live_inv_reaches [OF fifo_list r refl] s by (auto simp: live_inv_def)
  then have "\<not> lv_recv_done s"
    using live_mode_shutdown_only_on_failed_open [OF fifo_list r rtranclp.rtrancl_refl refl] by blast
  with r s show "\<exists>s. live_reaches list_enqueue list_dequeue one_bid_env live_start s \<and> lv_enqueued s = [[90]] \<and>
      \<not> lv_recv_done s" by blast
qed

text \<open>One frame that parses, with the interval set to 0.\<close>

definition zero_env :: "string \<Rightarrow> string option" where
  "zero_env key = (if key = ''SNAPSHOT_INTERVAL'' then Some ''0'' else None)"

theorem zero_interval_crashes_file_mode_witness:
  "\<exists>cf. read_config zero_env = Some cf \<and>
     run_file (chunk_read 4) one_bid_env cf (Some (frame (encode sample_message))) = Some (Inl DivisionByZero)"
proof -
  have "read_config zero_env \<noteq> None" "stoull (env_var zero_env ''SNAPSHOT_INTERVAL'' ''1000'') = Some 0" by code_simp+
  then obtain cf where cf: "read_config zero_env = Some cf" "stoull (env_var zero_env ''SNAPSHOT_INTERVAL'' ''1000'') = Some 0"
    by auto
  have "frames_of (concat (map frame [encode sample_message])) = ([encode sample_message], None)"
    by (rule frames_of_frames) (use encode_frame_ok in auto)
  moreover have "parse (encode sample_message) = Inr (Some sample_message)"
    using parse_encode_append [of sample_message "[]"] sample_encodable by simp
  ultimately show ?thesis
    using zero_interval_crashes_file_mode [OF posix_chunk_read [of 4] cf(1), of one_bid_env] cf by simp
qed

end
