(* ===== verification/End_To_End.thy ===== *)
theory End_To_End
  imports Pipeline_Properties Rest_Properties Engine_Properties
begin

text \<open>
  What a client sees in terms of the live orders alone. \<open>live_book\<close> is the reference for one side
  of a book: the live prices best first, each with the number of live orders there and their
  shares, as the server presents a level. The lemmas show that a consistent engine's snapshot
  is exactly this.
\<close>

definition best_first_prices :: "Side \<Rightarrow> Price set \<Rightarrow> Price list" where
  "best_first_prices S P = (case S of Bid \<Rightarrow> rev (sorted_list_of_set P) | Ask \<Rightarrow> sorted_list_of_set P)"

definition live_level :: "Engine \<Rightarrow> u16 \<Rightarrow> Side \<Rightarrow> Price \<Rightarrow> PriceLevelSnapshot" where
  "live_level st l S p =
     \<lparr>ls_price = to_double p, ls_total_shares = of_nat (shares_at (order_index st) (l, S, p)),
      ls_order_count = of_nat (card (orders_at (order_index st) (l, S, p)))\<rparr>"

definition live_book :: "Engine \<Rightarrow> u16 \<Rightarrow> Side \<Rightarrow> PriceLevelSnapshot list" where
  "live_book st l S = map (live_level st l S) (best_first_prices S (live_prices st l S))"

lemma best_first_prices_keys:
  assumes "sorted_wrt (map_compare S) ks"
  shows "best_first_prices S (set ks) = ks"
proof (cases S)
  case Ask
  have "map_compare Ask = (<)" by (simp add: map_compare_def fun_eq_iff)
  then have "sorted ks \<and> distinct ks" using assms Ask by (simp add: strict_sorted_iff)
  then show ?thesis using Ask by (simp add: best_first_prices_def sorted_list_of_set.idem_if_sorted_distinct)
next
  case Bid
  have "map_compare Bid = (>)" by (simp add: map_compare_def fun_eq_iff)
  then have "sorted_wrt (<) (rev ks)" using assms Bid by (simp add: sorted_wrt_rev)
  then have "sorted (rev ks) \<and> distinct (rev ks)" by (simp only: strict_sorted_iff)
  then have "sorted_list_of_set (set (rev ks)) = rev ks"
    by (intro sorted_list_of_set.idem_if_sorted_distinct) simp_all
  then show ?thesis using Bid by (simp add: best_first_prices_def)
qed

lemma snapshot_side_live:
  assumes "consistent st" and "books st l = Some b"
  shows "map snap_level (book_side S b) = live_book st l S"
proof -
  let ?m = "book_side S b"
  have inv: "ml_invar S ?m"
    using wf_bookD [OF consistentD(1) [OF assms(1)] assms(2)] by (simp add: book_wf_side)
  then have srt: "sorted_wrt (map_compare S) (keys ?m)" by (simp add: ml_invar_def)
  then have ks: "best_first_prices S (live_prices st l S) = keys ?m"
    using best_first_prices_keys [OF srt] live_prices_levels [OF assms] by simp
  have "snap_level e = live_level st l S (fst e)" if "e \<in> set ?m" for e
  proof -
    obtain p lvl where e: "e = (p, lvl)" by fastforce
    have "distinct (keys ?m)" using srt by (rule side_order.sorted_distinct)
    with that have "map_of ?m p = Some lvl" by (simp add: e)
    then have "agrees (order_index st) (l, S, p) (Some lvl)"
      using consistentD(3) [OF assms(1), of "(l, S, p)"] assms(2) by (simp add: level_of_def)
    then have "pl_order_count lvl = of_nat (card (orders_at (order_index st) (l, S, p)))"
      "pl_total_shares lvl = of_nat (shares_at (order_index st) (l, S, p))"
      unfolding agrees_def option.case by (metis of_nat_unat ucast_id)+
    then show ?thesis by (simp add: e snap_level_def live_level_def)
  qed
  then show ?thesis unfolding live_book_def ks by simp
qed

lemma consistent_control: "consistent (with_control c k d st) = consistent st"
  by (simp add: with_control_def cong: consistent_cong)


lemma snap_add_control:
  "snap_add_book (with_control c k d st) = snap_add_book st"
  "snap_add_instrument (with_control c k d st) = snap_add_instrument st"
  by (simp_all add: fun_eq_iff snap_add_book_def snap_add_instrument_def)

lemma env_ok_control: "env_ok env (with_control c k d st) = env_ok env st"
  by (simp add: env_ok_def build_snapshot_def Let_def snap_add_control)

lemma lower_distinct_control: "lower_distinct (with_control c k d st) = lower_distinct st"
  by (simp add: lower_distinct_def)

text \<open>
  The answer to a book request, in terms of the live orders: the object that is shown for a level,
  the time of the last update, null for none, and the whole answer.
\<close>

definition level_entry :: "PriceLevelSnapshot \<Rightarrow> json" where
  "level_entry lv = JObj [(''price'', JDouble (ls_price lv)), (''total_shares'', JInt (uint (ls_total_shares lv))),
     (''order_count'', JInt (uint (ls_order_count lv)))]"

definition time_entry :: "u64 \<Rightarrow> json" where
  "time_entry t = (if t = 0 then JNull else JInt (uint t))"

lemma entry_json: "level_json = level_entry" "timestamp_json = time_entry"
  by (simp_all add: fun_eq_iff level_json_def level_entry_def timestamp_json_def time_entry_def word_gt_0)

definition live_reply :: "Engine \<Rightarrow> u16 \<Rightarrow> InstrumentInfo \<Rightarrow> OrderBook \<Rightarrow> int \<Rightarrow> Response" where
  "live_reply st l i b d = \<lparr>rs_status = None, rs_body = JObj
     [(''symbol'', JStr (in_symbol i)), (''trading_state'', JStr [in_trading_state i]),
      (''last_update_timestamp'', time_entry (ob_last_update_timestamp b)),
      (''bid_count'', JInt (min d (int (length (live_book st l Bid))))),
      (''ask_count'', JInt (min d (int (length (live_book st l Ask))))),
      (''bids'', JArr (map level_entry (take (nat d) (live_book st l Bid)))),
      (''asks'', JArr (map level_entry (take (nat d) (live_book st l Ask))))]\<rparr>"

text \<open>Whether the strings of an instrument that an answer shows are valid UTF-8, so that it can be printed.\<close>

definition printable :: "InstrumentInfo \<Rightarrow> bool" where
  "printable i \<longleftrightarrow> utf8_ok (in_symbol i) \<and> utf8_ok [in_trading_state i]"

lemma book_reply_live:
  assumes "consistent st" and "env_ok env st" and "lower_distinct st" and "instruments st l = Some i"
    and "books st l = Some b" and "to_lower sy = to_lower (in_symbol i)" and "depth_param p = Inr d"
  shows "get_book_handler sy p (Some (build_snapshot env st)) =
    (if printable i then Inr (live_reply st l i b d) else Inl NotUtf8)"
proof -
  have side: "bs_bids (shown_book st l i) = live_book st l Bid" "bs_asks (shown_book st l i) = live_book st l Ask"
    "bs_last_update_timestamp (shown_book st l i) = ob_last_update_timestamp b"
    using snapshot_side_live [OF assms(1,5), of Bid] snapshot_side_live [OF assms(1,5), of Ask]
    by (simp_all add: shown_book_def assms(5) snap_book_def)
  show ?thesis
    using book_reply [OF consistentD(1) [OF assms(1)] assms(2-4,6,7) refl] unfolding side live_reply_def printable_def entry_json .
qed

end
