(* ===== verification/Live_Serving.thy ===== *)
theory Live_Serving
  imports End_To_End
begin

text \<open>
  Live mode and the server together. A request may arrive at any moment of any interleaving of the
  two threads; the handler reads the publisher once and works on that immutable snapshot. The
  lemmas follow the published snapshot through the steps: it is that of a prefix of the feed, and
  the prefix only grows.
\<close>

section \<open>The published snapshot of a running engine\<close>

abbreviation running :: "'q Live \<Rightarrow> bool" where
  "running s \<equiv> lv_engine s \<in> {CheckFlag, TryDequeue, Drain}"

text \<open>The world after \<open>n\<close> messages of a feed, with interval \<open>k\<close>.\<close>

definition world_at :: "(Engine \<Rightarrow> SnapEnv) \<Rightarrow> u64 \<Rightarrow> ParsedMessage list \<Rightarrow> nat \<Rightarrow> world" where
  "world_at env k feed n = (engine_at k feed n,
     if n < unat k then None
     else let st = engine_at k feed (n - n mod unat k) in Some (build_snapshot (env st) st))"

lemma engine_at_append: "n \<le> length ms \<Longrightarrow> engine_at k (ms @ ms') n = engine_at k ms n"
  by (simp add: engine_at_def)

lemma process_all_world_at:
  assumes "k \<noteq> 0" and "feed = parsed_messages (ms @ rest)" and "length feed < 2 ^ 64" and "n = length (parsed_messages ms)"
  shows "process_all env ms (set_snapshot_interval k init_engine, None) = Inr (world_at env k feed n)"
proof -
  let ?ms = "parsed_messages ms"
  have "length ?ms < 2 ^ 64" using assms(2,3) by simp
  moreover have "set_snapshot_interval k init_engine = with_control 0 k False init_engine"
    by (simp add: set_snapshot_interval_def with_control_def init_engine_def)
  moreover have "(engine_at k ?ms n, published_at env k ?ms) = world_at env k feed n"
    by (simp add: assms(2,4) published_at_def world_at_def Let_def engine_at_append)
  ultimately show ?thesis
    using apply_all_schedule [OF assms(1), of ?ms env] by (simp add: process_all_parsed assms(4))
qed

lemma live_extends_step:
  assumes "fifo_queue enq deq contents q0" and "live_step enq deq env s s'" and "running s'"
    and "lv_enqueued s = ms @ contents (lv_queue s)" and "process_all env ms w0 = Inr (lv_world s)"
  shows "\<exists>x. lv_enqueued s' = (ms @ x) @ contents (lv_queue s') \<and> process_all env (ms @ x) w0 = Inr (lv_world s')"
  using assms(2)
proof (cases rule: live_step.cases)
  case (recv_message m u evs)
  then show ?thesis using assms(4,5) by (intro exI [of _ "[]"]) (simp add: fifo_enqueue [OF assms(1)])
next
  case (poll_process m q w)
  then show ?thesis
    using assms(4,5) fifo_dequeue [OF assms(1) poll_process(3)]
    by (intro exI [of _ "[m]"]) (simp add: process_all_snoc)
next
  case (drain_process m q w)
  then show ?thesis
    using assms(4,5) fifo_dequeue [OF assms(1) drain_process(3)]
    by (intro exI [of _ "[m]"]) (simp add: process_all_snoc)
qed (use assms(3-5) in \<open>auto intro: exI [of _ "[]"]\<close>)

lemma running_before: "live_step enq deq env s s' \<Longrightarrow> running s' \<Longrightarrow> running s"
  by (cases rule: live_step.cases) auto

lemma live_extends:
  assumes "fifo_queue enq deq contents q0" and "live_reaches enq deq env s s'"
    and "lv_enqueued s = ms @ contents (lv_queue s)" and "process_all env ms w0 = Inr (lv_world s)"
  shows "running s' \<Longrightarrow>
    running s \<and> (\<exists>x. lv_enqueued s' = (ms @ x) @ contents (lv_queue s') \<and> process_all env (ms @ x) w0 = Inr (lv_world s'))"
  using assms(2)
proof (induction rule: rtranclp_induct)
  case base
  then show ?case using assms(3,4) by (auto intro: exI [of _ "[]"])
next
  case (step t s')
  then obtain x where x: "running s" "lv_enqueued t = (ms @ x) @ contents (lv_queue t)"
    "process_all env (ms @ x) w0 = Inr (lv_world t)"
    using running_before by blast
  from live_extends_step [OF assms(1) step.hyps(2) step.prems x(2,3)] x(1) show ?case by force
qed

lemma live_worlds:
  assumes "fifo_queue enq deq contents q0" and "live_reaches enq deq env (live_init q0 evs cf) s"
    and "live_reaches enq deq env s s'" and "running s'" and "k = cf_snapshot_interval cf" and "k \<noteq> 0"
    and "feed = parsed_messages (incoming 1 evs)" and "length feed < 2 ^ 64"
  shows "\<exists>n n'. n \<le> n' \<and> n' \<le> length feed \<and> lv_world s = world_at env k feed n \<and> lv_world s' = world_at env k feed n'"
proof -
  let ?w0 = "(set_snapshot_interval k init_engine, None) :: world"
  have i: "live_inv contents env ?w0 evs t" if "live_reaches enq deq env (live_init q0 evs cf) t" for t
    using live_inv_reaches [OF assms(1) that] assms(5) by simp
  have r: "running s"
    using assms(3,4) by (induction rule: converse_rtranclp_induct) (auto dest: running_before)
  obtain ms where ms: "lv_enqueued s = ms @ contents (lv_queue s)" "process_all env ms ?w0 = Inr (lv_world s)"
    using i [OF assms(2)] r by (auto simp: live_inv_def processed_def)
  obtain x where x: "lv_enqueued s' = (ms @ x) @ contents (lv_queue s')" "process_all env (ms @ x) ?w0 = Inr (lv_world s')"
    using live_extends [OF assms(1,3) ms assms(4)] by blast
  have "live_inv contents env ?w0 evs s'" using assms(2,3) by (intro i) simp
  then have "incoming 1 evs = lv_enqueued s' @ udp_stream (lv_reader s') (lv_events s')"
    by (simp add: live_inv_def udp_stream_def udp_init_def)
  then obtain rest where rest: "incoming 1 evs = (ms @ x) @ rest" using x(1) by simp
  let ?n = "length (parsed_messages ms)" and ?n' = "length (parsed_messages (ms @ x))"
  have "lv_world s = world_at env k feed ?n" "lv_world s' = world_at env k feed ?n'"
    using process_all_world_at [OF assms(6) _ assms(8), of ms "x @ rest" ?n env]
      process_all_world_at [OF assms(6) _ assms(8), of "ms @ x" rest ?n' env] ms(2) x(2) rest
    by (simp_all add: assms(7))
  moreover have "?n \<le> ?n'" "?n' \<le> length feed" using rest by (simp_all add: assms(7))
  ultimately show ?thesis by blast
qed

lemma no_snapshot_reply: "get_book_handler sy p None = fail 503 ''snapshot not yet available''"
  by (simp add: get_book_handler_def current_def)

section \<open>Properties\<close>

text \<open>
  (C6) What clients see in live mode never goes back. Take any two moments of any interleaving, the
  engine thread still running at the later one. At each the engine has applied a number of
  messages of the feed, at the later one at least as many, and the snapshot a handler reads is
  that of the state after the last multiple of the interval, or none before the interval is
  first reached.
\<close>

theorem live_snapshots_advance:
  assumes "fifo_queue enq deq contents q0" and "live_reaches enq deq env (live_init q0 evs cf) s"
    and "live_reaches enq deq env s s'" and "lv_engine s' \<in> {CheckFlag, TryDequeue, Drain}"
    and "k = cf_snapshot_interval cf" and "k \<noteq> 0"
    and "feed = parsed_messages (incoming 1 evs)" and "length feed < 2 ^ 64"
    and "snapshot_of = (\<lambda>n. if n < unat k then None
        else let st = engine_at k feed (n - n mod unat k) in Some (build_snapshot (env st) st))"
  shows "\<exists>n n'. n \<le> n' \<and> n' \<le> length feed \<and>
    lv_world s = (engine_at k feed n, snapshot_of n) \<and> lv_world s' = (engine_at k feed n', snapshot_of n')"
  using live_worlds [OF assms(1-8)] by (simp add: world_at_def assms(9))

text \<open>
  (C5) The books of live mode. When the feed that the packets deliver does not reuse the reference
  of a live order, then at every moment at which the engine thread runs there is a number of
  messages, a multiple of the interval and at most the interval less one behind what the engine
  has applied, such that requests are answered from the state after that many messages: with
  status 503 while it is 0, and after that a request for the book of an instrument of that state
  is answered with exactly the orders live in it, unless the instrument's symbol or trading state
  is not valid UTF-8, when the printing of the answer throws. The request may spell the symbol in
  any case; no two instruments of the state have symbols that differ in case only.
\<close>

theorem live_book_is_live_orders:
  assumes "fifo_queue enq deq contents q0" and "live_reaches enq deq env (live_init q0 evs cf) s"
    and "lv_engine s \<in> {CheckFlag, TryDequeue, Drain}" and "k = cf_snapshot_interval cf" and "k \<noteq> 0"
    and "feed = parsed_messages (incoming 1 evs)" and "feed_ok init_engine feed" and "length feed < 2 ^ 32"
  shows "\<exists>n j st. n \<le> length feed \<and> fst (lv_world s) = engine_at k feed n \<and>
    j = n - n mod unat k \<and> st = engine_at k feed j \<and>
    (if j = 0 then \<forall>sy p. get_book_handler sy p (snd (lv_world s)) = fail 503 ''snapshot not yet available''
     else \<forall>l i b sy p d. env_ok (env st) st \<longrightarrow> lower_distinct st \<longrightarrow> instruments st l = Some i \<longrightarrow>
       books st l = Some b \<longrightarrow> to_lower sy = to_lower (in_symbol i) \<longrightarrow> depth_param p = Inr d \<longrightarrow>
       get_book_handler sy p (snd (lv_world s)) = (if printable i then Inr (live_reply st l i b d) else Inl NotUtf8))"
proof -
  have "length feed < 2 ^ 64" using assms(8) by simp
  from live_worlds [OF assms(1,2) rtranclp.rtrancl_refl assms(3-6) this]
  obtain n where n: "n \<le> length feed" "lv_world s = world_at env k feed n" by blast
  let ?j = "n - n mod unat k" and ?st = "engine_at k feed (n - n mod unat k)"
  have k: "0 < unat k" using assms(5) by (simp add: unat_gt_0)
  have j: "?j = 0 \<longleftrightarrow> n < unat k"
    using k by (metis diff_is_0_eq mod_less mod_less_divisor not_less order_refl order_trans leD)
  have "length (take ?j feed) < 2 ^ 32" using assms(8) by simp
  from consistent_feed [OF feed_ok_take [OF assms(7)] this]
  have "consistent ?st" by (simp add: engine_at_def consistent_control)
  note reply = book_reply_live [OF this]
  show ?thesis
  proof (rule exI [of _ n], rule exI [of _ ?j], rule exI [of _ ?st], intro conjI)
    show "if ?j = 0 then \<forall>sy p. get_book_handler sy p (snd (lv_world s)) = fail 503 ''snapshot not yet available''
     else \<forall>l i b sy p d. env_ok (env ?st) ?st \<longrightarrow> lower_distinct ?st \<longrightarrow> instruments ?st l = Some i \<longrightarrow>
       books ?st l = Some b \<longrightarrow> to_lower sy = to_lower (in_symbol i) \<longrightarrow> depth_param p = Inr d \<longrightarrow>
       get_book_handler sy p (snd (lv_world s)) = (if printable i then Inr (live_reply ?st l i b d) else Inl NotUtf8)"
      unfolding j n(2) world_at_def by (simp add: no_snapshot_reply Let_def reply)
  qed (simp_all add: n world_at_def)
qed

section \<open>A run with one order\<close>

text \<open>A packet with one bid, a snapshot after every message, and the engine caught up.\<close>

definition eager_config :: Config where
  "eager_config = sample_config\<lparr>cf_snapshot_interval := 1\<rparr>"

abbreviation order_packet :: "recv_event list" where
  "order_packet \<equiv> one_packet (encode sample_message)"

lemma sample_short: "length (encode sample_message) \<le> 1000"
  unfolding length_encode by (simp add: sample_message_def)

lemma order_feed: "parsed_messages (incoming 1 order_packet) = [sample_message]"
proof -
  have "length (encode sample_message) \<le> 1000" by (rule sample_short)
  then show ?thesis
    using parse_encode_append [OF sample_encodable, of "[]"] by (simp add: incoming_one_packet parsed_messages_def)
qed

lemma apply_counts:
  "apply_msg env m w = Inr w' \<Longrightarrow> messages_processed (fst w') = messages_processed (fst w) + 1"
  by (auto simp: apply_msg_def Let_def handle_keeps_control split: sum.splits)

lemma live_order_run:
  "\<exists>s s'. live_reaches list_enqueue list_dequeue one_bid_env (live_init [] order_packet eager_config) s \<and>
     live_reaches list_enqueue list_dequeue one_bid_env s s' \<and> running s' \<and>
     messages_processed (fst (lv_world s)) = 0 \<and> messages_processed (fst (lv_world s')) = 1"
proof -
  let ?m = "encode sample_message" and ?w0 = "(set_snapshot_interval 1 init_engine, None) :: world"
  from live_one_packet [OF sample_short, of one_bid_env eager_config]
  obtain s where s: "live_reaches list_enqueue list_dequeue one_bid_env (live_init [] order_packet eager_config) s"
    "lv_queue s = [?m]" "lv_engine s = CheckFlag" "lv_world s = ?w0"
    by (auto simp: live_init_def eager_config_def)
  have "\<exists>s'. live_reaches list_enqueue list_dequeue one_bid_env s s' \<and> running s' \<and> id (lv_queue s') = [] \<and>
      lv_enqueued s' = lv_enqueued s \<and>
      process_all one_bid_env (id (lv_queue s)) (lv_world s) = Inr (lv_world s')"
    by (rule engine_catches_up [OF fifo_list]) (simp_all add: s set_snapshot_interval_def)
  then obtain s' where s': "live_reaches list_enqueue list_dequeue one_bid_env s s'" "running s'"
    "apply_msg one_bid_env sample_message ?w0 = Inr (lv_world s')"
    using process_encode [OF sample_encodable, of one_bid_env ?w0] by (auto simp: s split: sum.splits)
  then have "messages_processed (fst (lv_world s')) = 1"
    using apply_counts [OF s'(3)] by (simp add: set_snapshot_interval_def init_engine_def)
  with s(1,4) s'(1,2) show ?thesis by (force simp: set_snapshot_interval_def init_engine_def)
qed

theorem live_snapshots_advance_witness:
  "\<exists>s s' n n'. live_reaches list_enqueue list_dequeue one_bid_env (live_init [] order_packet eager_config) s \<and>
     live_reaches list_enqueue list_dequeue one_bid_env s s' \<and> n \<le> n' \<and>
     fst (lv_world s) = engine_at 1 [sample_message] n \<and> fst (lv_world s') = engine_at 1 [sample_message] n'"
proof -
  obtain s s' where s: "live_reaches list_enqueue list_dequeue one_bid_env (live_init [] order_packet eager_config) s"
    "live_reaches list_enqueue list_dequeue one_bid_env s s'" "running s'" using live_order_run by blast
  have k: "1 = cf_snapshot_interval eager_config" by (simp add: eager_config_def)
  from live_snapshots_advance [OF fifo_list s k _ order_feed [symmetric] _ refl] s show ?thesis by fastforce
qed

lemma one_bid_lower: "lower_distinct one_bid"
proof -
  have "instruments one_bid l = Some i \<Longrightarrow> l = 7" for l i
    using one_bid_dom(2) domI [of "instruments one_bid" l i] by simp
  then show ?thesis unfolding lower_distinct_def by metis
qed

theorem live_book_is_live_orders_witness:
  "\<exists>s st b. live_reaches list_enqueue list_dequeue one_bid_env (live_init [] order_packet eager_config) s \<and>
     get_book_handler ''Unknown_7'' (Some ''5'') (snd (lv_world s)) = Inr (live_reply st 7 (placeholder 7) b 5)"
proof -
  obtain s where s: "live_reaches list_enqueue list_dequeue one_bid_env (live_init [] order_packet eager_config) s"
    "running s" "messages_processed (fst (lv_world s)) = 1" using live_order_run by (meson rtranclp_trans)
  have k: "1 = cf_snapshot_interval eager_config" by (simp add: eager_config_def)
  have "feed_ok init_engine [sample_message]" by (simp add: sample_message_def sample_add_def init_engine_def)
  from live_book_is_live_orders [OF fifo_list s(1,2) k _ order_feed [symmetric] this]
  obtain n j st where n: "fst (lv_world s) = engine_at 1 [sample_message] n" "n \<le> 1" "j = n"
    "st = engine_at 1 [sample_message] j" and reply: "if j = 0
       then \<forall>sy p. get_book_handler sy p (snd (lv_world s)) = fail 503 ''snapshot not yet available''
       else \<forall>l i b sy p d. env_ok (one_bid_env st) st \<longrightarrow> lower_distinct st \<longrightarrow> instruments st l = Some i \<longrightarrow>
         books st l = Some b \<longrightarrow> to_lower sy = to_lower (in_symbol i) \<longrightarrow> depth_param p = Inr d \<longrightarrow>
         get_book_handler sy p (snd (lv_world s)) = (if printable i then Inr (live_reply st l i b d) else Inl NotUtf8)"
    by auto
  have "n = 1" using n(1,2) s(3) by (cases n) (auto simp: engine_at_def)
  with n have st: "st = with_control 1 1 False one_bid" and j: "j \<noteq> 0"
    by (simp_all add: engine_at_def one_bid_def sample_message_def)
  have "env_ok (one_bid_env st) st" using one_bid_env_ok unfolding st env_ok_control by (simp add: one_bid_env_def)
  moreover have "lower_distinct st" using one_bid_lower unfolding st lower_distinct_control .
  moreover have "instruments st 7 = Some (placeholder 7)" unfolding st with_control_simps by code_simp
  moreover obtain b where "books st 7 = Some b" using one_bid_dom(1) unfolding st by fastforce
  moreover have "depth_param (Some ''5'') = Inr 5" by code_simp
  ultimately have "get_book_handler ''Unknown_7'' (Some ''5'') (snd (lv_world s)) = Inr (live_reply st 7 (placeholder 7) b 5)"
    using reply j two_sided_name placeholder_utf8 by (simp add: printable_def)
  with s(1) show ?thesis by blast
qed

end
