(* ===== verification/Rest_Routes.thy ===== *)
theory Rest_Routes
  imports Rest_Properties
begin

text \<open>
  The rest of \<^verbatim>\<open>src/rest_server.cpp\<close>: the routes and the life cycle of the server object. The HTTP
  library is a parameter: a record of the calls the source makes on it and of the choice of a
  handler for a path. \<open>http_documented\<close> states what its documentation says of routes with path
  parameters; it leaves open what happens to paths with empty segments.
\<close>

section \<open>The HTTP library\<close>

datatype route = StatusRoute | InstrumentsRoute | BookRoute | TopRoute

record Request =
  rq_path :: string
  rq_depth :: "string option"

record 'srv http_api =
  http_new :: 'srv
  http_get :: "string \<Rightarrow> route \<Rightarrow> 'srv \<Rightarrow> 'srv"
  http_dispatch :: "'srv \<Rightarrow> string \<Rightarrow> (route \<times> (string \<times> string) list) option"
  http_stop :: "'srv \<Rightarrow> 'srv"

text \<open>A path, split at its slashes; a segment of a pattern that starts with a colon is a parameter.\<close>

fun segments :: "string \<Rightarrow> string list" where
  "segments [] = [[]]"
| "segments (c # cs) =
     (if c = CHR ''/'' then [] # segments cs
      else (case segments cs of [] \<Rightarrow> [[c]] | s # ss \<Rightarrow> (c # s) # ss))"

fun match_segments :: "string list \<Rightarrow> string list \<Rightarrow> (string \<times> string) list option" where
  "match_segments [] [] = Some []"
| "match_segments (p # ps) (s # ss) =
     (if p \<noteq> [] \<and> hd p = CHR '':'' then map_option (\<lambda>m. (tl p, s) # m) (match_segments ps ss)
      else if p = s then match_segments ps ss else None)"
| "match_segments _ _ = None"

fun first_match :: "(string \<times> route) list \<Rightarrow> string \<Rightarrow> (route \<times> (string \<times> string) list) option" where
  "first_match [] path = None"
| "first_match ((p, r) # rs) path =
     (case match_segments (segments p) (segments path) of
        Some m \<Rightarrow> Some (r, m)
      | None \<Rightarrow> first_match rs path)"

definition plain_path :: "string \<Rightarrow> bool" where
  "plain_path path \<longleftrightarrow> [] \<notin> set (tl (segments path))"

definition http_documented :: "'srv http_api \<Rightarrow> ('srv \<Rightarrow> (string \<times> route) list) \<Rightarrow> bool" where
  "http_documented api routes \<longleftrightarrow>
     routes (http_new api) = [] \<and>
     (\<forall>p r s. routes (http_get api p r s) = routes s @ [(p, r)]) \<and>
     (\<forall>s path. plain_path path \<longrightarrow> http_dispatch api s path = first_match (routes s) path)"

section \<open>The server object\<close>

record 'srv RestServer =
  rest_port :: u16
  rest_server :: 'srv
  rest_joinable :: bool

definition setup_routes :: "'srv http_api \<Rightarrow> 'srv \<Rightarrow> 'srv" where
  "setup_routes api srv =
     (let s1 = http_get api ''/status'' StatusRoute srv;
          s2 = http_get api ''/instruments'' InstrumentsRoute s1;
          s3 = http_get api ''/book/:symbol'' BookRoute s2
      in http_get api ''/book/:symbol/top'' TopRoute s3)"

definition rest_construct :: "'srv http_api \<Rightarrow> u16 \<Rightarrow> 'srv RestServer" where
  "rest_construct api port =
     \<lparr>rest_port = port, rest_server = setup_routes api (http_new api), rest_joinable = False\<rparr>"

text \<open>
  Assigning to a thread object that is still joinable ends the program (\<^const>\<open>None\<close>), and so does
  destroying one. Joining returns when \<^verbatim>\<open>listen\<close> has returned, which the library's \<^verbatim>\<open>stop\<close> is for.
\<close>

definition rest_start :: "'srv RestServer \<Rightarrow> 'srv RestServer option" where
  "rest_start r = (if rest_joinable r then None else Some (r\<lparr>rest_joinable := True\<rparr>))"

definition rest_stop :: "'srv http_api \<Rightarrow> 'srv RestServer \<Rightarrow> 'srv RestServer" where
  "rest_stop api r =
     (let r1 = r\<lparr>rest_server := http_stop api (rest_server r)\<rparr>
      in if rest_joinable r1 then r1\<lparr>rest_joinable := False\<rparr> else r1)"

text \<open>The destructor, then that of the thread member.\<close>

definition rest_destroy :: "'srv http_api \<Rightarrow> 'srv RestServer \<Rightarrow> 'srv RestServer option" where
  "rest_destroy api r = (let r1 = rest_stop api r in if rest_joinable r1 then None else Some r1)"

text \<open>
  A GET request to the server, with what the handlers read besides the snapshot: the clock and the
  iteration order of the books. \<^const>\<open>None\<close>: no route matches and the library answers by itself.
\<close>

definition serve :: "'srv http_api \<Rightarrow> 'srv RestServer \<Rightarrow> int \<Rightarrow> string list \<Rightarrow> Request \<Rightarrow> publisher \<Rightarrow>
    (rest_exn + Response) option" where
  "serve api r now_ms symbols req pub =
     (case http_dispatch api (rest_server r) (rq_path req) of
        None \<Rightarrow> None
      | Some (StatusRoute, ps) \<Rightarrow> Some (get_status now_ms pub)
      | Some (InstrumentsRoute, ps) \<Rightarrow> Some (get_instruments symbols pub)
      | Some (BookRoute, ps) \<Rightarrow>
          Some (case map_of ps ''symbol'' of
                  None \<Rightarrow> Inl OutOfRange
                | Some symbol \<Rightarrow> get_book_handler symbol (rq_depth req) pub)
      | Some (TopRoute, ps) \<Rightarrow>
          Some (case map_of ps ''symbol'' of
                  None \<Rightarrow> Inl OutOfRange
                | Some symbol \<Rightarrow> get_top symbol pub))"

section \<open>Paths\<close>

lemma segments_nonempty [simp]: "segments s \<noteq> []"
  by (cases s) (auto split: list.split)

lemma segments_word: "CHR ''/'' \<notin> set s \<Longrightarrow> segments s = [s]"
  by (induction s) auto

lemma segments_append_slash: "segments (s @ CHR ''/'' # t) = segments s @ segments t"
  by (induction s) (auto split: list.split)

definition join_slash :: "string list \<Rightarrow> string" where
  "join_slash ss = concat (map (\<lambda>s. CHR ''/'' # s) ss)"

lemma segments_join: "list_all (\<lambda>s. CHR ''/'' \<notin> set s) ss \<Longrightarrow> segments (join_slash ss) = [] # ss"
proof (induction ss rule: rev_induct)
  case (snoc s ss)
  have "join_slash (ss @ [s]) = join_slash ss @ CHR ''/'' # s" by (simp add: join_slash_def)
  with snoc show ?case by (simp add: segments_append_slash segments_word)
qed (simp add: join_slash_def)

lemma join_segments: "segments path = [] # ss \<Longrightarrow> path = join_slash ss"
proof -
  have "join_slash (segments p) = CHR ''/'' # p" for p
    by (induction p) (auto simp: join_slash_def split: list.split)
  from this [of path] show "segments path = [] # ss \<Longrightarrow> path = join_slash ss" by (simp add: join_slash_def)
qed

lemma segments_no_slash: "t \<in> set (segments path) \<Longrightarrow> CHR ''/'' \<notin> set t"
  by (induction path arbitrary: t) (auto split: if_splits list.splits)

text \<open>The patterns of the four routes.\<close>

lemma pattern_segments:
  "segments ''/status'' = ['''', ''status'']" "segments ''/instruments'' = ['''', ''instruments'']"
  "segments ''/book/:symbol'' = ['''', ''book'', '':symbol'']"
  "segments ''/book/:symbol/top'' = ['''', ''book'', '':symbol'', ''top'']"
  by simp_all

definition all_routes :: "(string \<times> route) list" where
  "all_routes = [(''/status'', StatusRoute), (''/instruments'', InstrumentsRoute), (''/book/:symbol'', BookRoute),
     (''/book/:symbol/top'', TopRoute)]"

lemma match_Cons: "match_segments (p # ps) ss =
    (case ss of
       [] \<Rightarrow> None
     | s # ss' \<Rightarrow>
         if p \<noteq> [] \<and> hd p = CHR '':'' then map_option (\<lambda>m. (tl p, s) # m) (match_segments ps ss')
         else if p = s then match_segments ps ss' else None)"
  by (cases ss) auto

lemma match_Nil: "match_segments [] ss = (if ss = [] then Some [] else None)"
  by (cases ss) auto

lemma first_match_routes:
  "first_match all_routes path =
     (case segments path of
        [a, b] \<Rightarrow>
          if a = [] \<and> b = ''status'' then Some (StatusRoute, [])
          else if a = [] \<and> b = ''instruments'' then Some (InstrumentsRoute, []) else None
      | [a, b, c] \<Rightarrow> if a = [] \<and> b = ''book'' then Some (BookRoute, [(''symbol'', c)]) else None
      | [a, b, c, d] \<Rightarrow> if a = [] \<and> b = ''book'' \<and> d = ''top'' then Some (TopRoute, [(''symbol'', c)]) else None
      | _ \<Rightarrow> None)"
  unfolding all_routes_def first_match.simps pattern_segments
  by (auto simp: match_Cons match_Nil split: list.split)

lemma server_routes:
  assumes "http_documented api routes"
  shows "routes (rest_server (rest_construct api port)) = all_routes"
  using assms by (simp add: http_documented_def rest_construct_def setup_routes_def Let_def all_routes_def)

lemma serve_plain:
  assumes "http_documented api routes" and "routes (rest_server r) = all_routes" and "plain_path (rq_path req)"
  shows "serve api r now_ms symbols req pub =
     (case segments (rq_path req) of
        [a, b] \<Rightarrow>
          if a = [] \<and> b = ''status'' then Some (get_status now_ms pub)
          else if a = [] \<and> b = ''instruments'' then Some (get_instruments symbols pub) else None
      | [a, b, sy] \<Rightarrow> if a = [] \<and> b = ''book'' then Some (get_book_handler sy (rq_depth req) pub) else None
      | [a, b, sy, d] \<Rightarrow> if a = [] \<and> b = ''book'' \<and> d = ''top'' then Some (get_top sy pub) else None
      | _ \<Rightarrow> None)"
proof -
  have "http_dispatch api (rest_server r) (rq_path req) = first_match all_routes (rq_path req)"
    using assms by (simp add: http_documented_def)
  then show ?thesis unfolding serve_def first_match_routes by (auto split: list.split)
qed

lemma serve_book:
  assumes "http_documented api routes" and "routes (rest_server r) = all_routes" and "sy \<noteq> []" and "CHR ''/'' \<notin> set sy"
  shows "serve api r now_ms symbols \<lparr>rq_path = ''/book/'' @ sy, rq_depth = depth\<rparr> pub = Some (get_book_handler sy depth pub)"
    and "serve api r now_ms symbols \<lparr>rq_path = ''/book/'' @ sy @ ''/top'', rq_depth = depth\<rparr> pub = Some (get_top sy pub)"
proof -
  have book: "segments (''/book/'' @ sy) = ['''', ''book'', sy]"
    using segments_join [of "[''book'', sy]"] assms(4) by (simp add: join_slash_def)
  have top: "segments (''/book/'' @ sy @ ''/top'') = ['''', ''book'', sy, ''top'']"
    using segments_join [of "[''book'', sy, ''top'']"] assms(4) by (simp add: join_slash_def)
  show "serve api r now_ms symbols \<lparr>rq_path = ''/book/'' @ sy, rq_depth = depth\<rparr> pub = Some (get_book_handler sy depth pub)"
    by (subst serve_plain [OF assms(1,2)]) (use book assms(3) in \<open>simp_all add: plain_path_def\<close>)
  show "serve api r now_ms symbols \<lparr>rq_path = ''/book/'' @ sy @ ''/top'', rq_depth = depth\<rparr> pub = Some (get_top sy pub)"
    by (subst serve_plain [OF assms(1,2)]) (use top assms(3) in \<open>simp_all add: plain_path_def\<close>)
qed

section \<open>Properties\<close>

text \<open>
  (C25) Routing. The server answers the two fixed paths with the status and the instruments, the path
  \<^verbatim>\<open>/book/\<close> followed by a symbol with the book of that symbol at the requested depth, the same path
  followed by \<^verbatim>\<open>/top\<close> with its top, for every non-empty symbol without a slash (one that is called
  \<^verbatim>\<open>top\<close> included). Of the paths whose segments between slashes are all non-empty no other reaches a
  handler; what the library does with a trailing or a double slash is left open.
\<close>

theorem routes_reach_handlers:
  assumes "http_documented api routes" and "r = rest_construct api port" and "sy \<noteq> []" and "CHR ''/'' \<notin> set sy"
    and "answer = (\<lambda>path. serve api r now_ms symbols \<lparr>rq_path = path, rq_depth = depth\<rparr> pub)"
  shows "answer ''/status'' = Some (get_status now_ms pub) \<and>
    answer ''/instruments'' = Some (get_instruments symbols pub) \<and>
    answer (''/book/'' @ sy) = Some (get_book_handler sy depth pub) \<and>
    answer (''/book/'' @ sy @ ''/top'') = Some (get_top sy pub) \<and>
    (\<forall>path. plain_path path \<longrightarrow> answer path \<noteq> None \<longrightarrow>
       path = ''/status'' \<or> path = ''/instruments'' \<or>
       (\<exists>t. t \<noteq> [] \<and> CHR ''/'' \<notin> set t \<and> (path = ''/book/'' @ t \<or> path = ''/book/'' @ t @ ''/top'')))"
proof (intro conjI)
  have a: "answer path = serve api (rest_construct api port) now_ms symbols \<lparr>rq_path = path, rq_depth = depth\<rparr> pub"
    for path by (simp add: assms(2,5))
  note routes = server_routes [OF assms(1), of port]
  note sp = serve_plain [OF assms(1) routes, of "\<lparr>rq_path = path, rq_depth = depth\<rparr>" now_ms symbols pub for path]
  show "answer ''/status'' = Some (get_status now_ms pub)"
    unfolding a by (subst sp) (simp_all add: plain_path_def)
  show "answer ''/instruments'' = Some (get_instruments symbols pub)"
    unfolding a by (subst sp) (simp_all add: plain_path_def)
  show "answer (''/book/'' @ sy) = Some (get_book_handler sy depth pub)"
    unfolding a by (rule serve_book [OF assms(1) routes assms(3,4)])
  show "answer (''/book/'' @ sy @ ''/top'') = Some (get_top sy pub)"
    unfolding a by (rule serve_book [OF assms(1) routes assms(3,4)])
  show "\<forall>path. plain_path path \<longrightarrow> answer path \<noteq> None \<longrightarrow>
       path = ''/status'' \<or> path = ''/instruments'' \<or>
       (\<exists>t. t \<noteq> [] \<and> CHR ''/'' \<notin> set t \<and> (path = ''/book/'' @ t \<or> path = ''/book/'' @ t @ ''/top''))"
  proof (intro allI impI)
    fix path assume p: "plain_path path" "answer path \<noteq> None"
    then have "segments path = ['''', ''status''] \<or> segments path = ['''', ''instruments''] \<or>
        (\<exists>t. segments path = ['''', ''book'', t] \<or> segments path = ['''', ''book'', t, ''top''])"
      unfolding a using sp [of path] by (auto split: list.splits if_splits)
    then consider "segments path = ['''', ''status'']" | "segments path = ['''', ''instruments'']"
      | t where "segments path = ['''', ''book'', t]" | t where "segments path = ['''', ''book'', t, ''top'']" by blast
    then show "path = ''/status'' \<or> path = ''/instruments'' \<or>
       (\<exists>t. t \<noteq> [] \<and> CHR ''/'' \<notin> set t \<and> (path = ''/book/'' @ t \<or> path = ''/book/'' @ t @ ''/top''))"
    proof cases
      case (3 t)
      then have "t \<noteq> []" "CHR ''/'' \<notin> set t" "path = ''/book/'' @ t"
        using p(1) segments_no_slash [of t path] join_segments [OF 3] by (auto simp: plain_path_def join_slash_def)
      then show ?thesis by blast
    next
      case (4 t)
      then have "t \<noteq> []" "CHR ''/'' \<notin> set t" "path = ''/book/'' @ t @ ''/top''"
        using p(1) segments_no_slash [of t path] join_segments [OF 4] by (auto simp: plain_path_def join_slash_def)
      then show ?thesis by blast
    qed (auto dest!: join_segments simp: join_slash_def)
  qed
qed

text \<open>A library whose server is the list of its routes.\<close>

definition list_http :: "(string \<times> route) list http_api" where
  "list_http = \<lparr>http_new = [], http_get = (\<lambda>p r s. s @ [(p, r)]), http_dispatch = first_match, http_stop = (\<lambda>s. s)\<rparr>"

lemma list_http_documented: "http_documented list_http (\<lambda>s. s)"
  by (simp add: http_documented_def list_http_def)

theorem routes_reach_handlers_witness:
  "serve list_http (rest_construct list_http 8080) 0 [] \<lparr>rq_path = ''/book/AAPL/top'', rq_depth = None\<rparr> None =
     Some (get_top ''AAPL'' None)"
  using routes_reach_handlers [OF list_http_documented refl _ _ refl, where sy = "''AAPL''" and now_ms = 0 and symbols = "[]"
      and depth = None and pub = None and port = 8080] by simp

section \<open>Life cycle\<close>

datatype rest_call = CallStart | CallStop

fun rest_calls :: "'srv http_api \<Rightarrow> rest_call list \<Rightarrow> 'srv RestServer \<Rightarrow> 'srv RestServer option" where
  "rest_calls api [] r = Some r"
| "rest_calls api (CallStart # cs) r = (case rest_start r of None \<Rightarrow> None | Some r' \<Rightarrow> rest_calls api cs r')"
| "rest_calls api (CallStop # cs) r = rest_calls api cs (rest_stop api r)"

fun alternating :: "bool \<Rightarrow> rest_call list \<Rightarrow> bool" where
  "alternating started [] = True"
| "alternating started (CallStart # cs) = (\<not> started \<and> alternating True cs)"
| "alternating started (CallStop # cs) = alternating False cs"

text \<open>
  The program is ended by a second start without a stop in between and by nothing else, and the
  destructor leaves no thread behind.
\<close>

lemma rest_lifecycle:
  "rest_calls api cs (rest_construct api port) \<noteq> None \<longleftrightarrow> alternating False cs"
  "rest_calls api cs (rest_construct api port) = Some r \<Longrightarrow>
     \<exists>r'. rest_destroy api r = Some r' \<and> \<not> rest_joinable r' \<and> rest_port r' = port"
proof -
  have "rest_calls api cs r \<noteq> None \<longleftrightarrow> alternating (rest_joinable r) cs" for r :: "'a RestServer"
    by (induction api cs r rule: rest_calls.induct) (simp_all add: rest_start_def rest_stop_def Let_def)
  then show "rest_calls api cs (rest_construct api port) \<noteq> None \<longleftrightarrow> alternating False cs"
    by (simp add: rest_construct_def)
  have "rest_calls api cs r0 = Some r \<Longrightarrow> rest_port r = rest_port r0" for r0
    by (induction api cs r0 rule: rest_calls.induct)
      (auto simp: rest_start_def rest_stop_def Let_def split: if_splits)
  then show "rest_calls api cs (rest_construct api port) = Some r \<Longrightarrow>
     \<exists>r'. rest_destroy api r = Some r' \<and> \<not> rest_joinable r' \<and> rest_port r' = port"
    by (auto simp: rest_destroy_def rest_stop_def Let_def rest_construct_def)
qed

end
