(* ===== verification/Engine_Counters.thy ===== *)
theory Engine_Counters
  imports Engine_Properties
begin

text \<open>
  The two diagnostic counters of the engine and \<^verbatim>\<open>log_summary\<close> of \<^verbatim>\<open>src/book_engine.cpp\<close>. The counters
  are compared with a count over the feed that looks only at the live orders: the messages whose
  order is not live, and the executions and cancels of more shares than the order has.
\<close>

section \<open>The summary\<close>

text \<open>What is written to the error stream.\<close>

definition log_summary :: "Engine \<Rightarrow> string" where
  "log_summary st =
     (if skipped_unknown_ref st > 0
      then ''[WARN] '' @ to_string (unat (skipped_unknown_ref st)) @
           '' message(s) skipped: unknown order reference\<newline>''
      else []) @
     (if corrupt_messages st > 0
      then ''[WARN] '' @ to_string (unat (corrupt_messages st)) @
           '' oversized execute/cancel message(s): rec.shares clamped to zero\<newline>''
      else [])"

section \<open>Which messages are skipped\<close>

fun target_ref :: "ParsedMessage \<Rightarrow> u64 option" where
  "target_ref (OrderExecuted m) = Some (oe_order_ref m)"
| "target_ref (OrderExecutedPrice m) = Some (op_order_ref m)"
| "target_ref (OrderCancel m) = Some (oc_order_ref m)"
| "target_ref (OrderDelete m) = Some (od_order_ref m)"
| "target_ref (OrderReplace m) = Some (or_original_order_ref m)"
| "target_ref _ = None"

definition missed :: "ParsedMessage \<Rightarrow> (u64 \<rightharpoonup> OrderRecord) \<Rightarrow> bool" where
  "missed msg oi = (case target_ref msg of None \<Rightarrow> False | Some r \<Rightarrow> oi r = None)"

lemma skipped_reduce:
  assumes "engine_wf st"
  shows "skipped_unknown_ref (reduce_order ref q t st) =
    skipped_unknown_ref st + (if order_index st ref = None then 1 else 0)"
proof (cases "order_index st ref")
  case (Some rec)
  obtain b where "books st (rec_stock_locate rec) = Some b" using assms Some by (rule wf_orderD)
  with Some show ?thesis by (simp add: reduce_order_Some [OF Some _ refl])
qed (simp add: reduce_order_None)

lemma skipped_handle:
  assumes "engine_wf st"
  shows "skipped_unknown_ref (handle msg st) =
    skipped_unknown_ref st + (if missed msg (order_index st) then 1 else 0)"
proof (cases msg)
  case (OrderDelete m)
  show ?thesis
  proof (cases "order_index st (od_order_ref m)")
    case (Some rec)
    obtain b where "books st (rec_stock_locate rec) = Some b" using assms Some by (rule wf_orderD)
    then show ?thesis by (simp add: OrderDelete delete_Some [OF Some] missed_def Some)
  qed (simp add: OrderDelete delete_None missed_def)
next
  case (OrderReplace m)
  show ?thesis
  proof (cases "order_index st (or_original_order_ref m)")
    case (Some rec)
    obtain b where "books st (rec_stock_locate rec) = Some b" using assms Some by (rule wf_orderD)
    then show ?thesis by (simp add: OrderReplace replace_Some [OF Some] missed_def Some)
  qed (simp add: OrderReplace replace_None missed_def)
qed (use assms in \<open>simp_all add: missed_def executed_reduce executed_price_reduce cancel_reduce skipped_reduce
       handle_stock_directory_def Let_def handle_stock_trading_action_def handle_add_order_def
       handle_add_order_mpid_def add_order_closed split: option.split\<close>)

section \<open>Which messages are oversized\<close>

fun reduction :: "ParsedMessage \<Rightarrow> (u64 \<times> u32) option" where
  "reduction (OrderExecuted m) = Some (oe_order_ref m, oe_executed_shares m)"
| "reduction (OrderExecutedPrice m) = Some (op_order_ref m, op_executed_shares m)"
| "reduction (OrderCancel m) = Some (oc_order_ref m, oc_cancelled_shares m)"
| "reduction _ = None"

definition oversized :: "ParsedMessage \<Rightarrow> (u64 \<rightharpoonup> OrderRecord) \<Rightarrow> bool" where
  "oversized msg oi =
     (case reduction msg of
        None \<Rightarrow> False
      | Some (r, q) \<Rightarrow> (case oi r of None \<Rightarrow> False | Some rec \<Rightarrow> q > rec_shares rec))"

lemma corrupt_reduce:
  assumes "engine_wf st"
  shows "corrupt_messages (reduce_order ref q t st) = corrupt_messages st +
    (case order_index st ref of None \<Rightarrow> 0 | Some rec \<Rightarrow> if q > rec_shares rec then 1 else 0)"
proof (cases "order_index st ref")
  case (Some rec)
  obtain b where "books st (rec_stock_locate rec) = Some b" using assms Some by (rule wf_orderD)
  with Some show ?thesis by (simp add: reduce_order_Some [OF Some _ refl] clamped_sub_def)
qed (simp add: reduce_order_None)

lemma corrupt_handle:
  assumes "engine_wf st"
  shows "corrupt_messages (handle msg st) =
    corrupt_messages st + (if oversized msg (order_index st) then 1 else 0)"
proof (cases msg)
  case (OrderDelete m)
  show ?thesis
  proof (cases "order_index st (od_order_ref m)")
    case (Some rec)
    obtain b where "books st (rec_stock_locate rec) = Some b" using assms Some by (rule wf_orderD)
    then show ?thesis by (simp add: OrderDelete delete_Some [OF Some] oversized_def)
  qed (simp add: OrderDelete delete_None oversized_def)
next
  case (OrderReplace m)
  show ?thesis
  proof (cases "order_index st (or_original_order_ref m)")
    case (Some rec)
    obtain b where "books st (rec_stock_locate rec) = Some b" using assms Some by (rule wf_orderD)
    then show ?thesis by (simp add: OrderReplace replace_Some [OF Some] oversized_def)
  qed (simp add: OrderReplace replace_None oversized_def)
qed (use assms in \<open>simp_all add: oversized_def executed_reduce executed_price_reduce cancel_reduce corrupt_reduce
       handle_stock_directory_def Let_def handle_stock_trading_action_def handle_add_order_def
       handle_add_order_mpid_def add_order_closed split: option.split\<close>)

section \<open>Whole feeds\<close>

text \<open>How many messages of a feed are flagged, each judged by the orders live before it.\<close>

fun feed_count :: "(ParsedMessage \<Rightarrow> (u64 \<rightharpoonup> OrderRecord) \<Rightarrow> bool) \<Rightarrow> ParsedMessage list \<Rightarrow>
    (u64 \<rightharpoonup> OrderRecord) \<Rightarrow> nat" where
  "feed_count P [] oi = 0"
| "feed_count P (m # ms) oi = (if P m oi then 1 else 0) + feed_count P ms (orders_step m oi)"

lemma feed_count_le: "feed_count P ms oi \<le> length ms"
  by (induction ms arbitrary: oi) (auto simp: le_SucI)

lemma counters_run_feed:
  assumes "engine_wf st"
  shows "skipped_unknown_ref (run_feed ms st) = skipped_unknown_ref st + of_nat (feed_count missed ms (order_index st))"
    and "corrupt_messages (run_feed ms st) = corrupt_messages st + of_nat (feed_count oversized ms (order_index st))"
  using assms
  by (induction ms arbitrary: st)
    (simp_all add: wf_handle skipped_handle corrupt_handle order_index_handle del: handle.simps)

section \<open>Property\<close>

text \<open>
  (C23) The summary is exact: after any feed of fewer than \<open>2 ^ 64\<close> messages \<^verbatim>\<open>log_summary\<close> reports how
  many messages named an order that was not live and how many took more shares than their order
  had, and it stays silent about a count of zero.
\<close>

theorem log_summary_exact:
  assumes "length ms < 2 ^ 64" and "s = feed_count missed ms Map.empty" and "c = feed_count oversized ms Map.empty"
  shows "log_summary (run_feed ms init_engine) =
     (if s = 0 then [] else ''[WARN] '' @ to_string s @ '' message(s) skipped: unknown order reference\<newline>'') @
     (if c = 0 then []
      else ''[WARN] '' @ to_string c @ '' oversized execute/cancel message(s): rec.shares clamped to zero\<newline>'')"
proof -
  have "s < 2 ^ 64" "c < 2 ^ 64"
    using feed_count_le [of missed ms Map.empty] feed_count_le [of oversized ms Map.empty] assms by simp_all
  then have u: "unat (of_nat s :: u64) = s" "unat (of_nat c :: u64) = c" by (simp_all only: unat_of_nat_u64)
  then have z: "of_nat s > (0 :: u64) \<longleftrightarrow> s \<noteq> 0" "of_nat c > (0 :: u64) \<longleftrightarrow> c \<noteq> 0"
    by (metis unat_gt_0 word_greater_zero_iff neq0_conv)+
  have e: "skipped_unknown_ref (run_feed ms init_engine) = of_nat s" "corrupt_messages (run_feed ms init_engine) = of_nat c"
    using counters_run_feed [OF engine_wf_init, of ms] by (simp_all add: assms(2,3) init_engine_def)
  show ?thesis unfolding log_summary_def e z u by simp
qed

text \<open>One order of 100 shares, an execution of 150, and a delete that comes too late.\<close>

theorem log_summary_exact_witness:
  "log_summary (run_feed [AddOrder (sample_add 1 CHR ''B'' 100 1000000), OrderExecuted (sample_exec 1 150),
      OrderDelete \<lparr>od_stock_locate = 7, od_tracking_number = 0, od_timestamp = 3000, od_order_ref = 1\<rparr>] init_engine) =
   ''[WARN] 1 message(s) skipped: unknown order reference\<newline>[WARN] 1 oversized execute/cancel message(s): rec.shares clamped to zero\<newline>''"
proof -
  let ?ms = "[AddOrder (sample_add 1 CHR ''B'' 100 1000000), OrderExecuted (sample_exec 1 150),
      OrderDelete \<lparr>od_stock_locate = 7, od_tracking_number = 0, od_timestamp = 3000, od_order_ref = 1\<rparr>]"
  have s: "1 = feed_count missed ?ms Map.empty" "1 = feed_count oversized ?ms Map.empty"
    by (simp_all add: missed_def oversized_def sample_add_def sample_exec_def reduce_orders_def)
  have "to_string 1 = ''1''" by code_simp
  with log_summary_exact [OF _ s] show ?thesis by simp
qed

end
