(* ===== verification/Feed_File.thy ===== *)
theory Feed_File
  imports Feed_Reader
begin

text \<open>
  The constructor and the destructor of the file reader in \<^verbatim>\<open>src/feed_reader.cpp\<close>. The system calls
  are parameters on a world of type \<open>'w\<close>; \<open>posix_files\<close> states what the manual pages say of them,
  with \<open>fds\<close> the set of open descriptors.
\<close>

record 'w file_api =
  sys_open :: "string \<Rightarrow> 'w \<Rightarrow> int \<times> 'w"
  sys_close_fd :: "int \<Rightarrow> 'w \<Rightarrow> int \<times> 'w"

definition posix_files :: "'w file_api \<Rightarrow> ('w \<Rightarrow> int set) \<Rightarrow> bool" where
  "posix_files api fds \<longleftrightarrow>
     (\<forall>path w. case sys_open api path w of (fd, w') \<Rightarrow>
        if fd < 0 then fds w' = fds w else fd \<notin> fds w \<and> fds w' = insert fd (fds w)) \<and>
     (\<forall>fd w. fds (snd (sys_close_fd api fd w)) = fds w - {fd})"

definition file_construct :: "'w file_api \<Rightarrow> string \<Rightarrow> 'w \<Rightarrow> (feed_exn + int) \<times> 'w" where
  "file_construct api path w =
     (let (fd, w1) = sys_open api path w in if fd < 0 then (Inl CannotOpen, w1) else (Inr fd, w1))"

definition file_destroy :: "'w file_api \<Rightarrow> int \<Rightarrow> 'w \<Rightarrow> 'w" where
  "file_destroy api fd w = (if fd \<ge> 0 then snd (sys_close_fd api fd w) else w)"

text \<open>No descriptor is lost, whether the file can be opened or not.\<close>

lemma file_reader_lifecycle:
  assumes "posix_files api fds"
  shows "case file_construct api path w of
      (Inr fd, w') \<Rightarrow> fd \<notin> fds w \<and> fds w' = insert fd (fds w) \<and> fds (file_destroy api fd w') = fds w
    | (Inl e, w') \<Rightarrow> e = CannotOpen \<and> fds w' = fds w"
proof -
  obtain fd w1 where o: "sys_open api path w = (fd, w1)" by fastforce
  have "if fd < 0 then fds w1 = fds w else fd \<notin> fds w \<and> fds w1 = insert fd (fds w)"
    using assms o unfolding posix_files_def by (metis (mono_tags, lifting) case_prod_conv)
  moreover have "fds (snd (sys_close_fd api fd w1)) = fds w1 - {fd}" using assms unfolding posix_files_def by blast
  ultimately show ?thesis by (auto simp: file_construct_def file_destroy_def o)
qed

end
