(* ===== verification/Main_Program.thy ===== *)
theory Main_Program
  imports Live_Serving Rest_Routes Engine_Counters Feed_File
begin

text \<open>
  \<^verbatim>\<open>main\<close> of \<^verbatim>\<open>src/main.cpp\<close> as a whole: the configuration, the server, the choice of the mode and what
  is printed at the end. File mode runs to its result; live mode is given by its initial state, from
  which \<^const>\<open>live_step\<close> goes on.
\<close>

datatype 'q run_mode = LiveRun "'q Live" | FileRun "(engine_fault + nat \<times> world) option"

text \<open>
  \<^const>\<open>None\<close> at the outside: a conversion of the configuration threw, which nothing catches.
\<close>

definition main_program :: "(nat \<Rightarrow> 's \<Rightarrow> read_result \<times> 's) \<Rightarrow> (Engine \<Rightarrow> SnapEnv) \<Rightarrow> 'srv http_api \<Rightarrow>
    (string \<Rightarrow> 's option) \<Rightarrow> 'q \<Rightarrow> recv_event list \<Rightarrow> (string \<Rightarrow> string option) \<Rightarrow>
    ('srv RestServer \<times> 'q run_mode) option" where
  "main_program sys_read env api open_file q0 evs getenv = do {
     cf \<leftarrow> read_config getenv;
     rest \<leftarrow> rest_start (rest_construct api (cf_rest_port cf));
     Some (rest,
       if cf_mode cf = ''live'' then LiveRun (live_init q0 evs cf)
       else FileRun (run_file sys_read env cf (open_file (cf_itch_file cf))))
   }"

text \<open>The summary on the error stream, printed only when the pipeline has completed.\<close>

definition main_summary :: "(engine_fault + nat \<times> world) option \<Rightarrow> string" where
  "main_summary res = (case res of Some (Inr (0, w)) \<Rightarrow> log_summary (fst w) | _ \<Rightarrow> [])"

text \<open>
  The two lines on the standard output before the program goes idle. The dash of the source is the
  character U+2014, three bytes in its encoding.
\<close>

definition dash :: string where
  "dash = [CHR '' '', CHR 0xE2, CHR 0x80, CHR 0x94, CHR '' '']"

definition main_report :: "u16 \<Rightarrow> (engine_fault + nat \<times> world) option \<Rightarrow> string" where
  "main_report port res =
     (case res of
        Some (Inr (0, w)) \<Rightarrow>
          ''pipeline complete'' @ dash @ to_string (unat (messages_processed (fst w))) @ '' messages processed'' @
          [CHR 0x0A] @
          ''REST server running at http://localhost:'' @ to_string (unat port) @ dash @
          ''press Ctrl+C to exit'' @ [CHR 0x0A]
      | _ \<Rightarrow> [])"

section \<open>The server of the program\<close>

lemma started_routes:
  assumes "http_documented api routes" and "rest_start (rest_construct api port) = Some r"
  shows "routes (rest_server r) = all_routes"
  using server_routes [OF assms(1), of port] assms(2) by (auto simp: rest_start_def split: if_splits)

lemma main_program_file:
  assumes "read_config getenv = Some cf" and "cf_mode cf \<noteq> ''live''"
  shows "\<exists>r. main_program sys_read env api open_file q0 evs getenv =
      Some (r, FileRun (run_file sys_read env cf (open_file (cf_itch_file cf)))) \<and>
    rest_start (rest_construct api (cf_rest_port cf)) = Some r"
  using assms by (simp add: main_program_def rest_start_def rest_construct_def)

lemma main_program_live:
  assumes "read_config getenv = Some cf" and "cf_mode cf = ''live''"
  shows "\<exists>r. main_program sys_read env api open_file q0 evs getenv = Some (r, LiveRun (live_init q0 evs cf)) \<and>
    rest_start (rest_construct api (cf_rest_port cf)) = Some r"
  using assms by (simp add: main_program_def rest_start_def rest_construct_def)

lemma log_summary_control [simp]: "log_summary (with_control c k d st) = log_summary st"
  by (simp add: log_summary_def with_control_def)

text \<open>
  With an empty environment the program reads \<^verbatim>\<open>data/sample.bin\<close> and publishes a snapshot every
  thousand messages.
\<close>

lemma default_configuration:
  "\<exists>cf. read_config (\<lambda>_. None) = Some cf \<and> cf_mode cf = ''file'' \<and> cf_itch_file cf = ''data/sample.bin'' \<and>
     cf_mcast_port cf = 26477 \<and> cf_rest_port cf = 8080 \<and> cf_snapshot_interval cf = 1000"
proof -
  have "(case read_config (\<lambda>_. None) of None \<Rightarrow> False | Some cf \<Rightarrow>
      cf_mode cf = ''file'' \<and> cf_itch_file cf = ''data/sample.bin'' \<and> cf_mcast_port cf = 26477 \<and>
      cf_rest_port cf = 8080 \<and> cf_snapshot_interval cf = 1000)" by code_simp
  then show ?thesis by (simp split: option.splits)
qed

end
