(* ===== verification/Live_Shutdown.thy ===== *)
theory Live_Shutdown
  imports Live_Serving
begin

text \<open>
  The end of live mode in \<^verbatim>\<open>src/main.cpp\<close>: the loop that drains the queue once the receive thread
  has set its flag. From any state with the flag set, not only from those the program reaches,
  every run of the engine thread is finite; its length is bounded by a measure on the queue and
  the program counter.
\<close>

section \<open>Runs after the flag is set\<close>

fun pc_rank :: "engine_pc \<Rightarrow> nat" where
  "pc_rank TryDequeue = 3"
| "pc_rank CheckFlag = 2"
| "pc_rank Drain = 1"
| "pc_rank EngineDone = 0"
| "pc_rank Crashed = 0"

definition drain_measure :: "('q \<Rightarrow> MessageBuffer list) \<Rightarrow> 'q Live \<Rightarrow> nat" where
  "drain_measure contents s = 4 * length (contents (lv_queue s)) + pc_rank (lv_engine s)"

definition received :: "'q Live \<Rightarrow> bool" where
  "received s \<longleftrightarrow> lv_recv s = RecvDone \<and> lv_recv_done s"

lemma received_step: "received s \<Longrightarrow> live_step enq deq env s s' \<Longrightarrow> received s'"
  by (erule live_step.cases) (auto simp: received_def)

lemma drain_step_decreases:
  assumes "fifo_queue enq deq contents q0" and "received s" and "live_step enq deq env s s'"
  shows "drain_measure contents s' < drain_measure contents s"
  using assms(3)
  by (cases rule: live_step.cases)
    (use assms(2) in \<open>auto simp: drain_measure_def received_def dest!: fifo_dequeue [OF assms(1)]\<close>)

lemma drain_run_bounded:
  assumes "fifo_queue enq deq contents q0" and "received s"
  shows "(live_step enq deq env ^^ n) s s' \<Longrightarrow> received s' \<and> n + drain_measure contents s' \<le> drain_measure contents s"
proof (induction n arbitrary: s')
  case 0
  then show ?case using assms(2) by simp
next
  case (Suc n)
  then obtain t where t: "(live_step enq deq env ^^ n) s t" "live_step enq deq env t s'" by (auto elim: relpowp_Suc_E)
  with Suc.IH received_step drain_step_decreases [OF assms(1)] show ?case by fastforce
qed

section \<open>What a finished run has done\<close>

text \<open>The world after all messages of \<open>s\<close>, as seen from a later state \<open>s'\<close>.\<close>

definition drained :: "('q \<Rightarrow> MessageBuffer list) \<Rightarrow> (Engine \<Rightarrow> SnapEnv) \<Rightarrow> world \<Rightarrow> 'q Live \<Rightarrow> bool" where
  "drained contents env w s \<longleftrightarrow>
     (if lv_engine s = EngineDone then lv_world s = set_pipeline_complete env w \<and> contents (lv_queue s) = []
      else running s \<and> snapshot_interval (fst (lv_world s)) \<noteq> 0 \<and>
        process_all env (contents (lv_queue s)) (lv_world s) = Inr w)"

lemma drained_dequeue:
  assumes "fifo_queue enq deq contents q0" and "drained contents env w s" and "running s"
    and "deq (lv_queue s) = Some (m, q)"
  obtains w' where "process env m (lv_world s) = Inr w'" and "snapshot_interval (fst w') \<noteq> 0"
    and "process_all env (contents q) w' = Inr w"
proof -
  have s: "snapshot_interval (fst (lv_world s)) \<noteq> 0" "process_all env (contents (lv_queue s)) (lv_world s) = Inr w"
    using assms(2,3) by (auto simp: drained_def split: if_splits)
  obtain w' where w': "process env m (lv_world s) = Inr w'" "snapshot_interval (fst w') \<noteq> 0"
    using process_ok [OF s(1)] by blast
  moreover have "process_all env (contents q) w' = Inr w"
    using s(2) w'(1) fifo_dequeue [OF assms(1,4)] by simp
  ultimately show thesis by (rule that)
qed

lemma drained_step:
  assumes "fifo_queue enq deq contents q0" and "received s" and "drained contents env w s"
    and "live_step enq deq env s s'"
  shows "drained contents env w s'"
  using assms(4)
proof (cases rule: live_step.cases)
  case (poll_process m q w1)
  then show ?thesis
    using drained_dequeue [OF assms(1,3) _ poll_process(3)] by (auto simp: drained_def)
next
  case (drain_process m q w1)
  then show ?thesis
    using drained_dequeue [OF assms(1,3) _ drain_process(3)] by (auto simp: drained_def)
next
  case (process_fault m q f)
  moreover obtain w' where "process env m (lv_world s) = Inr w'"
    using drained_dequeue [OF assms(1,3) _ process_fault(3)] process_fault(2) by blast
  ultimately show ?thesis by simp
next
  case drain_finish
  then show ?thesis using assms(3) fifo_empty [OF assms(1) drain_finish(3)] by (auto simp: drained_def)
qed (use assms(2,3) in \<open>auto simp: drained_def received_def split: if_splits\<close>)

lemma drained_reaches:
  assumes "fifo_queue enq deq contents q0" and "received s" and "drained contents env w s"
  shows "live_reaches enq deq env s s' \<Longrightarrow> received s' \<and> drained contents env w s'"
proof (induction rule: rtranclp_induct)
  case base
  then show ?case using assms(2,3) by simp
next
  case (step t s')
  then show ?case using received_step [of t] drained_step [OF assms(1), of t] by simp
qed

lemma drain_progress:
  assumes "fifo_queue enq deq contents q0" and "received s" and "drained contents env w s" and "running s"
  shows "\<exists>s'. live_step enq deq env s s'"
proof -
  consider "lv_engine s = CheckFlag" | "lv_engine s = TryDequeue" | "lv_engine s = Drain" using assms(4) by blast
  then show ?thesis
  proof cases
    case 1
    then show ?thesis using assms(2) live_step.flag_set unfolding received_def by blast
  next
    case 2
    then show ?thesis using live_step.poll_empty by blast
  next
    case 3
    show ?thesis
    proof (cases "deq (lv_queue s)")
      case None
      with 3 show ?thesis using live_step.drain_finish by blast
    next
      case (Some mq)
      obtain m q where mq: "deq (lv_queue s) = Some (m, q)" using Some by (cases mq) simp
      obtain w' where "process env m (lv_world s) = Inr w'" by (rule drained_dequeue [OF assms(1,3,4) mq])
      from live_step.drain_process [where try_dequeue = deq, OF 3 mq this] show ?thesis by blast
    qed
  qed
qed

section \<open>Property\<close>

text \<open>
  (C12) The shutdown of live mode loses nothing and ends. From every state in which the receive
  thread has finished and set its flag, with any messages left in the queue and the engine thread
  anywhere in its loops, no run makes more than four steps per queued message and three more; and
  a run that cannot go on has not crashed: it has processed exactly the queued messages, in order,
  left the queue empty and published the final snapshot of the completed pipeline.
\<close>

theorem shutdown_drains_queue:
  assumes "fifo_queue enq deq contents q0" and "lv_recv s = RecvDone" and "lv_recv_done s"
    and "lv_engine s \<in> {CheckFlag, TryDequeue, Drain}" and "snapshot_interval (fst (lv_world s)) \<noteq> 0"
  shows "(\<forall>n s'. (live_step enq deq env ^^ n) s s' \<longrightarrow> n \<le> 4 * length (contents (lv_queue s)) + 3) \<and>
    (\<forall>s'. live_reaches enq deq env s s' \<longrightarrow> (\<nexists>s''. live_step enq deq env s' s'') \<longrightarrow>
       lv_engine s' = EngineDone \<and> contents (lv_queue s') = [] \<and>
       (\<exists>w. process_all env (contents (lv_queue s)) (lv_world s) = Inr w \<and> lv_world s' = set_pipeline_complete env w))"
proof -
  have r: "received s" using assms(2,3) by (simp add: received_def)
  obtain w where w: "process_all env (contents (lv_queue s)) (lv_world s) = Inr w"
    using process_all_ok [OF assms(5)] by blast
  have d: "drained contents env w s" using assms(4,5) w by (auto simp: drained_def)
  have "drain_measure contents s \<le> 4 * length (contents (lv_queue s)) + 3"
    using assms(4) by (auto simp: drain_measure_def)
  then have bound: "n \<le> 4 * length (contents (lv_queue s)) + 3" if "(live_step enq deq env ^^ n) s s'" for n s'
    using drain_run_bounded [OF assms(1) r that] by linarith
  have "lv_engine s' = EngineDone \<and> contents (lv_queue s') = [] \<and> lv_world s' = set_pipeline_complete env w"
    if "live_reaches enq deq env s s'" "\<nexists>s''. live_step enq deq env s' s''" for s'
  proof -
    have s': "received s'" "drained contents env w s'" using drained_reaches [OF assms(1) r d that(1)] by simp_all
    have "\<not> running s'" using drain_progress [OF assms(1) s'] that(2) by blast
    then show ?thesis using s'(2) by (auto simp: drained_def split: if_splits)
  qed
  with bound w show ?thesis by blast
qed

section \<open>A run\<close>

text \<open>
  The test \<^verbatim>\<open>SingleQueuedMessageIsNotDroppedWhenRecvDone\<close>: one add is queued and the flag is set before the
  engine thread starts.
\<close>

definition drain_start :: "MessageBuffer list Live" where
  "drain_start = (live_init [] [] eager_config)
     \<lparr>lv_recv := RecvDone, lv_recv_done := True, lv_queue := [encode sample_message],
      lv_enqueued := [encode sample_message]\<rparr>"

theorem shutdown_drains_queue_witness:
  "\<exists>s' w. live_reaches list_enqueue list_dequeue one_bid_env drain_start s' \<and> lv_engine s' = EngineDone \<and>
     apply_msg one_bid_env sample_message (set_snapshot_interval 1 init_engine, None) = Inr w \<and>
     lv_world s' = set_pipeline_complete one_bid_env w \<and> messages_processed (fst (lv_world s')) = 1"
proof -
  let ?step = "live_step list_enqueue list_dequeue one_bid_env" and ?w0 = "(set_snapshot_interval 1 init_engine, None) :: world"
  have s: "lv_recv drain_start = RecvDone" "lv_recv_done drain_start" "lv_engine drain_start \<in> {CheckFlag, TryDequeue, Drain}"
    "lv_world drain_start = ?w0" "lv_queue drain_start = [encode sample_message]"
    by (simp_all add: drain_start_def live_init_def eager_config_def)
  note drain = shutdown_drains_queue [OF fifo_list s(1-3), of one_bid_env]
  have k: "snapshot_interval (fst (lv_world drain_start)) \<noteq> 0" by (simp add: s set_snapshot_interval_def)
  have "\<exists>s'. ?step\<^sup>*\<^sup>* drain_start s' \<and> (\<nexists>s''. ?step s' s'')"
  proof (rule ccontr)
    assume stuck: "\<not> ?thesis"
    have "\<exists>s'. (?step ^^ n) drain_start s'" for n
    proof (induction n)
      case (Suc n)
      then obtain t where t: "(?step ^^ n) drain_start t" by blast
      then have "?step\<^sup>*\<^sup>* drain_start t" by (simp add: relpowp_imp_rtranclp)
      with stuck obtain s' where "?step t s'" by blast
      with t have "(?step ^^ Suc n) drain_start s'" by (rule relpowp_Suc_I)
      then show ?case by blast
    qed (simp add: exI [of _ drain_start])
    then obtain s' where "(?step ^^ 8) drain_start s'" by blast
    with drain [OF k] show False by (auto simp: s dest!: spec [of _ "8 :: nat"])
  qed
  then obtain s' where s': "?step\<^sup>*\<^sup>* drain_start s'" "\<nexists>s''. ?step s' s''" by blast
  with drain [OF k] obtain w where w: "lv_engine s' = EngineDone"
    "process_all one_bid_env [encode sample_message] ?w0 = Inr w" "lv_world s' = set_pipeline_complete one_bid_env w"
    by (auto simp: s)
  have a: "apply_msg one_bid_env sample_message ?w0 = Inr w"
    using w(2) process_encode [OF sample_encodable, of one_bid_env ?w0] by (auto split: sum.splits)
  have "messages_processed (fst w) = 1" using apply_counts [OF a] by (simp add: set_snapshot_interval_def init_engine_def)
  then have "messages_processed (fst (lv_world s')) = 1" by (simp add: w(3) set_pipeline_complete_def Let_def)
  with s' w a show ?thesis by blast
qed

end
