(* ===== verification/Engine_Contract.thy ===== *)
theory Engine_Contract
  imports Pipeline_Properties
begin

text \<open>
  The interface between the engine and the programs that drive it, for invariants. A predicate on
  the engine that holds initially, is kept by the handler of every message the parser can produce
  and does not look at the counter, the interval and the completion flag holds in whatever state
  file mode ends and in every state that live mode reaches. An invariant may also rely on the
  well-formedness of the engine.
\<close>

section \<open>Invariants of the engine\<close>

locale engine_invariant =
  fixes I :: "Engine \<Rightarrow> bool"
  assumes holds_init: "I init_engine"
    and holds_handle: "I st \<Longrightarrow> encodable m \<Longrightarrow> I (handle m st)"
    and holds_control: "I (with_control c k d st) = I st"
begin

lemma holds_update [simp]:
  "I (st\<lparr>messages_processed := c\<rparr>) = I st" "I (st\<lparr>snapshot_interval := k\<rparr>) = I st"
  "I (st\<lparr>pipeline_complete := d\<rparr>) = I st"
proof -
  have "st\<lparr>messages_processed := c\<rparr> = with_control c (snapshot_interval st) (pipeline_complete st) st"
    "st\<lparr>snapshot_interval := k\<rparr> = with_control (messages_processed st) k (pipeline_complete st) st"
    "st\<lparr>pipeline_complete := d\<rparr> = with_control (messages_processed st) (snapshot_interval st) d st"
    by (simp_all add: with_control_def)
  then show "I (st\<lparr>messages_processed := c\<rparr>) = I st" "I (st\<lparr>snapshot_interval := k\<rparr>) = I st"
    "I (st\<lparr>pipeline_complete := d\<rparr>) = I st" by (simp_all only: holds_control)
qed

lemma holds_process:
  assumes "I (fst w)" and "process env b w = Inr w'"
  shows "I (fst w')"
proof (cases "\<exists>m. parse b = Inr (Some m)")
  case True
  then obtain m where m: "parse b = Inr (Some m)" by blast
  then have "encodable m" using parse_accepted [OF m] encode_accepted [of b m] by simp
  then have "I (handle m (fst w))" by (rule holds_handle [OF assms(1)])
  then show ?thesis using assms(2) m by (auto simp: process_def apply_msg_def Let_def split: sum.splits)
qed (use assms in \<open>auto simp: process_def split: sum.splits option.splits\<close>)

lemma holds_process_all: "I (fst w) \<Longrightarrow> process_all env bs w = Inr w' \<Longrightarrow> I (fst w')"
  by (induction bs arbitrary: w) (auto split: sum.splits dest: holds_process)

lemma holds_complete: "I (fst w) \<Longrightarrow> I (fst (set_pipeline_complete env w))"
  by (simp add: set_pipeline_complete_def Let_def)

lemma holds_start: "I (set_snapshot_interval k init_engine)"
  by (simp add: set_snapshot_interval_def holds_init)

lemma file_mode_holds:
  assumes "posix_read sys_read contents" and "run_file sys_read env cf fd = Some (Inr (code, w))"
  shows "I (fst w)"
proof (cases fd)
  case None
  then show ?thesis using assms(2) holds_start by (auto simp: run_file_def Let_def)
next
  case (Some s)
  let ?w0 = "(set_snapshot_interval (cf_snapshot_interval cf) init_engine, None) :: world"
  obtain w1 where w1: "process_all env (fst (frames_of (contents s))) ?w0 = Inr w1"
    "w = w1 \<or> w = set_pipeline_complete env w1"
    using assms(2) Some file_loop_frames [OF assms(1), of env s ?w0]
    by (auto simp: run_file_def Let_def split: sum.splits option.splits)
  have "I (fst w1)" using holds_process_all [OF _ w1(1)] holds_start by simp
  with w1(2) show ?thesis using holds_complete by blast
qed

lemma live_mode_holds:
  "live_reaches enq deq env (live_init q0 evs cf) s \<Longrightarrow> I (fst (lv_world s))"
proof (induction rule: rtranclp_induct)
  case base
  show ?case by (simp add: live_init_def holds_start)
next
  case (step s s')
  from step(2,3) show ?case
    by (cases rule: live_step.cases) (auto intro: holds_process holds_complete)
qed

end

section \<open>Invariants that rely on well-formedness\<close>

locale wf_invariant =
  fixes J :: "Engine \<Rightarrow> bool"
  assumes init: "J init_engine"
    and step: "engine_wf st \<Longrightarrow> J st \<Longrightarrow> encodable m \<Longrightarrow> J (handle m st)"
    and control: "J (with_control c k d st) = J st"

lemma wf_control: "engine_wf (with_control c k d st) = engine_wf st"
  by (rule engine_wf_cong) (simp_all add: with_control_def)

interpretation wf: engine_invariant engine_wf
  by unfold_locales (simp_all add: engine_wf_init wf_handle wf_control)

sublocale wf_invariant \<subseteq> both: engine_invariant "\<lambda>st. engine_wf st \<and> J st"
  by unfold_locales (simp_all add: engine_wf_init wf_handle wf_control init step control)

end
