(* ===== verification/Engine_Typing.thy ===== *)
theory Engine_Typing
  imports Engine_Contract Engine_Properties
begin

text \<open>
  The types behind the untyped bytes. Whatever buffers the pipeline is given, what they leave in
  the engine has the form the ITCH format promises: symbols of at most eight characters without
  trailing spaces (or the name made up for an unannounced instrument), 48-bit time stamps,
  participant ids of four characters.
\<close>

definition info_typed :: "u16 \<Rightarrow> InstrumentInfo \<Rightarrow> bool" where
  "info_typed l i \<longleftrightarrow> in_stock_locate i = l \<and> (alpha_ok (in_symbol i) 8 \<or> in_symbol i = ''UNKNOWN_'' @ to_string (unat l))"

definition record_typed :: "OrderRecord \<Rightarrow> bool" where
  "record_typed rec \<longleftrightarrow> length (rec_mpid rec) = 4 \<and> length (mpid_view rec) \<le> 4"

definition engine_typed :: "Engine \<Rightarrow> bool" where
  "engine_typed st \<longleftrightarrow>
     (\<forall>l i. instruments st l = Some i \<longrightarrow> info_typed l i) \<and>
     (\<forall>l b. books st l = Some b \<longrightarrow> ts_ok (ob_last_update_timestamp b)) \<and>
     (\<forall>r rec. order_index st r = Some rec \<longrightarrow> record_typed rec)"

section \<open>Preservation\<close>

definition stamped :: "Engine \<Rightarrow> bool" where
  "stamped st \<longleftrightarrow> (\<forall>l i. instruments st l = Some i \<longrightarrow> info_typed l i) \<and>
     (\<forall>l b. books st l = Some b \<longrightarrow> ts_ok (ob_last_update_timestamp b))"

lemma stamped_cong: "books st' = books st \<Longrightarrow> instruments st' = instruments st \<Longrightarrow> stamped st' = stamped st"
  by (simp add: stamped_def)

lemma stamped_book:
  assumes "stamped st" and "books st' = (books st)(l \<mapsto> b\<lparr>ob_last_update_timestamp := t\<rparr>)" and "ts_ok t"
    and "\<And>l i. instruments st' l = Some i \<Longrightarrow> info_typed l i"
  shows "stamped st'"
  using assms by (auto simp: stamped_def)

lemma typed_wf: "engine_wf st \<Longrightarrow> stamped st \<Longrightarrow> engine_typed st"
proof -
  have "mpid_len s n \<le> n" for s n by (induction n) auto
  then have "length (mpid_view rec) \<le> length (rec_mpid rec)" for rec by (simp add: mpid_view_def)
  then show "engine_wf st \<Longrightarrow> stamped st \<Longrightarrow> engine_typed st"
    unfolding engine_typed_def stamped_def record_typed_def by (metis wf_orderD)
qed

lemma placeholder_typed: "info_typed l (placeholder l)"
  by (simp add: info_typed_def placeholder_def)

lemma stamped_info: "stamped st \<Longrightarrow> instruments st l = Some i \<Longrightarrow> info_typed l i"
  by (simp add: stamped_def)

lemma stamped_add:
  assumes "stamped st" and "ts_ok t"
  shows "stamped (add_order_impl l ref c s p t a st)"
  unfolding add_order_closed
  by (rule stamped_book [OF assms(1) _ assms(2)])
    (auto simp: ensure_instrument_def placeholder_typed dest: stamped_info [OF assms(1)] split: if_splits)

lemma stamped_reduce:
  assumes "engine_wf st" and "stamped st" and "ts_ok t"
  shows "stamped (reduce_order ref q t st)"
proof (cases "order_index st ref")
  case (Some rec)
  with assms(1) obtain b where "books st (rec_stock_locate rec) = Some b" by (rule wf_orderD)
  then show ?thesis
    unfolding reduce_order_Some [OF Some _ refl]
    by (intro stamped_book [OF assms(2) _ assms(3)]) (auto simp: reduce_order_Some [OF Some _ refl] dest: stamped_info [OF assms(2)])
qed (use assms in \<open>simp add: reduce_order_None cong: stamped_cong\<close>)

lemma stamped_delete:
  assumes "engine_wf st" and "stamped st" and "ts_ok (od_timestamp m)"
  shows "stamped (handle_order_delete m st)"
proof (cases "order_index st (od_order_ref m)")
  case (Some rec)
  with assms(1) obtain b where "books st (rec_stock_locate rec) = Some b" by (rule wf_orderD)
  then show ?thesis
    by (intro stamped_book [OF assms(2) _ assms(3)]) (auto simp: delete_Some [OF Some] dest: stamped_info [OF assms(2)])
qed (use assms in \<open>simp add: delete_None cong: stamped_cong\<close>)

lemma stamped_replace:
  assumes "engine_wf st" and "stamped st" and "ts_ok (or_timestamp m)"
  shows "stamped (handle_order_replace m st)"
proof (cases "order_index st (or_original_order_ref m)")
  case (Some rec)
  with assms(1) obtain b where "books st (rec_stock_locate rec) = Some b" by (rule wf_orderD)
  then show ?thesis
    by (intro stamped_book [OF assms(2) _ assms(3)]) (auto simp: replace_Some [OF Some] dest: stamped_info [OF assms(2)])
qed (use assms in \<open>simp add: replace_None cong: stamped_cong\<close>)

lemma stamped_handle:
  assumes "engine_wf st" and "stamped st" and "encodable msg"
  shows "stamped (handle msg st)"
proof (cases msg)
  case (StockDirectory m)
  then show ?thesis
    using assms(2,3) by (auto simp: stamped_def handle_stock_directory_def Let_def info_typed_def)
next
  case (StockTradingAction m)
  then show ?thesis
    using assms(2) by (auto simp: stamped_def handle_stock_trading_action_def info_typed_def split: option.split)
qed (use assms in \<open>simp_all add: executed_reduce executed_price_reduce cancel_reduce stamped_reduce stamped_delete
       stamped_replace stamped_add handle_add_order_def handle_add_order_mpid_def\<close>)

lemma stamped_control: "stamped (with_control c k d st) = stamped st"
  by (rule stamped_cong) (simp_all add: with_control_def)

interpretation typed: wf_invariant stamped
  by unfold_locales (simp_all add: stamped_handle stamped_control, simp add: stamped_def init_engine_def)

section \<open>Property\<close>

text \<open>
  (C19) Typing of the engine state. Whatever bytes a file or packets hold, well formed or not, and in
  whatever order the threads of live mode run: at the end of file mode and at every moment of live
  mode every instrument is filed under its own locate code and its symbol has at most eight
  characters and no trailing space, or is the name given to an unannounced instrument; every book
  carries a time stamp below \<open>2 ^ 48\<close>; and every order a participant id of four characters.
\<close>

theorem both_modes_keep_engine_typed:
  assumes "posix_read sys_read contents" and "run_file sys_read env cf fd = Some (Inr (code, w))"
    and "live_reaches enq deq env' (live_init q0 evs cf') s"
  shows "engine_typed (fst w) \<and> engine_typed (fst (lv_world s))"
  using typed.both.file_mode_holds [OF assms(1,2)] typed.both.live_mode_holds [OF assms(3)] by (simp add: typed_wf)

theorem both_modes_keep_engine_typed_witness:
  "\<exists>w (s :: MessageBuffer list Live).
     run_file (chunk_read 1) one_bid_env sample_config (Some [0, 1, 90, 0, 0]) = Some (Inr (1, w)) \<and>
     engine_typed (fst w) \<and> lv_queue s = [encode sample_message] \<and> engine_typed (fst (lv_world s))"
proof -
  have "next_frame [0, 1, 90, 0, 0] = (Inr (Some [90]), [0, 0])" "next_frame [0, 0] = (Inl ZeroLengthFrame, [])"
    by code_simp+
  then have f: "frames_of [0, 1, 90, 0, 0] = ([[90]], Some ZeroLengthFrame)"
    by (simp add: frames_of.simps [of "[0, 1, 90, 0, 0]"] frames_of.simps [of "[0, 0]"])
  have "parse [90] = Inr None" by code_simp
  then obtain w where w: "run_file (chunk_read 1) one_bid_env sample_config (Some [0, 1, 90, 0, 0]) = Some (Inr (1, w))"
    using file_loop_frames [OF posix_chunk_read [of 1], of one_bid_env "[0, 1, 90, 0, 0]"] f
    by (simp add: run_file_def Let_def process_def)
  have "length (encode sample_message) \<le> 1000" unfolding length_encode by (simp add: sample_message_def)
  from live_one_packet [OF this, of one_bid_env sample_config]
  obtain s where s: "live_reaches list_enqueue list_dequeue one_bid_env
      (live_init [] (one_packet (encode sample_message)) sample_config) s" "lv_queue s = [encode sample_message]" by blast
  from both_modes_keep_engine_typed [OF posix_chunk_read [of 1] w s(1)] w s(2)
  show ?thesis by (intro exI [of _ w] exI [of _ s]) simp
qed

end
