(* ===== verification/Ladder_Prices.thy ===== *)
theory Ladder_Prices
  imports Array_Ladder
begin

text \<open>
  The array ladder compared with the map ladder without the condition on shares: an emptied slot
  may keep a residue of shares, but the prices and order counts it shows are still right. The
  proof forgets the shares: a ladder run on any operations is, up to its share totals, the ladder
  run on the same operations with zero shares, and those satisfy the contract of the class.
\<close>

section \<open>Forgetting shares\<close>

definition no_shares :: "PriceLevel \<Rightarrow> PriceLevel" where
  "no_shares lvl = lvl\<lparr>pl_total_shares := 0\<rparr>"

definition al_erase :: "ArrayLadder \<Rightarrow> ArrayLadder" where
  "al_erase l = l\<lparr>al_levels := map no_shares (al_levels l)\<rparr>"

fun op_erase :: "ladder_op \<Rightarrow> ladder_op" where
  "op_erase (AddShares p s) = AddShares p 0"
| "op_erase (RemoveShares p s full) = RemoveShares p 0 full"

definition abs_erase :: "abs_ladder \<Rightarrow> abs_ladder" where
  "abs_erase a p = map_option (\<lambda>(t, c). (0, c)) (a p)"

lemma no_shares_simps [simp]:
  "pl_price (no_shares x) = pl_price x" "pl_order_count (no_shares x) = pl_order_count x"
  "pl_total_shares (no_shares x) = 0"
  by (simp_all add: no_shares_def)

lemma no_shares_eq:
  "no_shares x = no_shares y \<longleftrightarrow> pl_price x = pl_price y \<and> pl_order_count x = pl_order_count y"
  by (cases x; cases y) (simp add: no_shares_def)

lemma al_erase_simps [simp]:
  "al_levels (al_erase l) = map no_shares (al_levels l)" "al_best_idx (al_erase l) = al_best_idx l"
  "al_nonempty_count (al_erase l) = al_nonempty_count l" "al_base_raw (al_erase l) = al_base_raw l"
  by (simp_all add: al_erase_def)

lemma ladder_eqI:
  "al_base_raw l = al_base_raw l' \<Longrightarrow> al_best_idx l = al_best_idx l' \<Longrightarrow>
   al_nonempty_count l = al_nonempty_count l' \<Longrightarrow> al_levels l = al_levels l' \<Longrightarrow> l = (l' :: ArrayLadder)"
  by simp

lemma scan_down_erase: "i \<le> length ls \<Longrightarrow> al_scan_down (map no_shares ls) i = al_scan_down ls i"
  by (induction i) auto

lemma scan_up_erase: "SLOTS \<le> length ls \<Longrightarrow> al_scan_up SLOTS (map no_shares ls) i = al_scan_up SLOTS ls i"
proof (induction SLOTS ls i rule: al_scan_up.induct)
  case (1 SLOTS ls i)
  then show ?case by (simp add: al_scan_up.simps [of _ _ i])
qed

lemma advance_erase:
  "length (al_levels l) = SLOTS \<Longrightarrow> i < SLOTS \<Longrightarrow>
     al_advance_best_from S SLOTS i (al_erase l) = al_erase (al_advance_best_from S SLOTS i l)"
  by (cases S) (simp_all add: al_advance_best_from_def scan_down_erase scan_up_erase al_erase_def split: option.split)

lemma update_best_erase:
  "al_update_best_after_add S i (al_erase l) = al_erase (al_update_best_after_add S i l)"
  by (simp add: al_update_best_after_add_def al_erase_def split: Side.split)

lemma advance_base [simp]: "al_levels (al_advance_best_from S SLOTS i l) = al_levels l"
  by (simp add: al_advance_best_from_def split: Side.split option.split)

lemma erase_idx [simp]: "al_idx_of SLOTS TICK p (al_erase l) = al_idx_of SLOTS TICK p l"
  by (simp add: al_idx_of_def)

lemma erase_update:
  "al_erase l\<lparr>al_levels := map no_shares ls\<rparr> = al_erase (l\<lparr>al_levels := ls\<rparr>)"
  "al_erase l\<lparr>al_nonempty_count := c\<rparr> = al_erase (l\<lparr>al_nonempty_count := c\<rparr>)"
  by (simp_all add: al_erase_def)

text \<open>The two operations at a slot of the array, split where they touch the shares.\<close>

definition al_touch :: "Side \<Rightarrow> nat \<Rightarrow> Price \<Rightarrow> ArrayLadder \<Rightarrow> ArrayLadder" where
  "al_touch S i p l =
     (if pl_order_count (al_levels l ! i) = 0
      then al_update_best_after_add S i (l\<lparr>al_nonempty_count := al_nonempty_count l + 1,
             al_levels := (al_levels l)[i := (al_levels l ! i)\<lparr>pl_price := p\<rparr>]\<rparr>)
      else l)"

definition grown :: "u32 \<Rightarrow> PriceLevel \<Rightarrow> PriceLevel" where
  "grown s x = x\<lparr>pl_total_shares := pl_total_shares x + ucast s, pl_order_count := pl_order_count x + 1\<rparr>"

definition shrunk :: "u32 \<Rightarrow> bool \<Rightarrow> PriceLevel \<Rightarrow> PriceLevel" where
  "shrunk s full x = x\<lparr>pl_total_shares := pl_total_shares x - ucast s,
     pl_order_count := (if full then pl_order_count x - 1 else pl_order_count x)\<rparr>"

definition al_settle :: "Side \<Rightarrow> nat \<Rightarrow> nat \<Rightarrow> PriceLevel \<Rightarrow> ArrayLadder \<Rightarrow> ArrayLadder" where
  "al_settle S SLOTS i y l =
     (let l1 = l\<lparr>al_levels := (al_levels l)[i := y]\<rparr>; l2 = l1\<lparr>al_nonempty_count := al_nonempty_count l - 1\<rparr>
      in if pl_order_count y = 0
         then if i = al_best_idx l then al_advance_best_from S SLOTS i l2 else l2
         else l1)"

lemma no_shares_grown: "no_shares (grown s x) = grown 0 (no_shares x)"
  by (simp add: no_shares_def grown_def)

lemma no_shares_shrunk: "no_shares (shrunk s full x) = shrunk 0 full (no_shares x)"
  by (simp add: no_shares_def shrunk_def)

lemma al_add_split:
  "i = al_idx_of SLOTS TICK p l \<Longrightarrow> i < SLOTS \<Longrightarrow>
     al_add_shares S SLOTS TICK p s l =
       (let l1 = al_touch S i p l in l1\<lparr>al_levels := (al_levels l1)[i := grown s (al_levels l1 ! i)]\<rparr>)"
  by (simp add: al_add_shares_def Let_def al_touch_def grown_def)

lemma al_remove_split:
  "i = al_idx_of SLOTS TICK p l \<Longrightarrow> i < SLOTS \<Longrightarrow>
     al_remove_shares S SLOTS TICK p s full l =
       (if pl_order_count (al_levels l ! i) = 0 then l
        else al_settle S SLOTS i (shrunk s full (al_levels l ! i)) l)"
  by (simp add: al_remove_shares_def Let_def al_settle_def shrunk_def)

lemma no_shares_price: "no_shares x\<lparr>pl_price := p\<rparr> = no_shares (x\<lparr>pl_price := p\<rparr>)"
  by (simp add: no_shares_def)

lemma al_touch_erase:
  "i < length (al_levels l) \<Longrightarrow> al_touch S i p (al_erase l) = al_erase (al_touch S i p l)"
  by (simp add: al_touch_def no_shares_price map_update [symmetric] erase_update update_best_erase)

lemma al_settle_erase:
  assumes "length (al_levels l) = SLOTS" and "i < SLOTS"
  shows "al_settle S SLOTS i (no_shares y) (al_erase l) = al_erase (al_settle S SLOTS i y l)"
  using assms by (simp add: al_settle_def Let_def map_update [symmetric] erase_update advance_erase)

lemma al_add_erase:
  assumes "length (al_levels l) = SLOTS"
  shows "al_erase (al_add_shares S SLOTS TICK p s l) = al_add_shares S SLOTS TICK p 0 (al_erase l)"
proof (cases "al_idx_of SLOTS TICK p l < SLOTS")
  case True
  define i where "i = al_idx_of SLOTS TICK p l"
  define l1 where "l1 = al_touch S i p l"
  have i: "i < length (al_levels l)" "i < length (al_levels l1)"
    using True assms by (simp_all add: i_def l1_def al_touch_def)
  have "al_add_shares S SLOTS TICK p 0 (al_erase l) =
      al_erase l1\<lparr>al_levels := map no_shares ((al_levels l1)[i := grown s (al_levels l1 ! i)])\<rparr>"
    using True i
    by (simp add: al_add_split [OF refl] Let_def i_def [symmetric] al_touch_erase l1_def [symmetric]
        map_update no_shares_grown)
  then show ?thesis
    using True
    by (simp add: al_add_split [OF refl] Let_def i_def [symmetric] l1_def [symmetric] erase_update)
qed (simp add: al_add_shares_def)

lemma al_remove_erase:
  assumes "length (al_levels l) = SLOTS"
  shows "al_erase (al_remove_shares S SLOTS TICK p s full l) = al_remove_shares S SLOTS TICK p 0 full (al_erase l)"
proof (cases "al_idx_of SLOTS TICK p l < SLOTS")
  case True
  then show ?thesis
    using assms
    by (simp add: al_remove_split [OF refl] al_settle_erase [symmetric] no_shares_shrunk)
qed (simp add: al_remove_shares_def)

lemma al_step_length: "length (al_levels (al_step S SLOTS TICK op l)) = length (al_levels l)"
  by (cases op) (auto simp: al_add_shares_def al_remove_shares_def Let_def)

lemma al_step_erase:
  "length (al_levels l) = SLOTS \<Longrightarrow>
     al_erase (al_step S SLOTS TICK op l) = al_step S SLOTS TICK (op_erase op) (al_erase l)"
  by (cases op) (simp_all add: al_add_erase al_remove_erase)

lemma al_run_erase:
  "length (al_levels l) = SLOTS \<Longrightarrow>
     length (al_levels (fold (al_step S SLOTS TICK) ops l)) = SLOTS \<and>
     al_erase (fold (al_step S SLOTS TICK) ops l) = fold (al_step S SLOTS TICK) (map op_erase ops) (al_erase l)"
  by (induction ops arbitrary: l) (simp_all add: al_step_length al_step_erase)


section \<open>Zero-share runs satisfy the contract\<close>

lemma abs_erase_empty [simp]: "abs_erase Map.empty = Map.empty"
  by (simp add: fun_eq_iff abs_erase_def)

lemma abs_erase_upd [simp]: "abs_erase (a(p := v)) = (abs_erase a)(p := map_option (\<lambda>(t, c). (0, c)) v)"
  by (simp add: fun_eq_iff abs_erase_def)

lemma spec_step_erase: "abs_erase (spec_step op a) = spec_step (op_erase op) (abs_erase a)"
proof (cases op)
  case (AddShares p s)
  then show ?thesis by (cases "a p") (auto simp: abs_erase_def fun_eq_iff)
next
  case (RemoveShares p s full)
  then show ?thesis by (cases "a p") (auto simp: abs_erase_def fun_eq_iff Let_def)
qed

lemma spec_run_erase: "abs_erase (spec_run ops a) = spec_run (map op_erase ops) (abs_erase a)"
  by (induction ops arbitrary: a) (simp_all add: spec_step_erase)

lemma levels_abs_erase: "levels_abs (map no_shares ls) = abs_erase (levels_abs ls)"
  by (induction ls) (simp_all add: levels_abs_def level_entry_def fun_eq_iff abs_erase_def)

text \<open>The order counts of a run are bounded by its number of operations.\<close>

definition counts_below :: "nat \<Rightarrow> abs_ladder \<Rightarrow> bool" where
  "counts_below n a \<longleftrightarrow> (\<forall>p t c. a p = Some (t, c) \<longrightarrow> 0 < unat c \<and> unat c \<le> n)"

fun op_price :: "ladder_op \<Rightarrow> Price" where
  "op_price (AddShares p s) = p"
| "op_price (RemoveShares p s full) = p"

lemma counts_step:
  assumes "counts_below n a" and "Suc n < 2 ^ 32"
  shows "counts_below (Suc n) (spec_step op a)"
proof (cases op)
  case (AddShares p s)
  have "unat (c + 1) = Suc (unat c)" if "a p = Some (t, c)" for t and c
  proof -
    have "unat c \<le> n" using assms(1) that by (simp add: counts_below_def)
    with assms(2) show ?thesis by (simp add: unat_word_ariths)
  qed
  with AddShares assms show ?thesis by (auto simp: counts_below_def le_SucI split: option.split)
next
  case (RemoveShares p s full)
  have "unat (c - 1) \<le> n" if "a p = Some (t, c)" for t and c
  proof -
    have "0 < unat c" "unat c \<le> n" using assms(1) that by (simp_all add: counts_below_def)
    then show ?thesis by (simp add: unat_sub_if' Suc_le_eq)
  qed
  with RemoveShares assms show ?thesis
    by (auto simp: counts_below_def Let_def unat_gt_0 le_Suc_eq split: option.split if_splits)
qed


text \<open>Erased operations on the grid are legal as long as no count can wrap: all totals are zero.\<close>

lemma legal_step_erased:
  assumes "on_grid SLOTS TICK base (op_price op)" and "counts_below n a" and "Suc n < 2 ^ 32"
    and "abs_erase a = a"
  shows "al_legal SLOTS TICK base (op_erase op) a"
proof -
  have z: "t = 0" if "a q = Some (t, c)" for q t c
    using fun_cong [OF assms(4), of q] that by (simp add: abs_erase_def)
  have "c + 1 \<noteq> 0" if "a q = Some (t, c)" for q t c
  proof -
    have "unat c \<le> n" using assms(2) that by (simp add: counts_below_def)
    with assms(3) have "unat (c + 1) = Suc (unat c)" by (simp add: unat_word_ariths)
    then show ?thesis by auto
  qed
  with z assms(1) show ?thesis by (cases op) (auto split: option.split)
qed

lemma abs_erase_idem: "abs_erase (abs_erase a) = abs_erase a"
  by (simp add: fun_eq_iff abs_erase_def option.map_comp o_def split_def)

lemma legal_run_erased:
  assumes "list_all (\<lambda>op. on_grid SLOTS TICK base (op_price op)) ops" and "counts_below n a"
    and "n + length ops < 2 ^ 32" and "abs_erase a = a"
  shows "legal_run (al_legal SLOTS TICK base) (map op_erase ops) a"
  using assms
proof (induction ops arbitrary: n a)
  case (Cons op ops)
  let ?a = "spec_step (op_erase op) a"
  have s: "Suc n < 2 ^ 32" using Cons.prems(3) by simp
  have "abs_erase ?a = ?a"
    using spec_step_erase [of op a] Cons.prems(4) abs_erase_idem [of "spec_step op a"] by simp
  moreover have "counts_below (Suc n) ?a" using Cons.prems(2) s by (rule counts_step)
  ultimately have "legal_run (al_legal SLOTS TICK base) (map op_erase ops) ?a"
    using Cons.prems by (intro Cons.IH [of "Suc n"]) simp_all
  moreover have "al_legal SLOTS TICK base (op_erase op) a"
    using Cons.prems(1,2,4) s by (intro legal_step_erased [of _ _ _ _ n]) simp_all
  ultimately show ?case by simp
qed simp

section \<open>Agreement on prices and counts\<close>

definition level_key :: "PriceLevel \<Rightarrow> Price \<times> u32" where
  "level_key lvl = (pl_price lvl, pl_order_count lvl)"

lemma level_key_map:
  assumes "map no_shares xs = map no_shares ys"
  shows "map level_key xs = map level_key ys"
proof -
  have "map level_key (map no_shares zs) = map level_key zs" for zs by (simp add: level_key_def)
  then show ?thesis by (metis assms)
qed

lemma filter_erase:
  assumes "\<forall>i \<in> set is. i < length ls"
  shows "filter (\<lambda>x. pl_order_count x > 0) (map (nth (map no_shares ls)) is) =
    map no_shares (filter (\<lambda>x. pl_order_count x > 0) (map (nth ls) is))"
  using assms by (induction "is") simp_all

lemma al_for_each_erase:
  assumes "length (al_levels l) = SLOTS" and "al_nonempty_count l \<noteq> 0 \<Longrightarrow> al_best_idx l < SLOTS"
  shows "al_for_each S SLOTS (al_erase l) = map no_shares (al_for_each S SLOTS l)"
proof (cases "al_nonempty_count l = 0")
  case False
  then have b: "al_best_idx l < SLOTS" by (rule assms(2))
  have "\<forall>i \<in> set (rev [0..<al_best_idx l + 1]). i < length (al_levels l)"
    "\<forall>i \<in> set [al_best_idx l..<SLOTS]. i < length (al_levels l)"
    using b assms(1) by auto
  then show ?thesis
    using False unfolding al_for_each_def al_erase_simps
    by (simp only: filter_erase if_False Side.case split: Side.split) simp
qed (simp add: al_for_each_def)

text \<open>The levels of both ladders after a run, without shares.\<close>

lemma array_run_levels:
  assumes ops: "list_all (\<lambda>op. on_grid 1024 100 base (op_price op)) ops" and n: "length ops < 2 ^ 32"
  shows "map no_shares (al_for_each S 1024 (fold (al_step S 1024 100) ops (al_make 1024 base))) =
      map no_shares (ml_for_each (fold (ml_step S) ops []))"
    and "al_size (fold (al_step S 1024 100) ops (al_make 1024 base)) = ml_size (fold (ml_step S) ops [])"
    and "al_best (fold (al_step S 1024 100) ops (al_make 1024 base)) =
      (case al_for_each S 1024 (fold (al_step S 1024 100) ops (al_make 1024 base)) of
         [] \<Rightarrow> None | x # _ \<Rightarrow> Some x)"
proof -
  let ?l = "fold (al_step S 1024 100) ops (al_make 1024 base)" and ?m = "fold (ml_step S) ops []"
  let ?e = "fold (al_step S 1024 100) (map op_erase ops) (al_make 1024 base)"
  have "al_erase (al_make 1024 base) = al_make 1024 base"
    by (simp add: al_make_def al_erase_def no_shares_def empty_level_def)
  then have e: "al_erase ?l = ?e" and len: "length (al_levels ?l) = 1024"
    using al_run_erase [of "al_make 1024 base" 1024 S 100 ops] by (simp_all add: al_make_def)
  have "legal_run (al_legal 1024 100 base) (map op_erase ops) Map.empty"
    using ops n by (intro legal_run_erased [of _ _ _ _ 0]) (simp_all add: counts_below_def)
  note a = al.run_from_start [OF this, of S] and m = ml.run_from_start [OF legal_run_True, of S]
  have inv: "al_invar S 1024 100 base (al_erase ?l)" using a(1) by (simp only: e)
  have best: "al_best_idx ?l < 1024" if "al_nonempty_count ?l \<noteq> 0"
    using best_slot(1) [OF inv] that by simp
  have fe: "al_for_each S 1024 ?e = map no_shares (al_for_each S 1024 ?l)"
    unfolding e [symmetric] by (rule al_for_each_erase [OF len best])
  show lv: "map no_shares (al_for_each S 1024 ?l) = map no_shares (ml_for_each ?m)"
  proof (rule levels_abs_unique)
    show "sorted_wrt (map_compare S) (map pl_price (map no_shares (al_for_each S 1024 ?l)))"
      using al.best_first [OF a(1)] by (simp only: fe [symmetric])
    show "sorted_wrt (map_compare S) (map pl_price (map no_shares (ml_for_each ?m)))"
      using ml.best_first [OF m(1)] by (simp add: o_def)
    have "levels_abs (al_for_each S 1024 ?e) = abs_erase (spec_run ops Map.empty)"
      using a(2) by (simp add: spec_run_erase)
    then show "levels_abs (map no_shares (al_for_each S 1024 ?l)) = levels_abs (map no_shares (ml_for_each ?m))"
      by (simp only: fe [symmetric] levels_abs_erase m(2))
  qed
  have "al_size ?l = al_size ?e" by (simp add: e [symmetric] al_size_def)
  also have "\<dots> = length (map no_shares (al_for_each S 1024 ?l))"
    using al.size_length [OF a(1)] by (simp only: fe [symmetric])
  also have "\<dots> = ml_size ?m" using ml.size_length [OF m(1)] by (simp only: lv length_map)
  finally show "al_size ?l = ml_size ?m" .
  show "al_best ?l = (case al_for_each S 1024 ?l of [] \<Rightarrow> None | x # _ \<Rightarrow> Some x)"
    using best_slot [OF inv] len by (intro best_shown_first) simp
qed

end
