(* ===== verification/Bench_Rng.thy ===== *)
theory Bench_Rng
  imports Binary64 "HOL-Library.Multiset"
begin

text \<open>
  What the workload generators of \<^verbatim>\<open>bench/\<close> share. The random number generator of the C++ library
  is a parameter: a record of the draws the code makes, each a function on the state \<open>'g\<close> of the
  generator. The properties need of it only that a uniform draw lies in its range. An order is
  dropped from a vector of live orders by moving the last one into its place.
\<close>

section \<open>Random draws\<close>

record 'g Rng =
  rg_lognormal :: "'g \<Rightarrow> rat \<times> 'g"
  rg_bits :: "'g \<Rightarrow> u32 \<times> 'g"
  rg_uniform :: "nat \<Rightarrow> nat \<Rightarrow> 'g \<Rightarrow> nat \<times> 'g"

definition uniform_in_range :: "'g Rng \<Rightarrow> bool" where
  "uniform_in_range rng \<longleftrightarrow>
     (\<forall>lo hi g. lo \<le> hi \<longrightarrow> lo \<le> fst (rg_uniform rng lo hi g) \<and> fst (rg_uniform rng lo hi g) \<le> hi)"

lemma uniform_le: "uniform_in_range rng \<Longrightarrow> rg_uniform rng 0 hi g = (k, g') \<Longrightarrow> k \<le> hi"
  unfolding uniform_in_range_def by (metis fst_conv le0)

text \<open>
  Conversion of a double to a 64-bit integer: truncation, undefined (\<^const>\<open>None\<close>) when the truncated
  value does not fit; and the sum of a 32-bit price and such an offset, undefined when it overflows.
\<close>

definition trunc :: "rat \<Rightarrow> int" where
  "trunc x = (if x \<ge> 0 then \<lfloor>x\<rfloor> else \<lceil>x\<rceil>)"

definition int64_of_double :: "rat \<Rightarrow> int option" where
  "int64_of_double x = (if - (2 ^ 63) \<le> trunc x \<and> trunc x < 2 ^ 63 then Some (trunc x) else None)"

definition add_offset :: "int \<Rightarrow> rat \<Rightarrow> int option" where
  "add_offset mid x =
     (case int64_of_double x of
        None \<Rightarrow> None
      | Some off \<Rightarrow> if mid + off < 2 ^ 63 then Some (mid + off) else None)"

text \<open>A loop whose body may be undefined.\<close>

primrec opt_iter :: "('a \<Rightarrow> 'a option) \<Rightarrow> nat \<Rightarrow> 'a \<Rightarrow> 'a option" where
  "opt_iter f 0 x = Some x"
| "opt_iter f (Suc n) x = Option.bind (opt_iter f n x) f"

lemma opt_iter_defined: "(\<And>x. f x \<noteq> None) \<Longrightarrow> opt_iter f n x \<noteq> None"
  by (induction n) (auto simp: bind_eq_None_conv)

section \<open>Dropping a live order\<close>

lemma swap_pop:
  assumes "i < length xs"
  shows "mset (butlast (xs[i := last xs])) = mset xs - {#xs ! i#}"
    and "set (butlast (xs[i := last xs])) \<subseteq> set xs"
proof -
  let ?ys = "xs[i := last xs]"
  have ne: "xs \<noteq> []" "?ys \<noteq> []" using assms by auto
  then have "mset ?ys = mset (butlast ?ys @ [last ?ys])" by (metis append_butlast_last_id)
  also have "last ?ys = last xs" using assms ne by (simp add: last_list_update)
  finally have y: "mset ?ys = add_mset (last xs) (mset (butlast ?ys))" by simp
  have "mset ?ys = add_mset (last xs) (mset xs - {#xs ! i#})" using assms by (rule mset_update)
  with y show m: "mset (butlast ?ys) = mset xs - {#xs ! i#}" by simp
  have "set_mset (mset (butlast ?ys)) \<subseteq> set_mset (mset xs)" unfolding m by (auto dest: in_diffD)
  then show "set (butlast ?ys) \<subseteq> set xs" by (simp only: set_mset_mset)
qed


section \<open>A counter as generator\<close>

definition counter_rng :: "nat Rng" where
  "counter_rng = \<lparr>rg_lognormal = (\<lambda>g. (3 / 2, g + 1)), rg_bits = (\<lambda>g. (of_nat g, g + 1)),
     rg_uniform = (\<lambda>lo hi g. (lo + (g * 40) mod (hi - lo + 1), g + 1))\<rparr>"

lemma counter_in_range: "uniform_in_range counter_rng"
proof -
  have "lo + k mod (hi - lo + 1) \<le> hi" if "lo \<le> hi" for lo hi k :: nat
  proof -
    have "k mod (hi - lo + 1) < hi - lo + 1" by simp
    with that show ?thesis by linarith
  qed
  then show ?thesis by (simp add: uniform_in_range_def counter_rng_def)
qed

text \<open>Its draws of 1.5 convert.\<close>

lemma counter_offsets: "add_offset 1000000 (fl (1 * (3 / 2) * 2500)) \<noteq> None"
  "add_offset 1000000 (fl (- 1 * (3 / 2) * 2500)) \<noteq> None"
  by code_simp+

end
