(* ===== verification/Bench_Ladders.thy ===== *)
theory Bench_Ladders
  imports Ladder_Prices Bench_Rng
begin

text \<open>
  \<^verbatim>\<open>bench/bench_ladder_shootout.cpp\<close>: the generated workload and the loops that run it on the three
  ladders. A run of a benchmark is the run of its loop body for any number of iterations.
\<close>

section \<open>The workload\<close>

definition MID :: int where "MID = 1000000"

definition SPREAD :: int where "SPREAD = 2500"

definition BASE :: int where "BASE = MID - 4 * SPREAD"

definition SLOTS :: int where "SLOTS = 1024"

datatype Op = OP_ADD | OP_REMOVE_PARTIAL | OP_REMOVE_FULL

record Step =
  st_op :: Op
  st_price_raw :: u32
  st_shares :: u32

text \<open>The cap to the band and the snap to the tick of the array ladder.\<close>

definition clamp_snap :: "int \<Rightarrow> int" where
  "clamp_snap p =
     (let p1 = (if p < BASE then BASE else p);
          p2 = (if p1 > BASE + (SLOTS - 1) * 100 then BASE + (SLOTS - 1) * 100 else p1)
      in p2 div 100 * 100)"

text \<open>\<^const>\<open>None\<close> when the draw is so large that its conversion to an integer is undefined.\<close>

definition sample_price :: "'g Rng \<Rightarrow> 'g \<Rightarrow> (u32 \<times> 'g) option" where
  "sample_price rng g =
     (let (s, g1) = rg_lognormal rng g;
          (b, g2) = rg_bits rng g1;
          signed_offset = fl ((if b AND 1 \<noteq> 0 then 1 else -1) * s * of_int SPREAD)
      in map_option (\<lambda>p. (of_int (clamp_snap p), g2)) (add_offset MID signed_offset))"

text \<open>The generator, the prices of the live orders and the steps built so far.\<close>

type_synonym 'g build_state = "'g \<times> u32 list \<times> Step list"

definition seed_step :: "'g Rng \<Rightarrow> 'g build_state \<Rightarrow> 'g build_state option" where
  "seed_step rng = (\<lambda>(g, live_prices, out).
     map_option (\<lambda>(p, g1). (g1, live_prices @ [p], out @ [\<lparr>st_op = OP_ADD, st_price_raw = p, st_shares = 100\<rparr>]))
       (sample_price rng g))"

definition replay_step :: "'g Rng \<Rightarrow> 'g build_state \<Rightarrow> 'g build_state option" where
  "replay_step rng = (\<lambda>(g, live_prices, out).
     let (r, g1) = rg_uniform rng 0 99 g
     in if r < 75 \<and> live_prices \<noteq> []
        then let (idx, g2) = rg_uniform rng 0 (length live_prices - 1) g1;
                 p = live_prices ! idx;
                 live1 = live_prices[idx := last live_prices]
             in Some (g2, butlast live1, out @ [\<lparr>st_op = OP_REMOVE_FULL, st_price_raw = p, st_shares = 100\<rparr>])
        else if r < 95 \<or> live_prices = []
        then map_option (\<lambda>(p, g2). (g2, live_prices @ [p], out @ [\<lparr>st_op = OP_ADD, st_price_raw = p, st_shares = 100\<rparr>]))
               (sample_price rng g1)
        else let (idx, g2) = rg_uniform rng 0 (length live_prices - 1) g1;
                 p = live_prices ! idx
             in Some (g2, live_prices, out @ [\<lparr>st_op = OP_REMOVE_PARTIAL, st_price_raw = p, st_shares = 1\<rparr>]))"

definition build_state :: "'g Rng \<Rightarrow> nat \<Rightarrow> nat \<Rightarrow> 'g \<Rightarrow> 'g build_state option" where
  "build_state rng n_seed n_replay g =
     Option.bind (opt_iter (seed_step rng) n_seed (g, [], [])) (opt_iter (replay_step rng) n_replay)"

definition build_workload :: "'g Rng \<Rightarrow> nat \<Rightarrow> nat \<Rightarrow> 'g \<Rightarrow> Step list option" where
  "build_workload rng n_seed n_replay g = map_option (\<lambda>(g', live_prices, out). out) (build_state rng n_seed n_replay g)"

section \<open>The benchmarks\<close>

definition step_op :: "Step \<Rightarrow> ladder_op" where
  "step_op s = (case st_op s of
      OP_ADD \<Rightarrow> AddShares (Price (st_price_raw s)) (st_shares s)
    | OP_REMOVE_PARTIAL \<Rightarrow> RemoveShares (Price (st_price_raw s)) (st_shares s) False
    | OP_REMOVE_FULL \<Rightarrow> RemoveShares (Price (st_price_raw s)) (st_shares s) True)"

definition run_workload_inner :: "(ladder_op \<Rightarrow> 'l \<Rightarrow> 'l) \<Rightarrow> Step list \<Rightarrow> 'l \<times> nat \<Rightarrow> 'l \<times> nat" where
  "run_workload_inner ladder_step ops = (\<lambda>(ladder, idx).
     (ladder_step (step_op (ops ! idx)) ladder, if idx + 1 = length ops then 0 else idx + 1))"

text \<open>
  The seeding loop and the measured loop of a bid-side benchmark, \<open>iters\<close> the number of
  iterations the harness asks for, and the full pass before a top-of-book benchmark reads the best.
  \<^const>\<open>None\<close> when building the workload is undefined.
\<close>

definition bid_bench :: "(ladder_op \<Rightarrow> 'l \<Rightarrow> 'l) \<Rightarrow> 'l \<Rightarrow> 'g Rng \<Rightarrow> 'g \<Rightarrow> nat \<Rightarrow> nat \<Rightarrow> 'l option" where
  "bid_bench ladder_step start rng g n iters =
     map_option (\<lambda>ops.
       let seeded = (run_workload_inner ladder_step ops ^^ n) (start, 0)
       in fst ((run_workload_inner ladder_step ops ^^ iters) seeded)) (build_workload rng n 100000 g)"

definition top_bench :: "(ladder_op \<Rightarrow> 'l \<Rightarrow> 'l) \<Rightarrow> 'l \<Rightarrow> 'g Rng \<Rightarrow> 'g \<Rightarrow> nat \<Rightarrow> 'l option" where
  "top_bench ladder_step start rng g n =
     map_option (\<lambda>ops. fst ((run_workload_inner ladder_step ops ^^ length ops) (start, 0)))
       (build_workload rng n 100000 g)"

definition BM_Ladder_Map_Bid :: "'g Rng \<Rightarrow> 'g \<Rightarrow> nat \<Rightarrow> nat \<Rightarrow> level_map option" where
  "BM_Ladder_Map_Bid = bid_bench (ml_step Bid) []"

definition BM_Ladder_Flat_Bid :: "'g Rng \<Rightarrow> 'g \<Rightarrow> nat \<Rightarrow> nat \<Rightarrow> PriceLevel list option" where
  "BM_Ladder_Flat_Bid = bid_bench (fl_step Bid) []"

definition BM_Ladder_Array_Bid :: "'g Rng \<Rightarrow> 'g \<Rightarrow> nat \<Rightarrow> nat \<Rightarrow> ArrayLadder option" where
  "BM_Ladder_Array_Bid = bid_bench (al_step Bid (nat SLOTS) 100) (al_make (nat SLOTS) (of_int BASE))"

definition BM_Ladder_Map_Top :: "'g Rng \<Rightarrow> 'g \<Rightarrow> nat \<Rightarrow> PriceLevel option option" where
  "BM_Ladder_Map_Top rng g n = map_option ml_best (top_bench (ml_step Bid) [] rng g n)"

definition BM_Ladder_Flat_Top :: "'g Rng \<Rightarrow> 'g \<Rightarrow> nat \<Rightarrow> PriceLevel option option" where
  "BM_Ladder_Flat_Top rng g n = map_option fl_best (top_bench (fl_step Bid) [] rng g n)"

definition BM_Ladder_Array_Top :: "'g Rng \<Rightarrow> 'g \<Rightarrow> nat \<Rightarrow> PriceLevel option option" where
  "BM_Ladder_Array_Top rng g n =
     map_option al_best (top_bench (al_step Bid (nat SLOTS) 100) (al_make (nat SLOTS) (of_int BASE)) rng g n)"


section \<open>The workload stays on the grid\<close>

lemmas band_constants = MID_def SPREAD_def BASE_def SLOTS_def

lemma clamp_snap_band: "990000 \<le> clamp_snap p" "clamp_snap p \<le> 1092300" "clamp_snap p mod 100 = 0"
  by (auto simp: clamp_snap_def band_constants Let_def)

abbreviation bench_grid :: "u32 \<Rightarrow> bool" where
  "bench_grid p \<equiv> on_grid 1024 100 990000 (Price p)"

lemma clamp_snap_grid: "bench_grid (of_int (clamp_snap p))"
proof -
  define q where "q = clamp_snap p"
  have q: "990000 \<le> q" "q \<le> 1092300" "q mod 100 = 0"
    unfolding q_def by (rule clamp_snap_band)+
  have u: "unat (word_of_int q :: u32) = nat q"
    using q(1,2) by (simp add: unsigned_of_int take_bit_eq_mod nat_mod_distrib)
  obtain j where j: "q = 100 * j" using q(3) by (auto elim: dvdE)
  then have "nat q - 990000 = 100 * (nat j - 9900)" "nat j - 9900 < 1024" using q(1,2) by auto
  then show ?thesis using q(1) u by (simp add: on_grid_def word_le_nat_alt q_def [symmetric])
qed

lemma sample_price_grid: "sample_price rng g = Some (p, g') \<Longrightarrow> bench_grid p"
  by (auto simp: sample_price_def Let_def clamp_snap_grid split: prod.splits)

section \<open>The workload follows its live orders\<close>

lemma spec_run_snoc: "spec_run (ops @ [op]) a = spec_step op (spec_run ops a)"
  by (induction ops arbitrary: a) simp_all

text \<open>The order counts of a ladder are the multiplicities of the live prices.\<close>

fun level_counts :: "(u64 \<times> u32) option \<Rightarrow> nat \<Rightarrow> bool" where
  "level_counts None n = (n = 0)"
| "level_counts (Some (t, c)) n = (unat c = n \<and> 0 < n)"

definition tracks :: "u32 list \<Rightarrow> abs_ladder \<Rightarrow> bool" where
  "tracks live_prices a \<longleftrightarrow> (\<forall>p. level_counts (a (Price p)) (count (mset live_prices) p))"

lemma tracksD: "tracks xs a \<Longrightarrow> level_counts (a (Price p)) (count (mset xs) p)"
  by (simp add: tracks_def)

lemma tracks_upd:
  assumes "tracks xs a" and "level_counts v (count (mset ys) p)"
    and "\<And>q. q \<noteq> p \<Longrightarrow> count (mset ys) q = count (mset xs) q"
  shows "tracks ys (a(Price p := v))"
  using assms by (simp add: tracks_def)

lemma count_le_length: "count (mset xs) x \<le> length xs"
  by (metis count_le_size size_mset)

lemma tracks_add:
  assumes "tracks xs a" and "Suc (length xs) < 2 ^ 32"
  shows "tracks (xs @ [p]) (spec_step (AddShares (Price p) s) a)"
proof (cases "a (Price p)")
  case None
  then have "count (mset xs) p = 0" using tracksD [OF assms(1), of p] by simp
  with None show ?thesis by (simp add: tracks_upd [OF assms(1)])
next
  case (Some tc)
  obtain t c where tc: "tc = (t, c)" by fastforce
  then have c: "unat c = count (mset xs) p" using tracksD [OF assms(1), of p] Some by simp
  then have "unat (c + 1) = Suc (unat c)"
    using count_le_length [of xs p] assms(2) by (simp add: unat_word_ariths)
  with Some tc c show ?thesis by (simp add: tracks_upd [OF assms(1)])
qed

lemma tracks_Some:
  assumes "tracks xs a" and "p \<in> set xs"
  obtains t c where "a (Price p) = Some (t, c)" and "unat c = count (mset xs) p" and "0 < count (mset xs) p"
proof -
  have "count (mset xs) p \<noteq> 0" using assms(2) by (simp add: count_eq_zero_iff)
  with tracksD [OF assms(1), of p] that show thesis by (cases "a (Price p)") auto
qed

lemma tracks_remove_full:
  assumes "tracks xs a" and "i < length xs"
  shows "tracks (butlast (xs[i := last xs])) (spec_step (RemoveShares (Price (xs ! i)) s True) a)"
proof -
  let ?p = "xs ! i" let ?ys = "butlast (xs[i := last xs])"
  obtain t c where a: "a (Price ?p) = Some (t, c)" and c: "unat c = count (mset xs) ?p" "0 < count (mset xs) ?p"
    using tracks_Some [OF assms(1)] assms(2) by (metis nth_mem)
  have m: "mset ?ys = mset xs - {#?p#}" by (rule swap_pop [OF assms(2)])
  have u: "unat (c - 1) = count (mset ?ys) ?p" using c by (simp add: unat_sub_if' Suc_le_eq m)
  then have "c - 1 = 0 \<longleftrightarrow> count (mset ?ys) ?p = 0" by (metis unat_eq_0)
  with u have "level_counts (if c - 1 = 0 then None else Some (t - ucast s, c - 1)) (count (mset ?ys) ?p)"
    by auto
  then have "tracks ?ys (a(Price ?p := if c - 1 = 0 then None else Some (t - ucast s, c - 1)))"
    by (rule tracks_upd [OF assms(1)]) (simp add: m)
  then show ?thesis using a by (simp add: Let_def split: if_splits)
qed

lemma tracks_remove_partial:
  assumes "tracks xs a" and "p \<in> set xs"
  shows "tracks xs (spec_step (RemoveShares (Price p) s False) a)"
proof -
  obtain t c where a: "a (Price p) = Some (t, c)" "unat c = count (mset xs) p" "0 < count (mset xs) p"
    by (rule tracks_Some [OF assms])
  then have "c \<noteq> 0" by auto
  with a show ?thesis by (simp add: tracks_upd [OF assms(1)])
qed


definition build_inv :: "nat \<Rightarrow> 'g build_state \<Rightarrow> bool" where
  "build_inv n = (\<lambda>(g, live_prices, out).
     length out = n \<and> length live_prices \<le> n \<and> list_all bench_grid live_prices \<and>
     list_all (\<lambda>s. bench_grid (st_price_raw s)) out \<and>
     (n < 2 ^ 32 \<longrightarrow> tracks live_prices (spec_run (map step_op out) Map.empty)))"

lemma step_op_simps [simp]:
  "step_op \<lparr>st_op = OP_ADD, st_price_raw = p, st_shares = s\<rparr> = AddShares (Price p) s"
  "step_op \<lparr>st_op = OP_REMOVE_PARTIAL, st_price_raw = p, st_shares = s\<rparr> = RemoveShares (Price p) s False"
  "step_op \<lparr>st_op = OP_REMOVE_FULL, st_price_raw = p, st_shares = s\<rparr> = RemoveShares (Price p) s True"
  by (simp_all add: step_op_def)

lemma build_inv_add:
  assumes "build_inv n (g, xs, out)" and "bench_grid p"
  shows "build_inv (Suc n) (g', xs @ [p], out @ [\<lparr>st_op = OP_ADD, st_price_raw = p, st_shares = 100\<rparr>])"
  using assms by (auto simp: build_inv_def spec_run_snoc simp del: spec_step.simps intro!: tracks_add)

lemma build_inv_remove:
  assumes "build_inv n (g, xs, out)" and "i < length xs"
  shows "build_inv (Suc n) (g', butlast (xs[i := last xs]),
    out @ [\<lparr>st_op = OP_REMOVE_FULL, st_price_raw = xs ! i, st_shares = 100\<rparr>])"
proof -
  have "\<forall>p \<in> set (butlast (xs[i := last xs])). bench_grid p"
    using assms(1) swap_pop(2) [OF assms(2)] by (auto simp: build_inv_def list_all_iff)
  moreover have "bench_grid (xs ! i)" using assms by (simp add: build_inv_def list_all_iff)
  ultimately show ?thesis
    using assms by (auto simp: build_inv_def list_all_iff spec_run_snoc tracks_remove_full simp del: spec_step.simps)
qed

lemma build_inv_partial:
  assumes "build_inv n (g, xs, out)" and "i < length xs"
  shows "build_inv (Suc n) (g', xs, out @ [\<lparr>st_op = OP_REMOVE_PARTIAL, st_price_raw = xs ! i, st_shares = 1\<rparr>])"
  using assms
  by (auto simp: build_inv_def list_all_iff spec_run_snoc tracks_remove_partial simp del: spec_step.simps)

lemma build_inv_seed:
  assumes "build_inv n st" and "seed_step rng st = Some st'"
  shows "build_inv (Suc n) st'"
proof -
  obtain g xs out where st: "st = (g, xs, out)" by (metis prod_cases3)
  obtain p g1 where p: "sample_price rng g = Some (p, g1)"
    "st' = (g1, xs @ [p], out @ [\<lparr>st_op = OP_ADD, st_price_raw = p, st_shares = 100\<rparr>])"
    using assms(2) by (auto simp: st seed_step_def)
  show ?thesis unfolding p(2) by (rule build_inv_add [OF assms(1) [unfolded st] sample_price_grid [OF p(1)]])
qed

lemma build_inv_replay:
  assumes "uniform_in_range rng" and "build_inv n st" and "replay_step rng st = Some st'"
  shows "build_inv (Suc n) st'"
proof -
  obtain g xs out where st: "st = (g, xs, out)" by (metis prod_cases3)
  obtain r g1 where r: "rg_uniform rng 0 99 g = (r, g1)" by fastforce
  obtain i g2 where i: "rg_uniform rng 0 (length xs - 1) g1 = (i, g2)" by fastforce
  have "i < length xs" if "xs \<noteq> []" using uniform_le [OF assms(1) i] that by (cases xs) auto
  then show ?thesis
    using assms(3) build_inv_add [OF assms(2) [unfolded st] sample_price_grid]
      build_inv_remove [OF assms(2) [unfolded st], of i g2] build_inv_partial [OF assms(2) [unfolded st], of i g2] i
    by (auto simp: st replay_step_def r Let_def split: if_splits)
qed

lemma build_inv_run:
  fixes f :: "'g build_state \<Rightarrow> 'g build_state option"
  assumes "\<And>n st st'. build_inv n st \<Longrightarrow> f st = Some st' \<Longrightarrow> build_inv (Suc n) st'" and "build_inv n st"
  shows "opt_iter f k st = Some st' \<Longrightarrow> build_inv (n + k) st'"
  using assms by (induction k arbitrary: st') (auto simp: bind_eq_Some_conv)

lemma build_state_inv:
  assumes "uniform_in_range rng" and "build_state rng n_seed n_replay g = Some st"
  shows "build_inv (n_seed + n_replay) st"
proof -
  obtain st1 where st1: "opt_iter (seed_step rng) n_seed (g, [], []) = Some st1"
    "opt_iter (replay_step rng) n_replay st1 = Some st"
    using assms(2) by (auto simp: build_state_def bind_eq_Some_conv)
  have "build_inv 0 (g, [], [])" by (simp add: build_inv_def tracks_def)
  from build_inv_run [OF build_inv_seed this st1(1)] have "build_inv (0 + n_seed) st1" .
  from build_inv_run [OF build_inv_replay [OF assms(1)] this st1(2)] show ?thesis by simp
qed

text \<open>When every draw converts, the workload is built.\<close>

lemma build_workload_defined:
  assumes "\<And>g. sample_price rng g \<noteq> None"
  shows "build_workload rng n_seed n_replay g \<noteq> None"
proof -
  have "seed_step rng st \<noteq> None" for st using assms by (cases st) (simp add: seed_step_def del: not_None_eq)
  moreover have "replay_step rng st \<noteq> None" for st
    using assms by (cases st) (simp add: replay_step_def Let_def del: not_None_eq split: prod.split)
  ultimately show ?thesis
    using opt_iter_defined [of "seed_step rng"] opt_iter_defined [of "replay_step rng"]
    by (auto simp: build_workload_def build_state_def bind_eq_None_conv)
qed

section \<open>The cyclic replay\<close>

definition cyclic_ops :: "Step list \<Rightarrow> nat \<Rightarrow> ladder_op list" where
  "cyclic_ops ops k = map (\<lambda>i. step_op (ops ! (i mod length ops))) [0..<k]"

lemma cyclic_run:
  assumes "ops \<noteq> []"
  shows "(run_workload_inner ladder_step ops ^^ k) (l, 0) =
    (fold ladder_step (cyclic_ops ops k) l, k mod length ops)"
  using assms by (induction k) (simp_all add: run_workload_inner_def cyclic_ops_def mod_Suc)

lemma workload_facts:
  assumes "uniform_in_range rng" and "build_workload rng n 100000 g = Some ops"
  shows "length ops = n + 100000" and "ops \<noteq> []"
    and "list_all (\<lambda>op. on_grid 1024 100 990000 (op_price op)) (cyclic_ops ops k)"
proof -
  have i: "length ops = n + 100000 \<and> list_all (\<lambda>s. bench_grid (st_price_raw s)) ops"
    using build_state_inv [OF assms(1), of n 100000 g] assms(2)
    by (auto simp: build_inv_def build_workload_def)
  then show "length ops = n + 100000" ..
  then show ne: "ops \<noteq> []" by auto
  have "op_price (step_op s) = Price (st_price_raw s)" for s
    by (simp add: step_op_def split: Op.split)
  moreover have "ops ! (j mod length ops) \<in> set ops" for j using ne by simp
  ultimately show "list_all (\<lambda>op. on_grid 1024 100 990000 (op_price op)) (cyclic_ops ops k)"
    using i by (simp add: cyclic_ops_def list_all_iff)
qed

lemma bid_bench_run:
  assumes "uniform_in_range rng" and "build_workload rng n 100000 g = Some ops"
  shows "bid_bench ladder_step start rng g n iters = Some (fold ladder_step (cyclic_ops ops (n + iters)) start)"
proof -
  let ?f = "run_workload_inner ladder_step ops"
  have "(?f ^^ iters) ((?f ^^ n) (start, 0)) = (?f ^^ (n + iters)) (start, 0)"
    by (simp add: funpow_add add.commute [of n])
  then show ?thesis
    by (simp add: bid_bench_def Let_def assms(2) cyclic_run [OF workload_facts(2) [OF assms]])
qed

lemma top_bench_run:
  assumes "uniform_in_range rng" and "build_workload rng n 100000 g = Some ops"
  shows "top_bench ladder_step start rng g n = Some (fold ladder_step (cyclic_ops ops (n + 100000)) start)"
  by (simp add: top_bench_def assms(2) cyclic_run [OF workload_facts(2) [OF assms]] workload_facts(1) [OF assms])

lemmas ladder_constants = BASE_def MID_def SPREAD_def SLOTS_def

section \<open>Properties\<close>

text \<open>
  (C33) The three ladder benchmarks are comparable. For \<open>n\<close> seeded orders and any number of
  iterations with \<open>n + iters\<close> and \<open>n + 100000\<close> below \<open>2 ^ 32\<close>, and whatever the random draws, as long as
  each converts to a 64-bit integer, so that the workload is built: the map and the vector ladder
  end with the same levels; the array ladder holds the same prices with the same order counts, in
  the same order, and so the same number of levels. The top-of-book benchmarks on map and vector
  read the same best level, that on the array one of the same price and order count. The share
  totals of the array are not compared: they may differ by what an emptied slot keeps. In particular
  the array ladder drops no order of the workload.
\<close>

theorem shootout_ladders_agree:
  assumes "uniform_in_range rng" and "n + iters < 2 ^ 32" and "n + 100000 < 2 ^ 32"
    and "build_workload rng n 100000 g = Some ops"
  shows "\<exists>m f a m_top f_top a_top.
    BM_Ladder_Map_Bid rng g n iters = Some m \<and> BM_Ladder_Flat_Bid rng g n iters = Some f \<and>
    BM_Ladder_Array_Bid rng g n iters = Some a \<and> BM_Ladder_Map_Top rng g n = Some m_top \<and>
    BM_Ladder_Flat_Top rng g n = Some f_top \<and> BM_Ladder_Array_Top rng g n = Some a_top \<and>
    map level_key (al_for_each Bid 1024 a) = map level_key (ml_for_each m) \<and> fl_for_each f = ml_for_each m \<and>
    al_size a = ml_size m \<and> fl_size f = ml_size m \<and>
    map_option level_key a_top = map_option level_key m_top \<and> f_top = m_top"
proof -
  let ?b = "cyclic_ops ops (n + iters)" and ?t = "cyclic_ops ops (n + 100000)"
  have len: "length ?b < 2 ^ 32" "length ?t < 2 ^ 32" using assms(2,3) by (simp_all add: cyclic_ops_def)
  note grid = workload_facts(3) [OF assms(1,4)]
  note b = array_run_levels [OF grid len(1), of Bid] and t = array_run_levels [OF grid len(2), of Bid]
  note run = bid_bench_run [OF assms(1,4)] top_bench_run [OF assms(1,4)]
  let ?al = "fold (al_step Bid 1024 100) ?t (al_make 1024 990000)" and ?ml = "fold (ml_step Bid) ?t []"
  have m: "ml_best ?ml = (case ml_for_each ?ml of [] \<Rightarrow> None | x # _ \<Rightarrow> Some x)"
    using ml.best_head ml.run_from_start(1) [OF legal_run_True] by blast
  have "map_option level_key (al_best ?al) = map_option level_key (ml_best ?ml)"
    using level_key_map [OF t(1)] unfolding t(3) m by (auto split: list.split)
  then show ?thesis
    using level_key_map [OF b(1)] b(2) flat_ladder_same [of Bid ?b] flat_ladder_same [of Bid ?t]
    by (simp add: BM_Ladder_Map_Bid_def BM_Ladder_Flat_Bid_def BM_Ladder_Array_Bid_def BM_Ladder_Map_Top_def
        BM_Ladder_Flat_Top_def BM_Ladder_Array_Top_def run ladder_constants)
qed

text \<open>
  The generated workload is consistent: after it has run, the order count of a price level is
  the number of orders the generator considers live at that price, and a price without live
  orders has no level. As this holds for every number of steps, a removal always hits a level
  that holds an order.
\<close>

lemma workload_tracks_live:
  assumes "uniform_in_range rng" and "n_seed + n_replay < 2 ^ 32"
    and "build_state rng n_seed n_replay g = Some (g', live_prices, ops)"
  shows "case levels_abs (ml_for_each (fold (ml_step S) (map step_op ops) [])) (Price p) of
      None \<Rightarrow> p \<notin> set live_prices
    | Some (t, c) \<Rightarrow> p \<in> set live_prices \<and> unat c = count_list live_prices p"
proof -
  have "tracks live_prices (spec_run (map step_op ops) Map.empty)"
    using build_state_inv [OF assms(1,3)] assms(2) by (simp add: build_inv_def)
  then have "tracks live_prices (levels_abs (ml_for_each (fold (ml_step S) (map step_op ops) [])))"
    by (simp only: ml.run_from_start(2) [OF legal_run_True])
  from tracksD [OF this, of p] show ?thesis
    by (auto simp: count_mset count_list_0_iff split: option.split)
       (metis count_list_0_iff less_numeral_extra(3))
qed

section \<open>A run with a counter as generator\<close>

lemma counter_workload: "build_workload counter_rng n_seed n_replay g \<noteq> None"
proof (rule build_workload_defined)
  show "sample_price counter_rng g \<noteq> None" for g
    using counter_offsets by (simp add: sample_price_def counter_rng_def band_constants)
qed

theorem shootout_ladders_agree_witness:
  "\<exists>f a. BM_Ladder_Flat_Bid counter_rng 0 10000 1000000 = Some f \<and>
     BM_Ladder_Array_Bid counter_rng 0 10000 1000000 = Some a \<and> fl_size f = al_size a"
proof -
  obtain ops where "build_workload counter_rng 10000 100000 0 = Some ops" using counter_workload by blast
  from shootout_ladders_agree [OF counter_in_range _ _ this, of 1000000] show ?thesis by auto
qed

lemma counter_live: "map_option (\<lambda>(g, live_prices, out). live_prices) (build_state counter_rng 2 3 0) = Some [996200]"
  by code_simp

lemma workload_tracks_live_witness:
  "\<exists>ops. build_workload counter_rng 2 3 0 = Some ops \<and>
     (case levels_abs (ml_for_each (fold (ml_step Bid) (map step_op ops) [])) (Price 996200) of
        None \<Rightarrow> False
      | Some (t, c) \<Rightarrow> unat c = 1)"
proof -
  obtain g' ops where b: "build_state counter_rng 2 3 0 = Some (g', [996200], ops)" using counter_live by auto
  from workload_tracks_live [OF counter_in_range _ b, where S = Bid and p = 996200] show ?thesis
    by (intro exI [of _ ops]) (auto simp: build_workload_def b split: option.splits)
qed

end
