(* ===== verification/Bench_Engine.thy ===== *)
theory Bench_Engine
  imports Snapshot_Properties Engine_Properties Engine_Counters
begin

text \<open>
  \<^verbatim>\<open>bench/bench_book_engine.cpp\<close>: the delete, replace and execute benchmarks. A benchmark is its
  set-up and its loop body run for any number of iterations. The theorems say which of the
  measured messages reach a live order: all deletes, but only the first \<open>n\<close> replaces and the
  first \<open>100 * n\<close> executions; later iterations measure the path of an unknown reference.
\<close>

section \<open>What the benchmarks observe\<close>

text \<open>
  What the benchmarks observe of an engine: it is well formed, snapshots are off, and these are
  its live orders and its count of skipped messages.
\<close>

definition shows_state :: "(u64 \<rightharpoonup> OrderRecord) \<Rightarrow> nat \<Rightarrow> Engine \<Rightarrow> bool" where
  "shows_state oi k st \<longleftrightarrow> engine_wf st \<and> snapshot_interval st \<noteq> 0 \<and> order_index st = oi \<and>
     skipped_unknown_ref st = of_nat k"

lemma apply_shows:
  assumes "shows_state oi k (fst w)"
  shows "\<exists>w'. apply_msg env msg w = Inr w' \<and>
    shows_state (orders_step msg oi) (k + (if missed msg oi then 1 else 0)) (fst w')"
proof -
  have st: "engine_wf (fst w)" "snapshot_interval (fst w) \<noteq> 0" "order_index (fst w) = oi"
    "skipped_unknown_ref (fst w) = of_nat k"
    using assms by (simp_all add: shows_state_def)
  let ?st = "(handle msg (fst w))\<lparr>messages_processed := messages_processed (handle msg (fst w)) + 1\<rparr>"
  have "engine_wf ?st" using wf_handle [OF st(1), of msg] by (simp cong: engine_wf_cong)
  then have "shows_state (orders_step msg oi) (k + (if missed msg oi then 1 else 0)) ?st"
    using st order_index_handle [OF st(1), of msg] skipped_handle [OF st(1), of msg]
    by (simp add: shows_state_def handle_keeps_control)
  then show ?thesis
    using st(2) by (simp add: apply_msg_def Let_def maybe_publish_snapshot_def umod_def handle_keeps_control)
qed

section \<open>The benchmark program\<close>

definition be_make_add :: "u64 \<Rightarrow> char \<Rightarrow> u32 \<Rightarrow> u32 \<Rightarrow> AddOrderMsg" where
  "be_make_add ref side shares price_raw =
     \<lparr>ao_stock_locate = 1, ao_tracking_number = 0, ao_timestamp = 34200000000000, ao_order_ref = ref,
      ao_side = side, ao_shares = shares, ao_stock = [], ao_price = Price price_raw\<rparr>"

definition be_make_delete :: "u64 \<Rightarrow> OrderDeleteMsg" where
  "be_make_delete ref =
     \<lparr>od_stock_locate = 1, od_tracking_number = 0, od_timestamp = 34200000000001, od_order_ref = ref\<rparr>"

definition make_replace :: "u64 \<Rightarrow> u64 \<Rightarrow> u32 \<Rightarrow> u32 \<Rightarrow> OrderReplaceMsg" where
  "make_replace orig next shares price =
     \<lparr>or_stock_locate = 1, or_tracking_number = 0, or_timestamp = 34200000000002,
      or_original_order_ref = orig, or_new_order_ref = next, or_shares = shares, or_price = Price price\<rparr>"

definition be_make_execute :: "u64 \<Rightarrow> u32 \<Rightarrow> OrderExecutedMsg" where
  "be_make_execute ref shares =
     \<lparr>oe_stock_locate = 1, oe_tracking_number = 0, oe_timestamp = 34200000000003, oe_order_ref = ref,
      oe_executed_shares = shares, oe_match_number = 0\<rparr>"

definition aapl :: InstrumentInfo where
  "aapl = empty_instrument\<lparr>in_stock_locate := 1, in_symbol := ''AAPL'', in_trading_state := CHR ''T'',
     in_round_lot_size := 100\<rparr>"

definition seed_order :: "nat \<Rightarrow> AddOrderMsg" where
  "seed_order i = be_make_add (of_nat (i + 1)) (if i mod 2 = 0 then CHR ''B'' else CHR ''S'') 100
     (1000000 + of_nat (i mod 100))"

definition seed_engine :: "(Engine \<Rightarrow> SnapEnv) \<Rightarrow> nat \<Rightarrow> Engine \<times> publisher \<Rightarrow> engine_fault + Engine \<times> publisher" where
  "seed_engine env n_orders w =
     (let st = set_snapshot_interval (- 1) (register_instrument aapl (fst w))
      in apply_all env (map (\<lambda>i. AddOrder (seed_order i)) [0..<n_orders]) (st, snd w))"

text \<open>A loop of the harness: the body until it has run \<open>k\<close> times or faults.\<close>

primrec iterate :: "('s \<Rightarrow> 'e + 's) \<Rightarrow> nat \<Rightarrow> 's \<Rightarrow> 'e + 's" where
  "iterate body 0 s = Inr s"
| "iterate body (Suc k) s = (case iterate body k s of Inl e \<Rightarrow> Inl e | Inr s' \<Rightarrow> body s')"

definition delete_body :: "(Engine \<Rightarrow> SnapEnv) \<Rightarrow> nat \<Rightarrow> (Engine \<times> publisher) \<times> nat \<Rightarrow>
    engine_fault + (Engine \<times> publisher) \<times> nat" where
  "delete_body env n = (\<lambda>(w, idx).
     (case (if idx \<ge> n then seed_engine env n (init_engine, snd w) else Inr w) of
        Inl e \<Rightarrow> Inl e
      | Inr w1 \<Rightarrow>
          let idx1 = (if idx \<ge> n then 0 else idx)
          in (case apply_msg env (OrderDelete (be_make_delete (of_nat (idx1 + 1)))) w1 of
                Inl e \<Rightarrow> Inl e
              | Inr w2 \<Rightarrow> Inr (w2, idx1 + 1))))"

definition BM_DeleteOrder :: "(Engine \<Rightarrow> SnapEnv) \<Rightarrow> nat \<Rightarrow> nat \<Rightarrow> engine_fault + (Engine \<times> publisher) \<times> nat" where
  "BM_DeleteOrder env n iters =
     (case seed_engine env n (init_engine, None) of
        Inl e \<Rightarrow> Inl e
      | Inr w \<Rightarrow> iterate (delete_body env n) iters (w, 0))"

definition replace_body :: "(Engine \<Rightarrow> SnapEnv) \<Rightarrow> nat \<Rightarrow> (Engine \<times> publisher) \<times> u64 \<times> nat \<Rightarrow>
    engine_fault + (Engine \<times> publisher) \<times> u64 \<times> nat" where
  "replace_body env n = (\<lambda>(w, next_ref, idx).
     let orig = of_nat (idx mod n + 1)
     in (case apply_msg env (OrderReplace (make_replace orig next_ref 200 1000050)) w of
           Inl e \<Rightarrow> Inl e
         | Inr w' \<Rightarrow> Inr (w', next_ref + 1, idx + 1)))"

definition BM_ReplaceOrder :: "(Engine \<Rightarrow> SnapEnv) \<Rightarrow> nat \<Rightarrow> nat \<Rightarrow>
    engine_fault + (Engine \<times> publisher) \<times> u64 \<times> nat" where
  "BM_ReplaceOrder env n iters =
     (case seed_engine env n (init_engine, None) of
        Inl e \<Rightarrow> Inl e
      | Inr w \<Rightarrow> iterate (replace_body env n) iters (w, of_nat n + 1, 0))"

definition execute_body :: "(Engine \<Rightarrow> SnapEnv) \<Rightarrow> nat \<Rightarrow> (Engine \<times> publisher) \<times> nat \<Rightarrow>
    engine_fault + (Engine \<times> publisher) \<times> nat" where
  "execute_body env n = (\<lambda>(w, idx).
     let ref = of_nat (idx mod n + 1)
     in (case apply_msg env (OrderExecuted (be_make_execute ref 1)) w of
           Inl e \<Rightarrow> Inl e
         | Inr w' \<Rightarrow> Inr (w', idx + 1)))"

definition BM_ExecuteOrder :: "(Engine \<Rightarrow> SnapEnv) \<Rightarrow> nat \<Rightarrow> nat \<Rightarrow> engine_fault + (Engine \<times> publisher) \<times> nat" where
  "BM_ExecuteOrder env n iters =
     (case seed_engine env n (init_engine, None) of
        Inl e \<Rightarrow> Inl e
      | Inr w \<Rightarrow> iterate (execute_body env n) iters (w, 0))"


section \<open>Live orders through the loops\<close>

lemma iterate_below:
  assumes "P 0 s" and "\<And>j s. j < k \<Longrightarrow> P j s \<Longrightarrow> \<exists>s'. body s = Inr s' \<and> P (Suc j) s'"
  shows "\<exists>s'. iterate body k s = Inr s' \<and> P k s'"
  using assms(2)
proof (induction k)
  case (Suc k)
  then obtain s' where "iterate body k s = Inr s'" "P k s'" by (metis less_Suc_eq)
  with Suc.prems [of k s'] show ?case by simp
qed (use assms(1) in simp)

lemma iterate_inv:
  assumes "P 0 s" and "\<And>j s. P j s \<Longrightarrow> \<exists>s'. body s = Inr s' \<and> P (Suc j) s'"
  shows "\<exists>s'. iterate body k s = Inr s' \<and> P k s'"
  by (rule iterate_below [of P, OF assms(1)]) (rule assms(2))

definition seed_record :: "nat \<Rightarrow> OrderRecord" where
  "seed_record i = new_record 1 (if i mod 2 = 0 then CHR ''B'' else CHR ''S'') 100
     (Price (1000000 + of_nat (i mod 100))) []"

text \<open>The orders with references between \<open>lo + 1\<close> and \<open>hi\<close>, as seeded but for their shares.\<close>

definition ref_range :: "nat \<Rightarrow> nat \<Rightarrow> u64 set" where
  "ref_range lo hi = {r. lo < unat r \<and> unat r \<le> hi}"

definition seed_index :: "nat \<Rightarrow> u64 \<rightharpoonup> OrderRecord" where
  "seed_index n = (\<lambda>r. Some (seed_record (unat r - 1))) |` ref_range 0 n"

lemma eq_of_nat_u64: "k < 2 ^ 64 \<Longrightarrow> r = (of_nat k :: u64) \<longleftrightarrow> unat r = k"
  by (simp only: word_unat_eq_iff unat_of_nat_u64)

lemma range_remove_high:
  assumes "Suc n < 2 ^ 64"
  shows "ref_range lo (Suc n) - {of_nat (Suc n)} = ref_range lo n"
proof (rule set_eqI)
  fix r :: u64
  show "r \<in> ref_range lo (Suc n) - {of_nat (Suc n)} \<longleftrightarrow> r \<in> ref_range lo n"
    unfolding ref_range_def Diff_iff mem_Collect_eq singleton_iff eq_of_nat_u64 [OF assms] by linarith
qed

lemma range_remove_low:
  assumes "Suc k < 2 ^ 64"
  shows "ref_range k n - {of_nat (Suc k)} = ref_range (Suc k) n"
proof (rule set_eqI)
  fix r :: u64
  show "r \<in> ref_range k n - {of_nat (Suc k)} \<longleftrightarrow> r \<in> ref_range (Suc k) n"
    unfolding ref_range_def Diff_iff mem_Collect_eq singleton_iff eq_of_nat_u64 [OF assms] by linarith
qed

lemma of_nat_in_range: "k < 2 ^ 64 \<Longrightarrow> (of_nat k :: u64) \<in> ref_range lo hi \<longleftrightarrow> lo < k \<and> k \<le> hi"
  by (simp add: ref_range_def unat_of_nat_u64)

lemma seed_index_Suc:
  assumes "Suc n < 2 ^ 64"
  shows "orders_step (AddOrder (seed_order n)) (seed_index n) = seed_index (Suc n)"
proof
  fix r :: u64
  have u: "unat (of_nat (Suc n) :: u64) = Suc n" using assms by (rule unat_of_nat_u64)
  have "r \<in> ref_range 0 n \<longleftrightarrow> r \<in> ref_range 0 (Suc n) \<and> r \<noteq> of_nat (Suc n)"
    using range_remove_high [OF assms, of 0] by blast
  moreover have "(of_nat (Suc n) :: u64) \<in> ref_range 0 (Suc n)" using assms by (simp only: of_nat_in_range) simp
  ultimately show "orders_step (AddOrder (seed_order n)) (seed_index n) r = seed_index (Suc n) r"
    using u by (cases "r = of_nat (Suc n)")
      (simp_all add: seed_index_def restrict_map_def seed_order_def be_make_add_def seed_record_def)
qed

lemma seed_shows:
  assumes "n < 2 ^ 64"
  shows "\<exists>w'. seed_engine env n (init_engine, pub) = Inr w' \<and> shows_state (seed_index n) 0 (fst w')"
  using assms
proof (induction n)
  case 0
  let ?st = "set_snapshot_interval (- 1) (register_instrument aapl init_engine)"
  have "engine_wf ?st"
    by (simp add: engine_wf_def set_snapshot_interval_def register_instrument_def init_engine_def aapl_def)
  then have "shows_state (seed_index 0) 0 ?st"
    by (auto simp: shows_state_def seed_index_def ref_range_def restrict_map_def set_snapshot_interval_def
        register_instrument_def init_engine_def)
  then show ?case by (simp add: seed_engine_def)
next
  case (Suc n)
  then obtain w' where w: "seed_engine env n (init_engine, pub) = Inr w'" "shows_state (seed_index n) 0 (fst w')"
    by auto
  obtain w2 where "apply_msg env (AddOrder (seed_order n)) w' = Inr w2"
    "shows_state (orders_step (AddOrder (seed_order n)) (seed_index n)) 0 (fst w2)"
    using apply_shows [OF w(2), of env "AddOrder (seed_order n)"] by (auto simp: missed_def)
  with w(1) seed_index_Suc [OF Suc.prems] show ?case by (simp add: seed_engine_def apply_all_snoc)
qed


lemma seed_dom: "dom (seed_index n) = ref_range 0 n"
  by (simp add: seed_index_def)

text \<open>Deletes: \<open>idx\<close> orders are gone since the last seeding and no message was skipped.\<close>

definition delete_inv :: "nat \<Rightarrow> nat \<Rightarrow> (Engine \<times> publisher) \<times> nat \<Rightarrow> bool" where
  "delete_inv n j = (\<lambda>(w, idx). idx \<le> n \<and> (\<exists>oi. dom oi = ref_range idx n \<and> shows_state oi 0 (fst w)))"

lemma delete_step:
  assumes "delete_inv n j s" and "0 < n" and "n < 2 ^ 64 - 1"
  shows "\<exists>s'. delete_body env n s = Inr s' \<and> delete_inv n (Suc j) s'"
proof -
  obtain w idx oi where s: "s = (w, idx)" "idx \<le> n" "dom oi = ref_range idx n" "shows_state oi 0 (fst w)"
    using assms(1) by (cases s) (auto simp: delete_inv_def)
  define i where "i = (if idx \<ge> n then 0 else idx)"
  obtain w1 oi1 where w1: "(if idx \<ge> n then seed_engine env n (init_engine, snd w) else Inr w) = Inr w1"
    "dom oi1 = ref_range i n" "shows_state oi1 0 (fst w1)"
    using s seed_shows [of n env "snd w"] assms(3) seed_dom [of n] by (cases "idx \<ge> n") (auto simp: i_def)
  have i: "i < n" "Suc i < 2 ^ 64" using assms(2,3) s(2) by (auto simp: i_def)
  let ?m = "OrderDelete (be_make_delete (of_nat (i + 1)))"
  have "(of_nat (Suc i) :: u64) \<in> dom oi1" using i by (simp only: w1(2) of_nat_in_range) simp
  then have live: "oi1 (of_nat (Suc i)) \<noteq> None" by (simp add: domIff)
  obtain w2 where w2: "apply_msg env ?m w1 = Inr w2" "shows_state (orders_step ?m oi1) 0 (fst w2)"
    using apply_shows [OF w1(3), of env ?m] live by (auto simp: missed_def be_make_delete_def)
  have "dom (orders_step ?m oi1) = ref_range (Suc i) n"
    using range_remove_low [OF i(2), of n] w1(2) by (simp add: be_make_delete_def)
  with w2(2) have "delete_inv n (Suc j) (w2, Suc i)"
    using i(1) unfolding delete_inv_def prod.case by (meson Suc_leI)
  then show ?thesis
    using w1(1) w2(1) by (simp add: s(1) delete_body_def i_def [symmetric] Let_def)
qed

lemma delete_bench:
  assumes "0 < n" and "n < 2 ^ 64 - 1"
  shows "\<exists>w idx. BM_DeleteOrder env n iters = Inr (w, idx) \<and> skipped_unknown_ref (fst w) = 0"
proof -
  obtain w where w: "seed_engine env n (init_engine, None) = Inr w" "shows_state (seed_index n) 0 (fst w)"
    using seed_shows [of n env None] assms(2) by auto
  then have "delete_inv n 0 (w, 0)" using seed_dom [of n] by (auto simp: delete_inv_def)
  from iterate_inv [of "delete_inv n", OF this, where body = "delete_body env n" and k = iters]
  obtain s where "iterate (delete_body env n) iters (w, 0) = Inr s" "delete_inv n iters s"
    using delete_step [OF _ assms] by blast
  then show ?thesis
    by (cases s) (auto simp: BM_DeleteOrder_def w delete_inv_def shows_state_def)
qed


text \<open>
  Replaces: the originals are used up one by one, each replaced by the next fresh reference; when
  none is left, every message is skipped.
\<close>

lemma range_insert_high:
  assumes "Suc n < 2 ^ 64" and "lo \<le> n"
  shows "insert (of_nat (Suc n)) (ref_range lo n) = ref_range lo (Suc n)"
proof (rule set_eqI)
  fix r :: u64
  show "r \<in> insert (of_nat (Suc n)) (ref_range lo n) \<longleftrightarrow> r \<in> ref_range lo (Suc n)"
    unfolding ref_range_def insert_iff mem_Collect_eq eq_of_nat_u64 [OF assms(1)] using assms(2) by linarith
qed

lemma dom_replace:
  "or_original_order_ref m \<in> dom oi \<Longrightarrow>
     dom (orders_step (OrderReplace m) oi) = insert (or_new_order_ref m) (dom oi - {or_original_order_ref m})"
  by (clarsimp simp del: fun_upd_apply)

definition replace_inv :: "nat \<Rightarrow> nat \<Rightarrow> (Engine \<times> publisher) \<times> u64 \<times> nat \<Rightarrow> bool" where
  "replace_inv n j = (\<lambda>(w, next_ref, idx). next_ref = of_nat (Suc (n + j)) \<and> idx = j \<and>
     (\<exists>oi. dom oi = ref_range (min j n) (n + min j n) \<and> shows_state oi (j - n) (fst w)))"

lemma replace_step:
  assumes "replace_inv n j s" and "0 < n" and "2 * n < 2 ^ 64"
  shows "\<exists>s'. replace_body env n s = Inr s' \<and> replace_inv n (Suc j) s'"
proof -
  obtain w oi where s: "s = (w, of_nat (Suc (n + j)), j)"
    and oi: "dom oi = ref_range (min j n) (n + min j n)" "shows_state oi (j - n) (fst w)"
    using assms(1) by (cases s) (auto simp: replace_inv_def)
  let ?orig = "of_nat (Suc (j mod n)) :: u64" and ?new = "of_nat (Suc (n + j)) :: u64"
  let ?m = "OrderReplace (make_replace ?orig ?new 200 1000050)"
  have lt: "j mod n < n" using assms(2) by simp
  then have bound: "Suc (j mod n) < 2 ^ 64" using assms(3) by simp
  obtain w' where w': "apply_msg env ?m w = Inr w'"
    "shows_state (orders_step ?m oi) (j - n + (if missed ?m oi then 1 else 0)) (fst w')"
    using apply_shows [OF oi(2), of env ?m] by blast
  have m: "missed ?m oi \<longleftrightarrow> ?orig \<notin> dom oi"
    by (simp add: missed_def make_replace_def domIff)
  have "dom (orders_step ?m oi) = ref_range (min (Suc j) n) (n + min (Suc j) n) \<and>
      j - n + (if missed ?m oi then 1 else 0) = Suc j - n"
  proof (cases "j < n")
    case True
    then have "?orig \<in> dom oi" unfolding oi(1) of_nat_in_range [OF bound] using lt by simp
    moreover have "dom (orders_step ?m oi) = insert ?new (dom oi - {?orig})" if "?orig \<in> dom oi"
      using dom_replace [of "make_replace ?orig ?new 200 1000050" oi] that
      by (simp only: make_replace_def OrderReplaceMsg.select_convs)
    moreover have "insert ?new (dom oi - {?orig}) = ref_range (Suc j) (Suc (n + j))"
      using True assms(2,3) range_remove_low [of j "n + j"] range_insert_high [of "n + j" "Suc j"]
      by (simp add: oi(1) del: of_nat_Suc)
    ultimately show ?thesis using True m by simp
  next
    case False
    then have "?orig \<notin> dom oi" unfolding oi(1) of_nat_in_range [OF bound] using lt by simp
    moreover have "orders_step ?m oi = oi" if "?orig \<notin> dom oi"
      using that by (simp add: make_replace_def domIff)
    ultimately show ?thesis using False m oi(1) by simp
  qed
  with w'(2) have "replace_inv n (Suc j) (w', of_nat (Suc (n + Suc j)), Suc j)"
    unfolding replace_inv_def by (auto simp del: of_nat_Suc)
  then show ?thesis using w'(1) by (simp add: s replace_body_def Let_def)
qed

lemma replace_bench:
  assumes "0 < n" and "2 * n < 2 ^ 64"
  shows "\<exists>w s. BM_ReplaceOrder env n iters = Inr (w, s) \<and> skipped_unknown_ref (fst w) = of_nat (iters - n) \<and>
    dom (order_index (fst w)) = ref_range (min iters n) (n + min iters n)"
proof -
  obtain w where w: "seed_engine env n (init_engine, None) = Inr w" "shows_state (seed_index n) 0 (fst w)"
    using seed_shows [of n env None] assms(2) by auto
  then have "replace_inv n 0 (w, of_nat n + 1, 0)" using seed_dom [of n] by (auto simp: replace_inv_def)
  from iterate_inv [of "replace_inv n", OF this, where body = "replace_body env n" and k = iters]
  obtain s where "iterate (replace_body env n) iters (w, of_nat n + 1, 0) = Inr s" "replace_inv n iters s"
    using replace_step [OF _ assms] by blast
  then show ?thesis
    by (cases s) (auto simp: BM_ReplaceOrder_def w replace_inv_def shows_state_def)
qed


text \<open>
  Executions: after \<open>j\<close> iterations the order \<open>r\<close> was executed \<open>execs n j r\<close> times; it holds one share
  less for each and is gone after 100.
\<close>

definition execs :: "nat \<Rightarrow> nat \<Rightarrow> nat \<Rightarrow> nat" where
  "execs n j r = (j + n - r) div n"

lemma execs_target:
  assumes "0 < n"
  shows "execs n j (Suc (j mod n)) = j div n"
proof -
  have "j + n - Suc (j mod n) = j div n * n + (n - 1)"
    using assms div_mult_mod_eq [of j n] mod_less_divisor [OF assms, of j] by linarith
  then have "execs n j (Suc (j mod n)) = (j div n * n + (n - 1)) div n" by (simp only: execs_def)
  also have "\<dots> = j div n" using assms by (subst div_mult_self3) simp_all
  finally show ?thesis .
qed

lemma mod_less_imp: "n \<le> a \<Longrightarrow> a - n < n \<Longrightarrow> a mod n = a - (n :: nat)"
  by (simp add: le_mod_geq)

lemma execs_Suc:
  assumes "0 < r" and "r \<le> n"
  shows "execs n (Suc j) r = execs n j r + (if r = Suc (j mod n) then 1 else 0)"
proof -
  let ?m = "j + n - r"
  have n: "0 < n" using assms by linarith
  have e: "Suc j + n - r = Suc ?m" using assms by linarith
  have "Suc ?m mod n = 0 \<longleftrightarrow> r = Suc (j mod n)"
  proof -
    have "Suc ?m mod n = 0 \<longleftrightarrow> (j + (n - r) + 1) mod n = 0" using assms by (simp add: add.commute)
    also have "\<dots> \<longleftrightarrow> (j mod n + (n - r) + 1) mod n = 0" by (metis mod_add_left_eq add.assoc)
    also have "\<dots> \<longleftrightarrow> r = Suc (j mod n)"
    proof (cases "j mod n + (n - r) + 1 < n")
      case False
      have t: "j mod n < n" using n by simp
      have "(j mod n + (n - r) + 1) mod n = j mod n + (n - r) + 1 - n"
      proof (rule mod_less_imp)
        show "n \<le> j mod n + (n - r) + 1" using False by simp
        show "j mod n + (n - r) + 1 - n < n" using t assms by linarith
      qed
      then show ?thesis using False assms by auto
    qed (use assms in auto)
    finally show ?thesis .
  qed
  then show ?thesis unfolding execs_def e by (simp add: div_Suc)
qed


definition exec_rec :: "nat \<Rightarrow> nat \<Rightarrow> OrderRecord option" where
  "exec_rec e i = (if e < 100 then Some ((seed_record i)\<lparr>rec_shares := of_nat (100 - e)\<rparr>) else None)"

definition exec_index :: "nat \<Rightarrow> nat \<Rightarrow> u64 \<rightharpoonup> OrderRecord" where
  "exec_index n j = (\<lambda>r. exec_rec (execs n j (unat r)) (unat r - 1)) |` ref_range 0 n"

lemma exec_rec_step:
  "(case exec_rec e i of
      None \<Rightarrow> None
    | Some rec \<Rightarrow> if rec_shares rec \<le> 1 then None else Some (rec\<lparr>rec_shares := rec_shares rec - 1\<rparr>)) =
   exec_rec (Suc e) i"
proof (cases "e < 100")
  case True
  then obtain d where d: "100 - e = Suc d" "100 - Suc e = d" "d < 100" by (cases "100 - e") auto
  have u: "unat (of_nat d :: u32) = d" using d(3) by (intro unat_of_nat_u32) simp
  have "(of_nat (Suc d) :: u32) \<le> 1 \<longleftrightarrow> d = 0"
  proof -
    have "unat (of_nat (Suc d) :: u32) = Suc d" using d(3) by (intro unat_of_nat_u32) simp
    then show ?thesis by (simp only: word_le_nat_alt unat_1) simp
  qed
  moreover have "Suc e < 100 \<longleftrightarrow> d \<noteq> 0" using d by linarith
  ultimately show ?thesis using True d by (simp add: exec_rec_def del: of_nat_Suc) simp
qed (simp add: exec_rec_def)

lemma exec_index_step:
  assumes "0 < n" and "n < 2 ^ 64 - 1" and "m = be_make_execute (of_nat (Suc (j mod n))) 1"
  shows "orders_step (OrderExecuted m) (exec_index n j) = exec_index n (Suc j)"
    and "missed (OrderExecuted m) (exec_index n j) \<longleftrightarrow> 100 * n \<le> j"
proof -
  let ?r = "of_nat (Suc (j mod n)) :: u64"
  have lt: "j mod n < n" using assms(1) by simp
  then have bound: "Suc (j mod n) < 2 ^ 64" using assms(2) by linarith
  have ur: "unat ?r = Suc (j mod n)" by (rule unat_of_nat_u64 [OF bound])
  have mem: "?r \<in> ref_range 0 n" unfolding of_nat_in_range [OF bound] using lt by simp
  have at: "exec_index n j ?r = exec_rec (j div n) (j mod n)"
    using mem by (simp only: exec_index_def restrict_in ur execs_target [OF assms(1)] diff_Suc_1)
  have at': "exec_index n (Suc j) ?r = exec_rec (Suc (j div n)) (j mod n)"
    using mem execs_Suc [of "Suc (j mod n)" n j] lt
    by (simp only: exec_index_def restrict_in ur) (simp add: execs_target [OF assms(1)])
  have other: "exec_index n (Suc j) r = exec_index n j r" if "r \<noteq> ?r" for r
  proof (cases "r \<in> ref_range 0 n")
    case True
    then have "0 < unat r" "unat r \<le> n" by (simp_all add: ref_range_def)
    moreover have "unat r \<noteq> Suc (j mod n)" using that eq_of_nat_u64 [OF bound, of r] by blast
    ultimately show ?thesis using True execs_Suc [of "unat r" n j] by (simp add: exec_index_def)
  qed (simp add: exec_index_def)
  have "orders_step (OrderExecuted m) (exec_index n j) =
      (exec_index n j)(?r := case exec_index n j ?r of None \<Rightarrow> None
        | Some rec \<Rightarrow> if rec_shares rec \<le> 1 then None else Some (rec\<lparr>rec_shares := rec_shares rec - 1\<rparr>))"
    by (auto simp: assms(3) be_make_execute_def reduce_orders_def fun_eq_iff split: option.split)
  also have "\<dots> = (exec_index n j)(?r := exec_index n (Suc j) ?r)"
    by (simp only: at at' exec_rec_step)
  also have "\<dots> = exec_index n (Suc j)" using other by (auto simp: fun_eq_iff)
  finally show "orders_step (OrderExecuted m) (exec_index n j) = exec_index n (Suc j)" .
  have "exec_rec (j div n) (j mod n) = None \<longleftrightarrow> 100 * n \<le> j"
    using div_less_iff_less_mult [OF assms(1), of j 100] by (auto simp: exec_rec_def)
  then show "missed (OrderExecuted m) (exec_index n j) \<longleftrightarrow> 100 * n \<le> j"
    using at by (simp add: missed_def assms(3) be_make_execute_def del: of_nat_Suc)
qed


lemma execute_bench:
  assumes "0 < n" and "n < 2 ^ 64 - 1"
  shows "\<exists>w idx. BM_ExecuteOrder env n iters = Inr (w, idx) \<and>
    skipped_unknown_ref (fst w) = of_nat (iters - 100 * n)"
proof -
  define P :: "nat \<Rightarrow> (Engine \<times> publisher) \<times> nat \<Rightarrow> bool"
    where "P j = (\<lambda>(w, idx). idx = j \<and> shows_state (exec_index n j) (j - 100 * n) (fst w))" for j
  obtain w where w: "seed_engine env n (init_engine, None) = Inr w" "shows_state (seed_index n) 0 (fst w)"
    using seed_shows [of n env None] assms(2) by auto
  have "seed_index n = exec_index n 0"
    using assms by (auto simp: seed_index_def exec_index_def restrict_map_def exec_rec_def execs_def
        ref_range_def seed_record_def new_record_def Let_def fun_eq_iff)
  then have "P 0 (w, 0)" using w by (simp add: P_def)
  moreover have "\<exists>s'. execute_body env n s = Inr s' \<and> P (Suc j) s'" if p: "P j s" for j s
  proof -
    obtain w where s: "s = (w, j)" and st: "shows_state (exec_index n j) (j - 100 * n) (fst w)"
      using p by (cases s) (auto simp: P_def)
    let ?m = "be_make_execute (of_nat (Suc (j mod n))) 1"
    obtain w' where "apply_msg env (OrderExecuted ?m) w = Inr w'"
      "shows_state (exec_index n (Suc j)) (Suc j - 100 * n) (fst w')"
      using apply_shows [OF st, of env "OrderExecuted ?m"] exec_index_step [OF assms refl, of j]
      by (auto simp: Suc_diff_le not_le split: if_splits)
    then show ?thesis by (simp add: s P_def execute_body_def Let_def)
  qed
  ultimately obtain s where "iterate (execute_body env n) iters (w, 0) = Inr s" "P iters s"
    using iterate_inv [of P "(w, 0)" "execute_body env n" iters] by blast
  then show ?thesis by (cases s) (auto simp: BM_ExecuteOrder_def w P_def shows_state_def)
qed

section \<open>Property\<close>

text \<open>
  (C36) What the three benchmarks measure, for \<open>n\<close> seeded orders and any number of iterations: no
  delete is skipped as unknown, as the engine is seeded again when all orders are gone; but of
  the replaces only the first \<open>n\<close> reach a live order (the originals are never refreshed), and of
  the executions only the first \<open>100 * n\<close>; every later iteration is skipped.
\<close>

theorem engine_benchmarks_skip:
  assumes "0 < n" and "n < 2 ^ 31" and "iters < 2 ^ 31"
  shows "(\<exists>w idx. BM_DeleteOrder env n iters = Inr (w, idx) \<and> skipped_unknown_ref (fst w) = 0) \<and>
    (\<exists>w s. BM_ReplaceOrder env n iters = Inr (w, s) \<and> skipped_unknown_ref (fst w) = of_nat (iters - n)) \<and>
    (\<exists>w idx. BM_ExecuteOrder env n iters = Inr (w, idx) \<and> skipped_unknown_ref (fst w) = of_nat (iters - 100 * n))"
  using delete_bench [of n env iters] replace_bench [of n env iters] execute_bench [of n env iters] assms
  by fastforce

theorem engine_benchmarks_skip_witness:
  "\<exists>w s. BM_ReplaceOrder one_bid_env 10000 1000000 = Inr (w, s) \<and> skipped_unknown_ref (fst w) = 990000"
  using engine_benchmarks_skip [of 10000 1000000 one_bid_env] by simp

end
