(* ===== verification/Bench_Mixed.thy ===== *)
theory Bench_Mixed
  imports Bench_Engine Bench_Rng
begin

text \<open>
  \<^verbatim>\<open>bench/bench_mixed_workload.cpp\<close> without the capture benchmark: the message makers, the price
  distribution, the two add benchmarks and the synthetic mix of deletes, adds and executions.
\<close>

section \<open>Messages and prices\<close>

definition make_add :: "u64 \<Rightarrow> char \<Rightarrow> u32 \<Rightarrow> u32 \<Rightarrow> u16 \<Rightarrow> AddOrderMsg" where
  "make_add ref side shares price_raw locate =
     \<lparr>ao_stock_locate = locate, ao_tracking_number = 0, ao_timestamp = 34200000000000, ao_order_ref = ref,
      ao_side = side, ao_shares = shares, ao_stock = [], ao_price = Price price_raw\<rparr>"

definition make_delete :: "u64 \<Rightarrow> u16 \<Rightarrow> OrderDeleteMsg" where
  "make_delete ref locate =
     \<lparr>od_stock_locate = locate, od_tracking_number = 0, od_timestamp = 34200000000001, od_order_ref = ref\<rparr>"

definition make_execute :: "u64 \<Rightarrow> u32 \<Rightarrow> u16 \<Rightarrow> OrderExecutedMsg" where
  "make_execute ref shares locate =
     \<lparr>oe_stock_locate = locate, oe_tracking_number = 0, oe_timestamp = 34200000000002, oe_order_ref = ref,
      oe_executed_shares = shares, oe_match_number = 0\<rparr>"

definition register_aapl :: "Engine \<Rightarrow> Engine" where
  "register_aapl st = register_instrument
     (empty_instrument\<lparr>in_stock_locate := 1, in_symbol := ''AAPL'', in_trading_state := CHR ''T'',
        in_round_lot_size := 100\<rparr>) st"

text \<open>
  One draw of a price; the bounds of the band are 32-bit, the price is a 64-bit integer. \<^const>\<open>None\<close>
  when the conversion of the draw to an integer is undefined.
\<close>

definition cap_price :: "u32 \<Rightarrow> u32 \<Rightarrow> int \<Rightarrow> int" where
  "cap_price mid_raw spread_raw p =
     (let p1 = (if p < uint (mid_raw - 4 * spread_raw) then uint (mid_raw - 4 * spread_raw) else p)
      in if p1 > uint (mid_raw + 4 * spread_raw) then uint (mid_raw + 4 * spread_raw) else p1)"

definition draw_price :: "'g Rng \<Rightarrow> u32 \<Rightarrow> u32 \<Rightarrow> 'g \<Rightarrow> (u32 \<times> 'g) option" where
  "draw_price rng mid_raw spread_raw g =
     (let (s, g1) = rg_lognormal rng g;
          (b, g2) = rg_bits rng g1;
          signed_offset = fl ((if b AND 1 \<noteq> 0 then 1 else -1) * s * of_int (uint spread_raw))
      in map_option (\<lambda>p. (of_int (cap_price mid_raw spread_raw p), g2)) (add_offset (uint mid_raw) signed_offset))"

primrec make_price_distribution :: "'g Rng \<Rightarrow> nat \<Rightarrow> u32 \<Rightarrow> u32 \<Rightarrow> 'g \<Rightarrow> u32 list option" where
  "make_price_distribution rng 0 mid_raw spread_raw g = Some []"
| "make_price_distribution rng (Suc n) mid_raw spread_raw g =
     (case draw_price rng mid_raw spread_raw g of
        None \<Rightarrow> None
      | Some (p, g1) \<Rightarrow> map_option ((#) p) (make_price_distribution rng n mid_raw spread_raw g1))"

section \<open>The add benchmarks\<close>

definition bench_engine :: Engine where
  "bench_engine = set_snapshot_interval (- 1) (register_aapl init_engine)"

definition hot_prices :: "u32 list" where
  "hot_prices = map (\<lambda>i. 1000000 + of_nat (i * 100)) [0..<16]"

definition add_and_count :: "(Engine \<Rightarrow> SnapEnv) \<Rightarrow> u32 \<Rightarrow> (Engine \<times> publisher) \<times> u64 \<Rightarrow>
    engine_fault + (Engine \<times> publisher) \<times> u64" where
  "add_and_count env px = (\<lambda>(w, ref).
     (case apply_msg env (AddOrder (make_add ref CHR ''B'' 100 px 1)) w of
        Inl e \<Rightarrow> Inl e
      | Inr w' \<Rightarrow> Inr (w', ref + 1)))"

fun hot_seed :: "(Engine \<Rightarrow> SnapEnv) \<Rightarrow> u32 list \<Rightarrow> (Engine \<times> publisher) \<times> u64 \<Rightarrow>
    engine_fault + (Engine \<times> publisher) \<times> u64" where
  "hot_seed env [] s = Inr s"
| "hot_seed env (px # pxs) s = (case add_and_count env px s of Inl e \<Rightarrow> Inl e | Inr s' \<Rightarrow> hot_seed env pxs s')"

definition hot_body :: "(Engine \<Rightarrow> SnapEnv) \<Rightarrow> 'g Rng \<Rightarrow> ((Engine \<times> publisher) \<times> u64) \<times> 'g \<Rightarrow>
    engine_fault + ((Engine \<times> publisher) \<times> u64) \<times> 'g" where
  "hot_body env rng = (\<lambda>(s, g).
     let (k, g1) = rg_uniform rng 0 15 g
     in (case add_and_count env (hot_prices ! k) s of Inl e \<Rightarrow> Inl e | Inr s' \<Rightarrow> Inr (s', g1)))"

definition BM_AddOrder_HotBand :: "(Engine \<Rightarrow> SnapEnv) \<Rightarrow> 'g Rng \<Rightarrow> 'g \<Rightarrow> nat \<Rightarrow>
    engine_fault + ((Engine \<times> publisher) \<times> u64) \<times> 'g" where
  "BM_AddOrder_HotBand env rng g iters =
     (case hot_seed env hot_prices ((bench_engine, None), 1) of
        Inl e \<Rightarrow> Inl e
      | Inr s \<Rightarrow> iterate (hot_body env rng) iters (s, g))"

definition cold_body :: "(Engine \<Rightarrow> SnapEnv) \<Rightarrow> ((Engine \<times> publisher) \<times> u64) \<times> u32 \<Rightarrow>
    engine_fault + ((Engine \<times> publisher) \<times> u64) \<times> u32" where
  "cold_body env = (\<lambda>(s, price).
     (case add_and_count env price s of Inl e \<Rightarrow> Inl e | Inr s' \<Rightarrow> Inr (s', price + 100)))"

definition BM_AddOrder_ColdPrice :: "(Engine \<Rightarrow> SnapEnv) \<Rightarrow> nat \<Rightarrow>
    engine_fault + ((Engine \<times> publisher) \<times> u64) \<times> u32" where
  "BM_AddOrder_ColdPrice env iters = iterate (cold_body env) iters (((bench_engine, None), 1), 1000000)"

section \<open>The synthetic mix\<close>

datatype SynthOp = SYN_DELETE | SYN_ADD | SYN_EXECUTE

record SynthStep =
  sy_op :: SynthOp
  sy_ref :: u64
  sy_price_raw :: u32
  sy_shares :: u32
  sy_side :: char

text \<open>The generator, the live references, the next reference and the steps built so far.\<close>

type_synonym 'g synth_state = "'g \<times> u64 list \<times> u64 \<times> SynthStep list"

definition synth_add :: "'g Rng \<Rightarrow> u32 list \<Rightarrow> 'g synth_state \<Rightarrow> 'g synth_state" where
  "synth_add rng prices = (\<lambda>(g, live, next_ref, ops).
     let (i, g1) = rg_uniform rng 0 (500 - 1) g;
         (b, g2) = rg_uniform rng 0 1 g1
     in (g2, live @ [next_ref], next_ref + 1,
         ops @ [\<lparr>sy_op = SYN_ADD, sy_ref = next_ref, sy_price_raw = prices ! i, sy_shares = 100,
                 sy_side = (if b \<noteq> 0 then CHR ''B'' else CHR ''S'')\<rparr>]))"

definition synth_step :: "'g Rng \<Rightarrow> u32 list \<Rightarrow> 'g synth_state \<Rightarrow> 'g synth_state" where
  "synth_step rng prices = (\<lambda>(g, live, next_ref, ops).
     let (r, g1) = rg_uniform rng 0 99 g
     in if r < 75 \<and> live \<noteq> []
        then let (idx, g2) = rg_uniform rng 0 (length live - 1) g1;
                 ref = live ! idx;
                 live1 = live[idx := last live]
             in (g2, butlast live1, next_ref,
                 ops @ [\<lparr>sy_op = SYN_DELETE, sy_ref = ref, sy_price_raw = 0, sy_shares = 0, sy_side = CHR 0x00\<rparr>])
        else if r < 95 \<or> live = []
        then synth_add rng prices (g1, live, next_ref, ops)
        else let (idx, g2) = rg_uniform rng 0 (length live - 1) g1;
                 ref = live ! idx
             in (g2, live, next_ref,
                 ops @ [\<lparr>sy_op = SYN_EXECUTE, sy_ref = ref, sy_price_raw = 0, sy_shares = 1, sy_side = CHR 0x00\<rparr>]))"

definition synth_build :: "'g Rng \<Rightarrow> u32 list \<Rightarrow> nat \<Rightarrow> nat \<Rightarrow> 'g \<Rightarrow> 'g synth_state" where
  "synth_build rng prices n_resting n_mix g =
     (synth_step rng prices ^^ n_mix) ((synth_add rng prices ^^ n_resting) (g, [], 1, []))"

definition synth_message :: "SynthStep \<Rightarrow> ParsedMessage" where
  "synth_message s = (case sy_op s of
      SYN_ADD \<Rightarrow> AddOrder (make_add (sy_ref s) (sy_side s) (sy_shares s) (sy_price_raw s) 1)
    | SYN_DELETE \<Rightarrow> OrderDelete (make_delete (sy_ref s) 1)
    | SYN_EXECUTE \<Rightarrow> OrderExecuted (make_execute (sy_ref s) (sy_shares s) 1))"

definition synth_body :: "(Engine \<Rightarrow> SnapEnv) \<Rightarrow> SynthStep list \<Rightarrow> (Engine \<times> publisher) \<times> nat \<Rightarrow>
    engine_fault + (Engine \<times> publisher) \<times> nat" where
  "synth_body env ops = (\<lambda>(w, idx).
     (case apply_msg env (synth_message (ops ! idx)) w of
        Inl e \<Rightarrow> Inl e
      | Inr w' \<Rightarrow> Inr (w', (idx + 1) mod length ops)))"

text \<open>
  The generators of the prices and of the mix are seeded separately. \<^const>\<open>None\<close> when drawing the
  prices is undefined.
\<close>

definition BM_ApplyMixed_Synth :: "(Engine \<Rightarrow> SnapEnv) \<Rightarrow> 'g Rng \<Rightarrow> 'g \<Rightarrow> 'g \<Rightarrow> nat \<Rightarrow> nat \<Rightarrow>
    (engine_fault + (Engine \<times> publisher) \<times> nat) option" where
  "BM_ApplyMixed_Synth env rng g_prices g_mix n_resting iters =
     map_option (\<lambda>prices.
       let (_, _, _, ops) = synth_build rng prices n_resting 100000 g_mix
       in iterate (synth_body env ops) iters ((bench_engine, None), 0))
       (make_price_distribution rng 500 1000000 2500 g_prices)"


section \<open>The price levels of the add benchmarks\<close>

definition bid_prices :: "Engine \<Rightarrow> Price set" where
  "bid_prices st = {p. level_of st (1, Bid, p) \<noteq> None}"

lemma add_and_count_prices:
  assumes "engine_wf (fst w)" and "snapshot_interval (fst w) \<noteq> 0"
  shows "\<exists>w'. add_and_count env px (w, ref) = Inr (w', ref + 1) \<and> engine_wf (fst w') \<and>
    snapshot_interval (fst w') \<noteq> 0 \<and> bid_prices (fst w') = insert (Price px) (bid_prices (fst w))"
proof -
  let ?m = "make_add ref CHR ''B'' 100 px 1"
  let ?h = "handle (AddOrder ?m) (fst w)"
  let ?st = "?h\<lparr>messages_processed := messages_processed ?h + 1\<rparr>"
  have "engine_wf ?st" using wf_handle [OF assms(1), of "AddOrder ?m"] by (simp cong: engine_wf_cong)
  moreover have "level_of ?h =
      (level_of (fst w))((1, Bid, Price px) := lvl_insert (Price px) 100 (level_of (fst w) (1, Bid, Price px)))"
    using level_of_insert [OF ensure_book_wf [OF assms(1), THEN conjunct1] refl, where st' = ?h and l = 1
        and c = "CHR ''B''" and p = "Price px" and s = 100 and t = "ao_timestamp ?m"]
    by (simp add: handle_add_order_def add_order_closed make_add_def side_of_def)
  then have "bid_prices ?st = insert (Price px) (bid_prices (fst w))"
    using level_of_cong [of ?st ?h] by (auto simp: bid_prices_def lvl_insert_def Let_def)
  ultimately show ?thesis
    using assms(2)
    by (simp add: add_and_count_def apply_msg_def Let_def maybe_publish_snapshot_def umod_def handle_keeps_control
        del: handle.simps)
qed

lemma bench_engine_start: "engine_wf bench_engine" "snapshot_interval bench_engine \<noteq> 0" "bid_prices bench_engine = {}"
proof -
  show "engine_wf bench_engine"
    by (simp add: bench_engine_def register_aapl_def register_instrument_def set_snapshot_interval_def init_engine_def
        engine_wf_def)
qed (simp_all add: bench_engine_def register_aapl_def register_instrument_def set_snapshot_interval_def init_engine_def
      bid_prices_def level_of_def)

lemma hot_seed_prices:
  assumes "engine_wf (fst w)" and "snapshot_interval (fst w) \<noteq> 0"
  shows "\<exists>w' ref'. hot_seed env pxs (w, ref) = Inr (w', ref') \<and> engine_wf (fst w') \<and>
    snapshot_interval (fst w') \<noteq> 0 \<and> bid_prices (fst w') = bid_prices (fst w) \<union> Price ` set pxs"
  using assms
proof (induction pxs arbitrary: w ref)
  case (Cons px pxs)
  obtain w1 where w1: "add_and_count env px (w, ref) = Inr (w1, ref + 1)" "engine_wf (fst w1)"
    "snapshot_interval (fst w1) \<noteq> 0" "bid_prices (fst w1) = insert (Price px) (bid_prices (fst w))"
    using add_and_count_prices [OF Cons.prems] by blast
  from Cons.IH [OF w1(2,3), of "ref + 1"] w1(1,4) show ?case by fastforce
qed simp

text \<open>The hot band has 16 price levels, however many orders are added.\<close>

lemma hot_band_levels:
  assumes "uniform_in_range rng"
  shows "\<exists>w ref g'. BM_AddOrder_HotBand env rng g iters = Inr ((w, ref), g') \<and>
    bid_prices (fst w) = Price ` set hot_prices"
proof -
  define P :: "nat \<Rightarrow> ((Engine \<times> publisher) \<times> u64) \<times> 'a \<Rightarrow> bool" where "P j = (\<lambda>((w, ref), g).
     engine_wf (fst w) \<and> snapshot_interval (fst w) \<noteq> 0 \<and> bid_prices (fst w) = Price ` set hot_prices)" for j
  obtain s where s: "hot_seed env hot_prices ((bench_engine, None), 1) = Inr s" "P 0 (s, g)"
    using hot_seed_prices [of "(bench_engine, None)" env hot_prices 1] bench_engine_start
    by (auto simp: P_def)
  have "\<exists>t'. hot_body env rng t = Inr t' \<and> P (Suc j) t'" if p: "P j t" for j t
  proof -
    obtain w ref g where t: "t = ((w, ref), g)" by (metis prod.collapse)
    obtain k g1 where k: "rg_uniform rng 0 15 g = (k, g1)" by fastforce
    have "hot_prices ! k \<in> set hot_prices" using uniform_le [OF assms k] by (simp add: hot_prices_def)
    then show ?thesis
      using p add_and_count_prices [of w env "hot_prices ! k" ref]
      by (auto simp: t P_def hot_body_def k insert_absorb)
  qed
  with iterate_inv [of P "(s, g)" "hot_body env rng" iters, OF s(2)]
  obtain t where "iterate (hot_body env rng) iters (s, g) = Inr t" "P iters t" by blast
  then show ?thesis by (cases t) (auto simp: BM_AddOrder_HotBand_def s P_def)
qed

text \<open>Each cold add opens a new level, until the 32-bit price comes round after \<open>2 ^ 30\<close> adds.\<close>

definition cold_price :: "nat \<Rightarrow> u32" where
  "cold_price j = 1000000 + 100 * of_nat j"

lemma cold_price_inj:
  assumes b: "i < 2 ^ 30" "j < 2 ^ 30" and "cold_price i = cold_price j"
  shows "i = j"
proof -
  have "(of_nat (100 * i) :: u32) = of_nat (100 * j)" using assms(3) by (simp add: cold_price_def)
  then have "(100 * i) mod 4294967296 = (100 * j) mod 4294967296"
    by (simp only: word_of_nat_eq_iff take_bit_eq_mod) simp
  then have "int ((100 * i) mod 4294967296) = int ((100 * j) mod 4294967296)" by (rule arg_cong)
  then have "int (100 * i) mod 4294967296 = int (100 * j) mod 4294967296"
    by (simp only: zmod_int of_nat_numeral)
  then obtain q where q: "int (100 * i) - int (100 * j) = 4294967296 * q"
    by (auto simp only: mod_eq_dvd_iff elim: dvdE)
  define k where "k = int i - int j"
  define z where "z = 42949673 * q - 1 * k"
  have "25 * k = 1073741824 * q" using q by (simp add: k_def)
  then have "k = 1073741824 * z" by (simp add: z_def)
  moreover have "k < 1073741824" "- 1073741824 < k" using b by (simp_all add: k_def)
  ultimately have "z = 0" by linarith
  then show "i = j" using \<open>k = 1073741824 * z\<close> by (simp add: k_def)
qed


lemma cold_price_levels:
  assumes "iters < 2 ^ 30"
  shows "\<exists>w ref. BM_AddOrder_ColdPrice env iters = Inr ((w, ref), cold_price iters) \<and>
    Price (cold_price iters) \<notin> bid_prices (fst w) \<and> card (bid_prices (fst w)) = iters"
proof -
  define P :: "nat \<Rightarrow> ((Engine \<times> publisher) \<times> u64) \<times> u32 \<Rightarrow> bool" where "P j = (\<lambda>((w, ref), price).
     engine_wf (fst w) \<and> snapshot_interval (fst w) \<noteq> 0 \<and> price = cold_price j \<and>
     bid_prices (fst w) = (\<lambda>i. Price (cold_price i)) ` {i. i < j})" for j
  have "P 0 (((bench_engine, None), 1), 1000000)" using bench_engine_start by (simp add: P_def cold_price_def)
  moreover have "\<exists>t'. cold_body env t = Inr t' \<and> P (Suc j) t'" if p: "P j t" for j t
  proof -
    obtain w ref price where t: "t = ((w, ref), price)" by (metis prod.collapse)
    have "{i. i < Suc j} = insert j {i. i < j}" by auto
    then show ?thesis
      using p add_and_count_prices [of w env price ref]
      by (auto simp: t P_def cold_body_def cold_price_def algebra_simps)
  qed
  ultimately obtain t where t: "BM_AddOrder_ColdPrice env iters = Inr t" "P iters t"
    using iterate_inv [of P "(((bench_engine, None), 1), 1000000)" "cold_body env" iters]
    unfolding BM_AddOrder_ColdPrice_def by blast
  obtain w ref price where w: "t = ((w, ref), price)" by (metis prod.collapse)
  have inj: "inj_on (\<lambda>i. Price (cold_price i)) {i. i < Suc iters}"
  proof (rule inj_onI)
    fix i j assume "i \<in> {i. i < Suc iters}" "j \<in> {i. i < Suc iters}" "Price (cold_price i) = Price (cold_price j)"
    then show "i = j" using assms by (intro cold_price_inj) simp_all
  qed
  have "card ((\<lambda>i. Price (cold_price i)) ` {i. i < iters}) = iters"
    using inj by (subst card_image) (auto intro: inj_on_subset)
  moreover have "Price (cold_price iters) \<notin> (\<lambda>i. Price (cold_price i)) ` {i. i < iters}"
    using inj unfolding inj_on_def by fastforce
  ultimately show ?thesis using t by (auto simp: w P_def)
qed

section \<open>References of the mix\<close>

definition add_refs :: "SynthStep list \<Rightarrow> u64 list" where
  "add_refs ops = map sy_ref (filter (\<lambda>s. sy_op s = SYN_ADD) ops)"

lemma add_refs_append [simp]: "add_refs (xs @ ys) = add_refs xs @ add_refs ys"
  by (simp add: add_refs_def)

text \<open>The adds take the references 1, 2, 3 and so on.\<close>

definition synth_inv :: "nat \<Rightarrow> 'g synth_state \<Rightarrow> bool" where
  "synth_inv n = (\<lambda>(g, live, next_ref, ops). length ops = n \<and>
     (\<exists>k. k \<le> n \<and> next_ref = of_nat (Suc k) \<and> add_refs ops = map of_nat [1..<Suc k]))"

lemma synth_inv_extend:
  assumes "synth_inv n (g, live, next_ref, ops)"
    and "if sy_op s = SYN_ADD then sy_ref s = next_ref \<and> next_ref' = next_ref + 1 else next_ref' = next_ref"
  shows "synth_inv (Suc n) (g', live', next_ref', ops @ [s])"
proof -
  obtain k where k: "length ops = n" "k \<le> n" "next_ref = of_nat (Suc k)" "add_refs ops = map of_nat [1..<Suc k]"
    using assms(1) by (auto simp: synth_inv_def)
  show ?thesis
  proof (cases "sy_op s = SYN_ADD")
    case True
    then have "add_refs (ops @ [s]) = map of_nat [1..<Suc (Suc k)]" "next_ref' = of_nat (Suc (Suc k))"
      using k assms(2) by (simp_all add: add_refs_def)
    with k show ?thesis unfolding synth_inv_def prod.case by (intro conjI exI [of _ "Suc k"]) simp_all
  next
    case False
    then have "add_refs (ops @ [s]) = add_refs ops" by (simp add: add_refs_def)
    with k False assms(2) show ?thesis unfolding synth_inv_def prod.case by (intro conjI exI [of _ k]) simp_all
  qed
qed

lemma synth_inv_add: "synth_inv n st \<Longrightarrow> synth_inv (Suc n) (synth_add rng prices st)"
  by (cases st) (auto simp: synth_add_def Let_def split: prod.split intro: synth_inv_extend)

lemma synth_inv_step:
  assumes "synth_inv n st"
  shows "synth_inv (Suc n) (synth_step rng prices st)"
proof -
  obtain g live next_ref ops where st: "st = (g, live, next_ref, ops)" by (metis prod_cases4)
  obtain r g1 where r: "rg_uniform rng 0 99 g = (r, g1)" by fastforce
  obtain i g2 where i: "rg_uniform rng 0 (length live - 1) g1 = (i, g2)" by fastforce
  have "synth_inv n (g1, live, next_ref, ops)" using assms by (simp add: st synth_inv_def)
  then show ?thesis
    using i synth_inv_add [of n "(g1, live, next_ref, ops)"]
    by (auto simp: st synth_step_def r Let_def intro: synth_inv_extend)
qed

lemma synth_build_inv: "synth_inv (n_resting + n_mix) (synth_build rng prices n_resting n_mix g)"
proof -
  have a: "synth_inv m ((synth_add rng prices ^^ m) (g, [], 1, []))" for m
    by (induction m) (simp_all add: synth_inv_add, simp add: synth_inv_def add_refs_def)
  have "synth_inv (n_resting + k) ((synth_step rng prices ^^ k) ((synth_add rng prices ^^ n_resting) (g, [], 1, [])))" for k
    by (induction k) (simp_all add: a synth_inv_step)
  then show ?thesis by (simp add: synth_build_def)
qed

lemma distinct_of_nat_u64:
  assumes "k < 2 ^ 64"
  shows "distinct (map (of_nat :: nat \<Rightarrow> u64) [1..<Suc k])"
proof -
  have "inj_on (of_nat :: nat \<Rightarrow> u64) {..k}"
  proof (rule inj_onI)
    fix x y assume "x \<in> {..k}" "y \<in> {..k}" and eq: "(of_nat x :: u64) = of_nat y"
    then have "x \<le> k" "y \<le> k" by simp_all
    with assms have "x < 2 ^ 64" "y < 2 ^ 64" by linarith+
    then show "x = y" using arg_cong [OF eq, of unat] by (simp only: unat_of_nat_u64)
  qed
  moreover have "set [1..<Suc k] \<subseteq> {..k}" by auto
  ultimately show ?thesis by (simp only: distinct_map distinct_upt) (blast intro: inj_on_subset)
qed

lemma synth_refs_distinct:
  assumes "synth_build rng prices n_resting n_mix g = (g', live, next_ref, ops)" and "n_resting + n_mix < 2 ^ 64"
  shows "length ops = n_resting + n_mix" and "distinct (add_refs ops)"
proof -
  obtain k where "length ops = n_resting + n_mix" "k \<le> n_resting + n_mix" "add_refs ops = map of_nat [1..<Suc k]"
    using synth_build_inv [of n_resting n_mix rng prices g] by (auto simp: assms(1) synth_inv_def)
  with assms(2) show "length ops = n_resting + n_mix" "distinct (add_refs ops)"
    using distinct_of_nat_u64 [of k] by simp_all
qed


section \<open>The live orders come from the adds\<close>

definition orders_from :: "SynthStep list \<Rightarrow> (u64 \<rightharpoonup> OrderRecord) \<Rightarrow> bool" where
  "orders_from ops oi \<longleftrightarrow>
     (\<forall>r rec. oi r = Some rec \<longrightarrow>
        (\<exists>s \<in> set ops. sy_op s = SYN_ADD \<and> sy_ref s = r \<and>
           order_key rec = (1, side_of (sy_side s), Price (sy_price_raw s))))"

lemma orders_from_mono: "orders_from ops oi \<Longrightarrow> orders_from (ops @ ops') oi"
  unfolding orders_from_def by fastforce

lemma orders_from_upd:
  assumes "orders_from ops oi" and "\<And>rec. v = Some rec \<Longrightarrow> orders_from ops [r \<mapsto> rec]"
  shows "orders_from ops (oi(r := v))"
  unfolding orders_from_def
proof (intro allI impI)
  fix x rec assume x: "(oi(r := v)) x = Some rec"
  show "\<exists>s \<in> set ops. sy_op s = SYN_ADD \<and> sy_ref s = x \<and>
      order_key rec = (1, side_of (sy_side s), Price (sy_price_raw s))"
  proof (cases "x = r")
    case True
    with x assms(2) [of rec] show ?thesis unfolding orders_from_def by simp
  next
    case False
    with x assms(1) show ?thesis unfolding orders_from_def by simp
  qed
qed

lemma orders_from_drop: "orders_from ops oi \<Longrightarrow> orders_from ops (oi(r := None))"
  by (rule orders_from_upd) simp_all

lemma orders_from_put: "orders_from ops oi \<Longrightarrow> orders_from ops [r \<mapsto> rec] \<Longrightarrow> orders_from ops (oi(r \<mapsto> rec))"
  by (rule orders_from_upd) simp_all

lemma orders_from_reduce:
  assumes "orders_from ops oi"
  shows "orders_from ops (reduce_orders r q oi)"
proof (cases "oi r")
  case (Some rec)
  have "orders_from ops [r \<mapsto> rec\<lparr>rec_shares := x\<rparr>]" for x
    using assms Some unfolding orders_from_def order_key_def by simp
  then show ?thesis
    using assms by (simp add: reduce_orders_def Some orders_from_drop orders_from_put)
qed (simp add: reduce_orders_def assms)

lemma orders_from_step:
  assumes "orders_from ops oi"
  shows "orders_from (ops @ [s]) (orders_step (synth_message s) oi)"
proof (cases "sy_op s")
  case SYN_ADD
  have "orders_from (ops @ [s])
      [sy_ref s \<mapsto> new_record 1 (sy_side s) (sy_shares s) (Price (sy_price_raw s)) []]"
    using SYN_ADD by (simp add: orders_from_def order_key_def)
  with orders_from_mono [OF assms, of "[s]"] show ?thesis
    using SYN_ADD by (simp add: synth_message_def make_add_def orders_from_put)
next
  case SYN_DELETE
  then show ?thesis
    using orders_from_mono [OF assms, of "[s]"] by (simp add: synth_message_def make_delete_def orders_from_drop)
next
  case SYN_EXECUTE
  then show ?thesis
    using orders_from_mono [OF assms, of "[s]"] by (simp add: synth_message_def make_execute_def orders_from_reduce)
qed

lemma orders_from_fresh:
  assumes "orders_from (take j ops) oi" and "distinct (add_refs ops)" and "j < length ops"
    and "sy_op (ops ! j) = SYN_ADD"
  shows "oi (sy_ref (ops ! j)) = None"
proof (rule ccontr)
  assume "oi (sy_ref (ops ! j)) \<noteq> None"
  then obtain s where "s \<in> set (take j ops)" "sy_op s = SYN_ADD" "sy_ref s = sy_ref (ops ! j)"
    using assms(1) unfolding orders_from_def by blast
  then have "sy_ref (ops ! j) \<in> set (add_refs (take j ops))"
    unfolding add_refs_def set_map set_filter by (metis (mono_tags, lifting) image_eqI mem_Collect_eq)
  moreover have "add_refs ops = add_refs (take j ops) @ sy_ref (ops ! j) # add_refs (drop (Suc j) ops)"
  proof -
    have "add_refs ops = add_refs (take j ops @ ops ! j # drop (Suc j) ops)"
      using id_take_nth_drop [OF assms(3)] by simp
    then show ?thesis using assms(4) by (simp only: add_refs_append) (simp add: add_refs_def)
  qed
  ultimately show False using assms(2) by simp
qed

section \<open>The passes\<close>

lemma bench_engine_consistent: "consistent bench_engine" "snapshot_interval bench_engine \<noteq> 0"
  "order_index bench_engine = Map.empty"
proof -
  have e: "bench_engine = init_engine\<lparr>instruments := [1 \<mapsto> empty_instrument\<lparr>in_stock_locate := 1,
      in_symbol := ''AAPL'', in_trading_state := CHR ''T'', in_round_lot_size := 100\<rparr>],
      snapshot_interval := - 1\<rparr>"
    by (simp add: bench_engine_def register_aapl_def register_instrument_def set_snapshot_interval_def init_engine_def
        empty_instrument_def)
  have "engine_wf bench_engine" by (simp add: e engine_wf_def init_engine_def)
  then show "consistent bench_engine"
    by (simp add: consistent_def e level_of_def init_engine_def agrees_def orders_at_def)
qed (simp_all add: bench_engine_def register_aapl_def register_instrument_def set_snapshot_interval_def init_engine_def)

lemma apply_consistent:
  assumes "consistent (fst w)" and "snapshot_interval (fst w) \<noteq> 0" and "ref_ok (fst w) msg"
    and "card (dom (order_index (fst w))) < 2 ^ 32 - 1"
  shows "\<exists>w'. apply_msg env msg w = Inr w' \<and> consistent (fst w') \<and> snapshot_interval (fst w') \<noteq> 0 \<and>
    order_index (fst w') = orders_step msg (order_index (fst w)) \<and>
    card (dom (order_index (fst w'))) \<le> Suc (card (dom (order_index (fst w))))"
proof -
  let ?st = "(handle msg (fst w))\<lparr>messages_processed := messages_processed (handle msg (fst w)) + 1\<rparr>"
  have wf: "engine_wf (fst w)" by (rule consistentD [OF assms(1)])
  have "consistent ?st" using consistent_handle [OF assms(1,3,4)] by (simp cong: consistent_cong)
  then show ?thesis
    using assms(2) order_index_handle [OF wf, of msg] card_handle [OF wf, of msg]
    by (simp add: apply_msg_def Let_def maybe_publish_snapshot_def umod_def handle_keeps_control)
qed


text \<open>The state after \<open>j\<close> steps of the first pass.\<close>

definition pass_inv :: "SynthStep list \<Rightarrow> nat \<Rightarrow> (Engine \<times> publisher) \<times> nat \<Rightarrow> bool" where
  "pass_inv ops j = (\<lambda>(w, idx). idx = j mod length ops \<and> consistent (fst w) \<and> snapshot_interval (fst w) \<noteq> 0 \<and>
     card (dom (order_index (fst w))) \<le> j \<and> orders_from (take j ops) (order_index (fst w)))"

lemma pass_step:
  assumes "pass_inv ops j s" and "j < length ops" and "distinct (add_refs ops)" and "length ops < 2 ^ 32"
  shows "\<exists>s'. synth_body env ops s = Inr s' \<and> pass_inv ops (Suc j) s'"
proof -
  obtain w where s: "s = (w, j)" and w: "consistent (fst w)" "snapshot_interval (fst w) \<noteq> 0"
    "card (dom (order_index (fst w))) \<le> j" "orders_from (take j ops) (order_index (fst w))"
    using assms(1,2) by (cases s) (auto simp: pass_inv_def)
  let ?m = "synth_message (ops ! j)"
  have "ref_ok (fst w) ?m"
    using orders_from_fresh [OF w(4) assms(3,2)]
    by (cases "sy_op (ops ! j)") (simp_all add: synth_message_def make_add_def)
  moreover have "card (dom (order_index (fst w))) < 2 ^ 32 - 1" using w(3) assms(2,4) by linarith
  ultimately obtain w' where w': "apply_msg env ?m w = Inr w'" "consistent (fst w')"
    "snapshot_interval (fst w') \<noteq> 0" "order_index (fst w') = orders_step ?m (order_index (fst w))"
    "card (dom (order_index (fst w'))) \<le> Suc (card (dom (order_index (fst w))))"
    using apply_consistent [OF w(1,2), of ?m env] by blast
  have "orders_from (take (Suc j) ops) (order_index (fst w'))"
    using orders_from_step [OF w(4), of "ops ! j"] assms(2) w'(4) by (simp add: take_Suc_conv_app_nth)
  then have "pass_inv ops (Suc j) (w', Suc j mod length ops)"
    using w' w(3) by (simp add: pass_inv_def)
  then show ?thesis using w'(1) by (simp add: s synth_body_def)
qed

lemma synth_pass:
  assumes "synth_build rng prices n_resting n_mix g = (g', live, next_ref, ops)"
    and "n_resting + n_mix < 2 ^ 32" and "j \<le> n_resting + n_mix"
  shows "\<exists>s. iterate (synth_body env ops) j ((bench_engine, None), 0) = Inr s \<and> pass_inv ops j s"
proof (rule iterate_below)
  have d: "length ops = n_resting + n_mix" "distinct (add_refs ops)"
    using synth_refs_distinct [OF assms(1)] assms(2) by auto
  show "pass_inv ops 0 ((bench_engine, None), 0)"
    using bench_engine_consistent by (simp add: pass_inv_def orders_from_def)
  show "\<exists>s'. synth_body env ops s = Inr s' \<and> pass_inv ops (Suc i) s'" if "i < j" "pass_inv ops i s" for i s
    using that d assms(2,3) by (intro pass_step) auto
qed

text \<open>Adding an order again while it is live counts it twice.\<close>

lemma readd_inconsistent:
  assumes "consistent st" and "order_index st (ao_order_ref m) = Some rec"
    and "order_key rec = (ao_stock_locate m, side_of (ao_side m), ao_price m)"
  shows "\<not> consistent (handle (AddOrder m) st)"
proof
  let ?k = "order_key rec" and ?st = "handle (AddOrder m) st" and ?r = "ao_order_ref m"
  assume c: "consistent ?st"
  have wf: "engine_wf st" by (rule consistentD [OF assms(1)])
  have oi: "order_index ?st = (order_index st)(?r \<mapsto> new_record (ao_stock_locate m) (ao_side m) (ao_shares m) (ao_price m) [])"
    using order_index_handle [OF wf, of "AddOrder m"] by simp
  have same: "orders_at (order_index ?st) ?k = orders_at (order_index st) ?k"
    unfolding oi using assms(2,3) by (auto simp: orders_at_def order_key_def)
  have lv: "level_of ?st ?k = lvl_insert (ao_price m) (ao_shares m) (level_of st ?k)"
    using level_of_insert [OF ensure_book_wf [OF wf, THEN conjunct1] refl,
        where st' = ?st and l = "ao_stock_locate m" and c = "ao_side m" and p = "ao_price m" and s = "ao_shares m"
          and t = "ao_timestamp m"]
    by (simp add: handle_add_order_def add_order_closed assms(3))
  have "?r \<in> orders_at (order_index st) ?k" using assms(2) by (auto simp: orders_at_def)
  then obtain lvl where l: "level_of st ?k = Some lvl" "unat (pl_order_count lvl) = card (orders_at (order_index st) ?k)"
    using consistentD(3) [OF assms(1), of ?k] by (auto simp: agrees_def split: option.splits)
  have "unat (pl_order_count lvl + 1) = card (orders_at (order_index st) ?k)"
    using consistentD(3) [OF c, of ?k] unfolding lv same l(1) agrees_def by (simp add: lvl_insert_def)
  with l(2) have "pl_order_count lvl + 1 = pl_order_count lvl" by (metis word_unat_eq_iff)
  then show False by simp
qed


section \<open>Prices of the mix\<close>

lemma cap_price_band: "990000 \<le> cap_price 1000000 2500 p" "cap_price 1000000 2500 p \<le> 1010000"
  by (simp_all add: cap_price_def Let_def)

lemma draw_price_band:
  assumes "draw_price rng 1000000 2500 g = Some (p, g')"
  shows "990000 \<le> p \<and> p \<le> 1010000"
proof -
  obtain q where q: "p = of_int (cap_price 1000000 2500 q)"
    using assms by (auto simp: draw_price_def Let_def split: prod.splits)
  have "uint p = cap_price 1000000 2500 q"
    unfolding q using cap_price_band [of q] by (simp add: unsigned_of_int take_bit_int_eq_self)
  then show ?thesis using cap_price_band [of q] by (simp add: word_le_def)
qed

lemma price_distribution_band:
  "make_price_distribution rng n 1000000 2500 g = Some ps \<Longrightarrow>
     length ps = n \<and> (\<forall>p \<in> set ps. 990000 \<le> p \<and> p \<le> 1010000)"
  by (induction n arbitrary: g ps) (auto dest: draw_price_band split: option.splits)

definition priced :: "u32 list \<Rightarrow> 'g synth_state \<Rightarrow> bool" where
  "priced prices = (\<lambda>(g, live, next_ref, ops). \<forall>s \<in> set ops. sy_op s = SYN_ADD \<longrightarrow> sy_price_raw s \<in> set prices)"

lemma priced_add:
  assumes "uniform_in_range rng" and "length prices = 500" and "priced prices st"
  shows "priced prices (synth_add rng prices st)"
proof -
  obtain g live next_ref ops where st: "st = (g, live, next_ref, ops)" by (metis prod_cases4)
  obtain i g1 where i: "rg_uniform rng 0 (500 - 1) g = (i, g1)" by fastforce
  have "i < length prices" using uniform_le [OF assms(1) i] assms(2) by simp
  with assms(3) i show ?thesis by (auto simp: st priced_def synth_add_def Let_def split: prod.split)
qed

lemma priced_step:
  assumes "uniform_in_range rng" and "length prices = 500" and "priced prices st"
  shows "priced prices (synth_step rng prices st)"
proof -
  obtain g live next_ref ops where st: "st = (g, live, next_ref, ops)" by (metis prod_cases4)
  obtain r g1 where r: "rg_uniform rng 0 99 g = (r, g1)" by fastforce
  have "priced prices (g1, live, next_ref, ops)" using assms(3) by (simp add: st priced_def)
  from priced_add [OF assms(1,2) this] assms(3) show ?thesis
    by (auto simp: st synth_step_def r Let_def priced_def split: prod.split)
qed

lemma synth_priced:
  assumes "uniform_in_range rng" and "length prices = 500"
  shows "priced prices (synth_build rng prices n_resting n_mix g)"
proof -
  have a: "priced prices ((synth_add rng prices ^^ m) (g, [], 1, []))" for m
    by (induction m) (simp_all add: priced_add [OF assms], simp add: priced_def)
  have "priced prices ((synth_step rng prices ^^ k) ((synth_add rng prices ^^ n_resting) (g, [], 1, [])))" for k
    by (induction k) (simp_all add: a priced_step [OF assms])
  then show ?thesis by (simp add: synth_build_def)
qed


section \<open>Properties\<close>

text \<open>
  The synthetic mix, first pass: whatever the random draws, as long as the prices are drawn without
  an undefined conversion, no message of the pass takes the
  reference of a live order, so after every iteration of it the book shows exactly the live
  orders (each level is the aggregate of the orders at its price), all of them between 99 and 101
  dollars.
\<close>

lemma synth_first_pass:
  assumes "uniform_in_range rng" and "n_resting + 100000 < 2 ^ 32" and "iters \<le> n_resting + 100000"
    and "make_price_distribution rng 500 1000000 2500 g_prices = Some prices"
  shows "\<exists>w idx. BM_ApplyMixed_Synth env rng g_prices g_mix n_resting iters = Some (Inr (w, idx)) \<and> consistent (fst w) \<and>
    (\<forall>r rec. order_index (fst w) r = Some rec \<longrightarrow> Price 990000 \<le> rec_price rec \<and> rec_price rec \<le> Price 1010000)"
proof -
  let ?prices = prices
  note band = price_distribution_band [OF assms(4)]
  obtain g' live next_ref ops where b: "synth_build rng ?prices n_resting 100000 g_mix = (g', live, next_ref, ops)"
    by (metis prod_cases4)
  obtain s where s: "iterate (synth_body env ops) iters ((bench_engine, None), 0) = Inr s" "pass_inv ops iters s"
    using synth_pass [OF b assms(2,3)] by blast
  obtain w idx where w: "s = (w, idx)" by fastforce
  have "Price 990000 \<le> rec_price rec \<and> rec_price rec \<le> Price 1010000" if r: "order_index (fst w) r = Some rec" for r rec
  proof -
    have "orders_from (take iters ops) (order_index (fst w))" using s(2) by (simp add: w pass_inv_def)
    then obtain st where "st \<in> set ops" "sy_op st = SYN_ADD" "rec_price rec = Price (sy_price_raw st)"
      using r unfolding orders_from_def order_key_def by (metis in_set_takeD prod.inject)
    moreover have "priced ?prices (g', live, next_ref, ops)"
      using synth_priced [OF assms(1), of ?prices n_resting 100000 g_mix] band b by simp
    ultimately show ?thesis using band by (auto simp: priced_def less_eq_Price_def)
  qed
  then show ?thesis using s by (auto simp: BM_ApplyMixed_Synth_def Let_def assms(4) b w pass_inv_def)
qed

lemma synth_first_pass_witness:
  "\<exists>w idx. BM_ApplyMixed_Synth one_bid_env counter_rng 42 0 10000 110000 = Some (Inr (w, idx)) \<and> consistent (fst w)"
proof -
  have "make_price_distribution counter_rng n 1000000 2500 g \<noteq> None" for n g
    using counter_offsets by (induction n arbitrary: g) (auto simp: draw_price_def counter_rng_def)
  then obtain prices where "make_price_distribution counter_rng 500 1000000 2500 42 = Some prices" by blast
  from synth_first_pass [OF counter_in_range _ _ this, of 10000 110000 one_bid_env 0] show ?thesis by auto
qed

text \<open>
  The replay after the first pass is not such a feed: when the first order of the mix is still
  live at the end of the pass, the next iteration adds it again and its level counts it twice.
\<close>

lemma first_op_add:
  "0 < n_resting \<Longrightarrow> \<exists>s rest. snd (snd (snd (synth_build rng prices n_resting n_mix g))) = s # rest \<and> sy_op s = SYN_ADD"
proof -
  define Q :: "'a synth_state \<Rightarrow> bool"
    where "Q = (\<lambda>(g, live, next_ref, ops). \<exists>s rest. ops = s # rest \<and> sy_op s = SYN_ADD)"
  assume n: "0 < n_resting"
  have add: "Q (synth_add rng prices st)" if "Q st \<or> snd (snd (snd st)) = []" for st
    using that by (cases st) (auto simp: Q_def synth_add_def Let_def split: prod.split)
  have step: "Q (synth_step rng prices st)" if "Q st" for st
    using that by (cases st) (auto simp: Q_def synth_step_def synth_add_def Let_def split: prod.split)
  have "Q ((synth_add rng prices ^^ Suc m) (g, [], 1, []))" for m
    by (induction m) (simp_all add: add)
  then have "Q ((synth_add rng prices ^^ n_resting) (g, [], 1, []))" using n by (metis gr0_conv_Suc)
  then have "Q ((synth_step rng prices ^^ k) ((synth_add rng prices ^^ n_resting) (g, [], 1, [])))" for k
    by (induction k) (simp_all add: step)
  then show ?thesis by (fastforce simp: synth_build_def Q_def split_def)
qed

lemma synth_second_pass:
  assumes "0 < n_resting" and "n_resting + 100000 < 2 ^ 32" and "N = n_resting + 100000"
    and "BM_ApplyMixed_Synth env rng g_prices g_mix n_resting N = Some (Inr (w, idx))"
    and "order_index (fst w) 1 \<noteq> None"
  shows "\<exists>w' idx'. BM_ApplyMixed_Synth env rng g_prices g_mix n_resting (Suc N) = Some (Inr (w', idx')) \<and> \<not> consistent (fst w')"
proof -
  obtain prices where pr: "make_price_distribution rng 500 1000000 2500 g_prices = Some prices"
    using assms(4) by (auto simp: BM_ApplyMixed_Synth_def)
  let ?prices = prices
  obtain g' live next_ref ops where b: "synth_build rng ?prices n_resting 100000 g_mix = (g', live, next_ref, ops)"
    by (metis prod_cases4)
  obtain s0 rest where f: "ops = s0 # rest" "sy_op s0 = SYN_ADD"
    using first_op_add [OF assms(1), of rng ?prices 100000 g_mix] b by auto
  obtain k where k: "length ops = N" "add_refs ops = map of_nat [1..<Suc k]"
    using synth_build_inv [of n_resting 100000 rng ?prices g_mix] by (auto simp: b synth_inv_def assms(3))
  then have r0: "sy_ref s0 = 1" using f by (cases k) (simp_all add: add_refs_def upt_conv_Cons del: upt_Suc)
  have d: "distinct (add_refs ops)" using synth_refs_distinct [OF b] assms(2) by simp
  have it: "iterate (synth_body env ops) N ((bench_engine, None), 0) = Inr (w, idx)"
    using assms(4) by (simp add: BM_ApplyMixed_Synth_def Let_def pr b)
  then have p: "pass_inv ops N (w, idx)" using synth_pass [OF b assms(2), of N env] by (simp add: assms(3))
  then have w: "idx = 0" "consistent (fst w)" "orders_from ops (order_index (fst w))" "snapshot_interval (fst w) \<noteq> 0"
    using k by (simp_all add: pass_inv_def)
  obtain rec where rec: "order_index (fst w) 1 = Some rec" using assms(5) by blast
  then obtain s where s: "s \<in> set ops" "sy_op s = SYN_ADD" "sy_ref s = 1"
    "order_key rec = (1, side_of (sy_side s), Price (sy_price_raw s))"
    using w(3) unfolding orders_from_def by blast
  have "s = s0"
  proof (rule ccontr)
    assume "s \<noteq> s0"
    then have "s \<in> set rest" using s(1) f(1) by simp
    then have "1 \<in> set (add_refs rest)" using s(2,3) by (force simp: add_refs_def)
    then show False using d f r0 by (simp add: add_refs_def)
  qed
  let ?m = "make_add 1 (sy_side s0) (sy_shares s0) (sy_price_raw s0) 1"
  have "\<not> consistent (handle (AddOrder ?m) (fst w))"
    by (rule readd_inconsistent [OF w(2), where rec = rec]) (use rec s(4) \<open>s = s0\<close> in \<open>simp_all add: make_add_def\<close>)
  moreover have "synth_message (ops ! 0) = AddOrder ?m" using f r0 by (simp add: synth_message_def)
  ultimately have "\<exists>w' idx'. synth_body env ops (w, 0) = Inr (w', idx') \<and> \<not> consistent (fst w')"
    using w(4) by (auto simp: synth_body_def apply_msg_def Let_def maybe_publish_snapshot_def umod_def handle_keeps_control
        cong: consistent_cong)
  then show ?thesis using it w(1) by (simp add: BM_ApplyMixed_Synth_def Let_def pr b)
qed

end
