(* ===== verification/Bench_Replay.thy ===== *)
theory Bench_Replay
  imports Pipeline_Properties Bench_Mixed
begin

text \<open>
  \<^verbatim>\<open>bench/bench_replay.cpp\<close>, the replay of a capture without server, and the capture benchmark of
  \<^verbatim>\<open>bench/bench_mixed_workload.cpp\<close>. Timing, memory statistics and the optional histograms are not
  modelled. Opening the file is a parameter that gives the reader's state, if it succeeds.
\<close>

section \<open>The replay program\<close>

text \<open>
  \<^verbatim>\<open>std::strtoull\<close> in base 10: as \<^const>\<open>stoull\<close>, but 0 without digits and the largest value when
  the number is too large.
\<close>

definition strtoull :: "string \<Rightarrow> u64" where
  "strtoull s =
     (let r = dropWhile is_space s;
          sign = (case r of c # _ \<Rightarrow> if c = CHR ''-'' \<or> c = CHR ''+'' then [c] else [] | [] \<Rightarrow> []);
          ds = takeWhile is_digit (drop (length sign) r);
          v = digits_value ds
      in if ds = [] then 0
         else if v \<ge> 2 ^ 64 then - 1
         else if sign = ''-'' then - of_int v else of_int v)"

record ReplayStats =
  rs_parse_errors :: u64
  rs_messages :: u64
  rs_type_counts :: "u8 \<Rightarrow> u64"

definition replay_stats_init :: ReplayStats where
  "replay_stats_init = \<lparr>rs_parse_errors = 0, rs_messages = 0, rs_type_counts = (\<lambda>_. 0)\<rparr>"

definition type_byte :: "MessageBuffer \<Rightarrow> u8" where
  "type_byte buf = (case buf of [] \<Rightarrow> 0 | b # _ \<Rightarrow> b)"

text \<open>The body of the loop for one buffer.\<close>

definition replay_frame :: "(Engine \<Rightarrow> SnapEnv) \<Rightarrow> MessageBuffer \<Rightarrow> world \<times> ReplayStats \<Rightarrow>
    engine_fault + world \<times> ReplayStats" where
  "replay_frame env buf = (\<lambda>(w, rs).
     let t = type_byte buf;
         rs1 = rs\<lparr>rs_type_counts := (rs_type_counts rs)(t := rs_type_counts rs t + 1)\<rparr>
     in (case parse buf of
           Inl _ \<Rightarrow> Inr (w, rs1\<lparr>rs_parse_errors := rs_parse_errors rs1 + 1\<rparr>)
         | Inr None \<Rightarrow> Inr (w, rs1)
         | Inr (Some msg) \<Rightarrow>
             (case apply_msg env msg w of
                Inl f \<Rightarrow> Inl f
              | Inr w' \<Rightarrow> Inr (w', rs1\<lparr>rs_messages := rs_messages rs1 + 1\<rparr>))))"

partial_function (option) replay_loop ::
    "(nat \<Rightarrow> 's \<Rightarrow> read_result \<times> 's) \<Rightarrow> (Engine \<Rightarrow> SnapEnv) \<Rightarrow> 's \<Rightarrow> world \<times> ReplayStats \<Rightarrow>
     (engine_fault + feed_exn option \<times> world \<times> ReplayStats) option" where
  "replay_loop sys_read env s a =
     (case feed_next_message sys_read s of
        (r, s') \<Rightarrow>
          (case r of
             Inl e \<Rightarrow> Some (Inr (Some e, a))
           | Inr None \<Rightarrow> Some (Inr (None, a))
           | Inr (Some buf) \<Rightarrow>
               (case replay_frame env buf a of
                  Inl f \<Rightarrow> Some (Inl f)
                | Inr a' \<Rightarrow> replay_loop sys_read env s' a')))"

text \<open>\<^verbatim>\<open>main\<close>: the exit code, with the state it ends in unless the usage message was printed.\<close>

definition replay_main :: "(nat \<Rightarrow> 's \<Rightarrow> read_result \<times> 's) \<Rightarrow> (Engine \<Rightarrow> SnapEnv) \<Rightarrow> (string \<Rightarrow> 's option) \<Rightarrow>
    string list \<Rightarrow> (engine_fault + nat \<times> (world \<times> ReplayStats) option) option" where
  "replay_main sys_read env open_file args =
     (case args of
        [] \<Rightarrow> Some (Inr (2, None))
      | path # rest \<Rightarrow>
          let interval = (case rest of [] \<Rightarrow> 1000 | n # _ \<Rightarrow> strtoull n);
              w = (set_snapshot_interval interval init_engine, None)
          in (case open_file path of
                None \<Rightarrow> Some (Inr (1, Some (w, replay_stats_init)))
              | Some s \<Rightarrow>
                  (case replay_loop sys_read env s (w, replay_stats_init) of
                     None \<Rightarrow> None
                   | Some (Inl f) \<Rightarrow> Some (Inl f)
                   | Some (Inr (Some e, a)) \<Rightarrow> Some (Inr (1, Some a))
                   | Some (Inr (None, (w', rs))) \<Rightarrow> Some (Inr (0, Some (set_pipeline_complete env w', rs))))))"

section \<open>The capture benchmark\<close>

partial_function (option) load_loop ::
    "(nat \<Rightarrow> 's \<Rightarrow> read_result \<times> 's) \<Rightarrow> nat \<Rightarrow> 's \<Rightarrow> ParsedMessage list \<Rightarrow> ParsedMessage list option" where
  "load_loop sys_read max_messages s out =
     (if length out < max_messages
      then (case feed_next_message sys_read s of
              (r, s') \<Rightarrow>
                (case r of
                   Inl e \<Rightarrow> Some out
                 | Inr None \<Rightarrow> Some out
                 | Inr (Some buf) \<Rightarrow>
                     (case parse buf of
                        Inr (Some m) \<Rightarrow> load_loop sys_read max_messages s' (out @ [m])
                      | _ \<Rightarrow> load_loop sys_read max_messages s' out)))
      else Some out)"

definition load_capture :: "(nat \<Rightarrow> 's \<Rightarrow> read_result \<times> 's) \<Rightarrow> (string \<Rightarrow> 's option) \<Rightarrow> string \<Rightarrow> nat \<Rightarrow>
    ParsedMessage list option" where
  "load_capture sys_read open_file path max_messages =
     (case open_file path of None \<Rightarrow> Some [] | Some s \<Rightarrow> load_loop sys_read max_messages s [])"

definition capture_body :: "(Engine \<Rightarrow> SnapEnv) \<Rightarrow> ParsedMessage list \<Rightarrow> world \<times> nat \<Rightarrow> engine_fault + world \<times> nat" where
  "capture_body env msgs = (\<lambda>(w, idx).
     (case apply_msg env (msgs ! idx) w of
        Inl f \<Rightarrow> Inl f
      | Inr w' \<Rightarrow> Inr (w', if idx + 1 = length msgs then 0 else idx + 1)))"

text \<open>\<^const>\<open>None\<close> inside the result: the benchmark was skipped.\<close>

definition BM_ApplyMixed_Capture :: "(nat \<Rightarrow> 's \<Rightarrow> read_result \<times> 's) \<Rightarrow> (Engine \<Rightarrow> SnapEnv) \<Rightarrow>
    (string \<Rightarrow> 's option) \<Rightarrow> (string \<Rightarrow> string option) \<Rightarrow> nat \<Rightarrow> nat \<Rightarrow> (engine_fault + world \<times> nat) option option" where
  "BM_ApplyMixed_Capture sys_read env open_file getenv max_messages iters =
     (case load_capture sys_read open_file (env_var getenv ''ITCH_FILE'' ''data/12302019.NASDAQ_ITCH50'') max_messages of
        None \<Rightarrow> None
      | Some msgs \<Rightarrow>
          if msgs = [] then Some None
          else Some (Some (iterate (capture_body env msgs) iters
                 ((set_snapshot_interval (- 1) init_engine, None), 0))))"


section \<open>The loops on a regular file\<close>

interpretation replay: frame_loop sys_read "replay_loop sys_read env" "\<lambda>_. None"
  "\<lambda>buf a. case replay_frame env buf a of Inl f \<Rightarrow> Inl (Inl f) | Inr a' \<Rightarrow> Inr a'" "\<lambda>e a. Inr (e, a)"
  by unfold_locales
    (simp add: replay_loop.simps [of sys_read env] split: prod.split sum.split option.split)

interpretation capture: frame_loop sys_read "load_loop sys_read max_messages"
  "\<lambda>out. if length out < max_messages then None else Some out"
  "\<lambda>buf out. case parse buf of Inr (Some m) \<Rightarrow> Inr (out @ [m]) | _ \<Rightarrow> Inr out" "\<lambda>e out. out"
  by unfold_locales
    (simp add: load_loop.simps [of sys_read max_messages] split: prod.split sum.split option.split)

lemma load_consume:
  "length out \<le> n \<Longrightarrow>
   consume (\<lambda>out. if length out < n then None else Some out)
     (\<lambda>buf out. case parse buf of Inr (Some m) \<Rightarrow> Inr (out @ [m]) | _ \<Rightarrow> Inr out) (\<lambda>e out. out) ms e out =
   out @ take (n - length out) (parsed_messages ms)"
proof (induction ms arbitrary: out)
  case (Cons b ms)
  show ?case
  proof (cases "length out < n \<and> (\<exists>m. parse b = Inr (Some m))")
    case True
    then obtain m where m: "parse b = Inr (Some m)" "length out < n" by blast
    then obtain k where k: "n - length out = Suc k" "n - length (out @ [m]) = k" by (cases "n - length out") auto
    with m Cons.IH [of "out @ [m]"] show ?thesis by (simp add: parsed_messages_def)
  next
    case False
    then show ?thesis
      using Cons by (auto simp: parsed_messages_def split: sum.split option.split)
  qed
qed (simp add: parsed_messages_def)

text \<open>Loading a capture: the first messages of the file that parse, in order.\<close>

lemma load_capture_prefix:
  assumes "posix_read sys_read contents" and "open_file path = Some s"
  shows "load_capture sys_read open_file path n = Some (take n (parsed_messages (fst (frames_of (contents s)))))"
  using capture.loop_frames [OF assms(1), of n s "[]"] by (simp add: load_capture_def assms(2) load_consume)

text \<open>What the counters of a replay hold.\<close>

definition tally :: "MessageBuffer list \<Rightarrow> ReplayStats \<Rightarrow> ReplayStats" where
  "tally bufs rs =
     \<lparr>rs_parse_errors = rs_parse_errors rs + of_nat (length (filter (\<lambda>b. \<exists>e. parse b = Inl e) bufs)),
      rs_messages = rs_messages rs + of_nat (length (filter (\<lambda>b. \<exists>m. parse b = Inr (Some m)) bufs)),
      rs_type_counts = (\<lambda>c. rs_type_counts rs c + of_nat (count_list (map type_byte bufs) c))\<rparr>"

lemma replay_frame_process:
  "replay_frame env buf (w, rs) =
     (case process env buf w of Inl f \<Rightarrow> Inl f | Inr w' \<Rightarrow> Inr (w', tally [buf] rs))"
  by (cases "parse buf") (auto simp: replay_frame_def process_def tally_def Let_def fun_eq_iff split: sum.split option.split)

lemma tally_Cons: "tally (b # bs) rs = tally bs (tally [b] rs)"
  by (simp add: tally_def fun_eq_iff)

lemma replay_consume:
  "consume (\<lambda>_. None) (\<lambda>buf a. case replay_frame env buf a of Inl f \<Rightarrow> Inl (Inl f) | Inr a' \<Rightarrow> Inr a')
     (\<lambda>e a. Inr (e, a)) ms e (w, rs) =
   (case process_all env ms w of Inl f \<Rightarrow> Inl f | Inr w' \<Rightarrow> Inr (e, w', tally ms rs))"
proof (induction ms arbitrary: w rs)
  case Nil
  then show ?case by (simp add: tally_def)
next
  case (Cons b ms)
  then show ?case by (cases "process env b w") (simp_all add: replay_frame_process tally_Cons [of b ms] split: sum.split)
qed

lemma replay_loop_frames:
  assumes "posix_read sys_read contents"
  shows "replay_loop sys_read env s (w, rs) = Some
     (case process_all env (fst (frames_of (contents s))) w of
        Inl f \<Rightarrow> Inl f
      | Inr w' \<Rightarrow> Inr (snd (frames_of (contents s)), w', tally (fst (frames_of (contents s))) rs))"
  using replay.loop_frames [OF assms] by (simp only: replay_consume)

section \<open>Property\<close>

text \<open>
  (C29) The replay benchmark does the work of file mode: on a regular file and with an interval
  other than 0 it terminates with the exit code, the engine and the published snapshot of \<^verbatim>\<open>main\<close>,
  and its counters hold, for the frames it read, the number of messages applied, the number of
  buffers that did not parse, and for every type byte the number of frames of that type.
\<close>

theorem replay_bench_like_main:
  assumes "posix_read sys_read contents" and "open_file path = Some s"
    and "interval = (case rest of [] \<Rightarrow> 1000 | n # _ \<Rightarrow> strtoull n)" and "interval \<noteq> 0"
    and "cf_snapshot_interval cf = interval" and "bufs = fst (frames_of (contents s))"
  shows "\<exists>code w rs. replay_main sys_read env open_file (path # rest) = Some (Inr (code, Some (w, rs))) \<and>
    run_file sys_read env cf (Some s) = Some (Inr (code, w)) \<and>
    rs_messages rs = of_nat (length (parsed_messages bufs)) \<and>
    rs_parse_errors rs = of_nat (length (filter (\<lambda>b. \<exists>e. parse b = Inl e) bufs)) \<and>
    (\<forall>c. rs_type_counts rs c = of_nat (count_list (map type_byte bufs) c))"
proof -
  let ?w = "(set_snapshot_interval interval init_engine, None)"
  obtain w' where w: "process_all env bufs ?w = Inr w'"
    using process_all_ok [of ?w env bufs] assms(4) by (auto simp: set_snapshot_interval_def)
  have m: "length (filter (\<lambda>b. \<exists>m. parse b = Inr (Some m)) bs) = length (parsed_messages bs)" for bs
    by (induction bs) (auto simp: parsed_messages_def split: sum.split option.split)
  have r: "replay_loop sys_read env s (?w, replay_stats_init) =
      Some (Inr (snd (frames_of (contents s)), w', tally bufs replay_stats_init))"
    using replay_loop_frames [OF assms(1), of env s ?w replay_stats_init] w by (simp add: assms(6))
  have f: "file_loop sys_read env s ?w = Some (Inr (snd (frames_of (contents s)), w'))"
    using file_loop_frames [OF assms(1), of env s ?w] w by (simp add: assms(6))
  let ?rs = "tally bufs replay_stats_init"
  define code :: nat where "code = (case snd (frames_of (contents s)) of None \<Rightarrow> 0 | Some _ \<Rightarrow> 1)"
  define w2 where "w2 = (case snd (frames_of (contents s)) of None \<Rightarrow> set_pipeline_complete env w' | Some _ \<Rightarrow> w')"
  have "replay_main sys_read env open_file (path # rest) = Some (Inr (code, Some (w2, ?rs)))"
    using r unfolding replay_main_def list.case assms(3) [symmetric] Let_def assms(2) option.case
    by (cases "snd (frames_of (contents s))") (simp_all add: code_def w2_def)
  moreover have "run_file sys_read env cf (Some s) = Some (Inr (code, w2))"
    using f unfolding run_file_def Let_def assms(5) option.case
    by (cases "snd (frames_of (contents s))") (simp_all add: code_def w2_def)
  moreover have "rs_messages ?rs = of_nat (length (parsed_messages bufs))"
    "rs_parse_errors ?rs = of_nat (length (filter (\<lambda>b. \<exists>e. parse b = Inl e) bufs))"
    "\<forall>c. rs_type_counts ?rs c = of_nat (count_list (map type_byte bufs) c)"
    by (simp_all add: tally_def replay_stats_init_def m)
  ultimately show ?thesis by blast
qed

text \<open>The file of one unknown frame, without a second argument.\<close>

theorem replay_bench_like_main_witness:
  "\<exists>code w rs. replay_main (chunk_read 1) one_bid_env (\<lambda>p. Some [0, 1, 90]) [''capture''] =
      Some (Inr (code, Some (w, rs))) \<and>
    run_file (chunk_read 1) one_bid_env sample_config (Some [0, 1, 90]) = Some (Inr (code, w)) \<and>
    rs_messages rs = 0 \<and> rs_type_counts rs 90 = 1"
proof -
  have "next_frame [0, 1, 90] = (Inr (Some [90]), [])" "next_frame [] = (Inr None, [])" by code_simp+
  then have f: "frames_of (id [0, 1, 90]) = ([[90]], None)"
    by (simp add: frames_of.simps [of "[0, 1, 90]"] frames_of.simps [of "[]"])
  have p: "parse [90] = Inr None" by code_simp
  show ?thesis
    using replay_bench_like_main [OF posix_chunk_read [of 1], of "\<lambda>p. Some [0, 1, 90]" "''capture''" "[0, 1, 90]"
        1000 "[]" sample_config "[[90]]" one_bid_env] f
    by (auto simp: sample_config_interval parsed_messages_def p type_byte_def simp del: split_paired_Ex)
qed

end
