(* ===== verification/Bench_Profile.thy ===== *)
theory Bench_Profile
  imports Bench_Replay
begin

text \<open>
  \<^verbatim>\<open>bench/hdr_recorder.h\<close> and the profiled build of \<^verbatim>\<open>bench/bench_replay.cpp\<close>. The histogram library is
  a parameter: a record of the functions the source calls; \<open>hdr_documented\<close> says of them what the
  recorder relies on, that a value within the range of a histogram adds one to its total count and
  a larger one adds one or is dropped. The clock is a parameter of which nothing is assumed.
\<close>

section \<open>The recorder\<close>

text \<open>\<^const>\<open>None\<close> as a histogram is the null pointer that remains when \<^verbatim>\<open>hdr_init\<close> fails.\<close>

record 'h hdr_api =
  hdr_init :: "int \<Rightarrow> int \<Rightarrow> int \<Rightarrow> 'h option"
  hdr_record_value :: "'h \<Rightarrow> int \<Rightarrow> 'h"
  hdr_total_count :: "'h \<Rightarrow> nat"
  hdr_min :: "'h \<Rightarrow> int"
  hdr_value_at_percentile :: "'h \<Rightarrow> rat \<Rightarrow> int"
  hdr_max :: "'h \<Rightarrow> int"
  hdr_mean :: "'h \<Rightarrow> rat"
  hdr_stddev :: "'h \<Rightarrow> rat"

record 'h HdrRecorder =
  h_parse :: "'h option"
  h_apply :: "'h option"
  h_snapshot :: "'h option"
  hr_enabled :: bool

definition hdr_construct :: "'h hdr_api \<Rightarrow> 'h HdrRecorder" where
  "hdr_construct api =
     \<lparr>h_parse = hdr_init api 1 60000000000 3, h_apply = hdr_init api 1 60000000000 3,
      h_snapshot = hdr_init api 1 60000000000 3, hr_enabled = False\<rparr>"

text \<open>The histograms that the destructor closes.\<close>

definition hdr_destroy :: "'h HdrRecorder \<Rightarrow> 'h list" where
  "hdr_destroy r = List.map_filter id [h_parse r, h_apply r, h_snapshot r]"

definition hdr_enable :: "'h HdrRecorder \<Rightarrow> 'h HdrRecorder" where
  "hdr_enable r = r\<lparr>hr_enabled := True\<rparr>"

definition hdr_enabled :: "'h HdrRecorder \<Rightarrow> bool" where
  "hdr_enabled r = hr_enabled r"

text \<open>Recording into the null pointer is a fault (\<^const>\<open>None\<close>).\<close>

definition record_into :: "'h hdr_api \<Rightarrow> bool \<Rightarrow> int \<Rightarrow> 'h option \<Rightarrow> 'h option option" where
  "record_into api on ns h =
     (if on \<and> ns > 0 then (case h of None \<Rightarrow> None | Some h' \<Rightarrow> Some (Some (hdr_record_value api h' ns)))
      else Some h)"

definition record_parse :: "'h hdr_api \<Rightarrow> int \<Rightarrow> 'h HdrRecorder \<Rightarrow> 'h HdrRecorder option" where
  "record_parse api ns r = map_option (\<lambda>h. r\<lparr>h_parse := h\<rparr>) (record_into api (hr_enabled r) ns (h_parse r))"

definition record_apply :: "'h hdr_api \<Rightarrow> int \<Rightarrow> 'h HdrRecorder \<Rightarrow> 'h HdrRecorder option" where
  "record_apply api ns r = map_option (\<lambda>h. r\<lparr>h_apply := h\<rparr>) (record_into api (hr_enabled r) ns (h_apply r))"

definition record_snapshot :: "'h hdr_api \<Rightarrow> int \<Rightarrow> 'h HdrRecorder \<Rightarrow> 'h HdrRecorder option" where
  "record_snapshot api ns r = map_option (\<lambda>h. r\<lparr>h_snapshot := h\<rparr>) (record_into api (hr_enabled r) ns (h_snapshot r))"

text \<open>
  The row of a file of the dump: its path and its fields. A file that cannot be opened is skipped,
  \<^verbatim>\<open>opens\<close> says which can; a null histogram is dereferenced (\<^const>\<open>None\<close>).
\<close>

record CsvRow =
  csv_path :: string
  csv_stage :: string
  csv_count :: nat
  csv_ns :: "int list"
  csv_stats :: "rat list"

definition dump_one :: "'h hdr_api \<Rightarrow> (string \<Rightarrow> bool) \<Rightarrow> 'h option \<Rightarrow> string \<Rightarrow> string \<Rightarrow> CsvRow list option" where
  "dump_one api opens hist path label =
     (if \<not> opens path then Some []
      else map_option (\<lambda>h. [\<lparr>csv_path = path, csv_stage = label, csv_count = hdr_total_count api h,
        csv_ns = [hdr_min api h, hdr_value_at_percentile api h 50, hdr_value_at_percentile api h 90,
          hdr_value_at_percentile api h 99, hdr_value_at_percentile api h (999 / 10),
          hdr_value_at_percentile api h (9999 / 100), hdr_max api h],
        csv_stats = [hdr_mean api h, hdr_stddev api h]\<rparr>]) hist)"

definition dump_csvs :: "'h hdr_api \<Rightarrow> (string \<Rightarrow> bool) \<Rightarrow> string \<Rightarrow> 'h HdrRecorder \<Rightarrow> CsvRow list option" where
  "dump_csvs api opens dir r =
     (if \<not> hr_enabled r then Some []
      else do {
        rows1 \<leftarrow> dump_one api opens (h_parse r) (dir @ ''/hist_parse.csv'') ''parse'';
        rows2 \<leftarrow> dump_one api opens (h_apply r) (dir @ ''/hist_apply.csv'') ''apply'';
        rows3 \<leftarrow> dump_one api opens (h_snapshot r) (dir @ ''/hist_snapshot.csv'') ''snapshot'';
        Some (rows1 @ rows2 @ rows3)
      })"

section \<open>The profiled loop\<close>

datatype profile_fault = EngineFault engine_fault | NullHistogram

record ('h, 'c) Profile =
  pf_recorder :: "'h HdrRecorder"
  pf_clock :: 'c

definition read_clock :: "('c \<Rightarrow> u64 \<times> 'c) \<Rightarrow> bool \<Rightarrow> ('h, 'c) Profile \<Rightarrow> u64 \<times> ('h, 'c) Profile" where
  "read_clock now_ns profile p =
     (if profile then let (t, c) = now_ns (pf_clock p) in (t, p\<lparr>pf_clock := c\<rparr>) else (0, p))"

text \<open>
  Recording the time since \<open>start\<close> with one of the record functions; the difference of two unsigned
  readings becomes a signed number.
\<close>

definition record_since :: "('c \<Rightarrow> u64 \<times> 'c) \<Rightarrow> bool \<Rightarrow> (int \<Rightarrow> 'h HdrRecorder \<Rightarrow> 'h HdrRecorder option) \<Rightarrow>
    u64 \<Rightarrow> ('h, 'c) Profile \<Rightarrow> ('h, 'c) Profile option" where
  "record_since now_ns profile rec_fun start p =
     (if profile
      then let (t, p1) = read_clock now_ns True p
           in map_option (\<lambda>r. p1\<lparr>pf_recorder := r\<rparr>) (rec_fun (sint (t - start)) (pf_recorder p1))
      else Some p)"

definition profiled_frame :: "'h hdr_api \<Rightarrow> ('c \<Rightarrow> u64 \<times> 'c) \<Rightarrow> bool \<Rightarrow> (Engine \<Rightarrow> SnapEnv) \<Rightarrow> MessageBuffer \<Rightarrow>
    (world \<times> ReplayStats) \<times> ('h, 'c) Profile \<Rightarrow> profile_fault + (world \<times> ReplayStats) \<times> ('h, 'c) Profile" where
  "profiled_frame api now_ns profile env buf = (\<lambda>((w, rs), p0).
     let t = type_byte buf;
         rs1 = rs\<lparr>rs_type_counts := (rs_type_counts rs)(t := rs_type_counts rs t + 1)\<rparr>;
         (t_parse_start, p1) = read_clock now_ns profile p0
     in (case parse buf of
           Inl _ \<Rightarrow> Inr ((w, rs1\<lparr>rs_parse_errors := rs_parse_errors rs1 + 1\<rparr>), p1)
         | Inr msg \<Rightarrow>
             (case record_since now_ns profile (record_parse api) t_parse_start p1 of
                None \<Rightarrow> Inl NullHistogram
              | Some p2 \<Rightarrow>
                  (case msg of
                     None \<Rightarrow> Inr ((w, rs1), p2)
                   | Some m \<Rightarrow>
                       let (t_apply_start, p3) = read_clock now_ns profile p2
                       in (case apply_msg env m w of
                             Inl f \<Rightarrow> Inl (EngineFault f)
                           | Inr w' \<Rightarrow>
                               (case record_since now_ns profile (record_apply api) t_apply_start p3 of
                                  None \<Rightarrow> Inl NullHistogram
                                | Some p4 \<Rightarrow> Inr ((w', rs1\<lparr>rs_messages := rs_messages rs1 + 1\<rparr>), p4)))))))"

partial_function (option) profiled_loop ::
    "(nat \<Rightarrow> 's \<Rightarrow> read_result \<times> 's) \<Rightarrow> 'h hdr_api \<Rightarrow> ('c \<Rightarrow> u64 \<times> 'c) \<Rightarrow> bool \<Rightarrow> (Engine \<Rightarrow> SnapEnv) \<Rightarrow> 's \<Rightarrow>
     (world \<times> ReplayStats) \<times> ('h, 'c) Profile \<Rightarrow>
     (profile_fault + feed_exn option \<times> (world \<times> ReplayStats) \<times> ('h, 'c) Profile) option" where
  "profiled_loop sys_read api now_ns profile env s a =
     (case feed_next_message sys_read s of
        (r, s') \<Rightarrow>
          (case r of
             Inl e \<Rightarrow> Some (Inr (Some e, a))
           | Inr None \<Rightarrow> Some (Inr (None, a))
           | Inr (Some buf) \<Rightarrow>
               (case profiled_frame api now_ns profile env buf a of
                  Inl f \<Rightarrow> Some (Inl f)
                | Inr a' \<Rightarrow> profiled_loop sys_read api now_ns profile env s' a')))"

interpretation profiled: frame_loop sys_read "profiled_loop sys_read api now_ns profile env" "\<lambda>_. None"
  "\<lambda>buf a. case profiled_frame api now_ns profile env buf a of Inl f \<Rightarrow> Inl (Inl f) | Inr a' \<Rightarrow> Inr a'" "\<lambda>e a. Inr (e, a)"
  by unfold_locales
    (simp add: profiled_loop.simps [of sys_read api now_ns profile env] split: prod.split sum.split option.split)

text \<open>Without the environment variable the loop body is that of the plain replay.\<close>

lemma profile_off:
  "profiled_frame api now_ns False env buf (a, p) =
     (case replay_frame env buf a of Inl f \<Rightarrow> Inl (EngineFault f) | Inr a' \<Rightarrow> Inr (a', p))"
  by (cases a) (auto simp: profiled_frame_def replay_frame_def read_clock_def record_since_def Let_def
      split: sum.split option.split)

text \<open>Each histogram that was created is closed once.\<close>

lemma hdr_destroy_construct:
  "length (hdr_destroy (hdr_construct api)) = (if hdr_init api 1 60000000000 3 = None then 0 else 3)"
  by (auto simp: hdr_destroy_def hdr_construct_def List.map_filter_def)

section \<open>What the histograms hold\<close>

definition hdr_documented :: "'h hdr_api \<Rightarrow> bool" where
  "hdr_documented api \<longleftrightarrow>
     (\<exists>h. hdr_init api 1 60000000000 3 = Some h \<and> hdr_total_count api h = 0) \<and>
     (\<forall>h v. 1 \<le> v \<longrightarrow> v \<le> 60000000000 \<longrightarrow> hdr_total_count api (hdr_record_value api h v) = Suc (hdr_total_count api h)) \<and>
     (\<forall>h v. 60000000000 < v \<longrightarrow>
        hdr_total_count api (hdr_record_value api h v) \<in> {hdr_total_count api h, Suc (hdr_total_count api h)})"

text \<open>
  What the clock measures in the profiled loop: for a frame, the parse and the apply durations (at
  most one of each) and the clock after it, and for a list of frames all durations in order. A
  duration is the difference of two unsigned readings read as a signed number.
\<close>

definition frame_timing :: "('c \<Rightarrow> u64 \<times> 'c) \<Rightarrow> MessageBuffer \<Rightarrow> 'c \<Rightarrow> int list \<times> int list \<times> 'c" where
  "frame_timing now_ns b c =
     (let (t0, c0) = now_ns c
      in (case parse b of
            Inl _ \<Rightarrow> ([], [], c0)
          | Inr msg \<Rightarrow>
              let (t1, c1) = now_ns c0
              in (case msg of
                    None \<Rightarrow> ([sint (t1 - t0)], [], c1)
                  | Some m \<Rightarrow>
                      let (t2, c2) = now_ns c1; (t3, c3) = now_ns c2
                      in ([sint (t1 - t0)], [sint (t3 - t2)], c3))))"

fun timings :: "('c \<Rightarrow> u64 \<times> 'c) \<Rightarrow> MessageBuffer list \<Rightarrow> 'c \<Rightarrow> int list \<times> int list" where
  "timings now_ns [] c = ([], [])"
| "timings now_ns (b # bs) c =
     (let (ps, as, c') = frame_timing now_ns b c; (ps', as') = timings now_ns bs c' in (ps @ ps', as @ as'))"

text \<open>
  A histogram has an entry for every duration of 1 ns to 60 s, none for a duration of 0 (two equal
  readings) or less, and may have one for a duration of more than 60 s.
\<close>

definition covers :: "nat \<Rightarrow> int list \<Rightarrow> bool" where
  "covers n ds \<longleftrightarrow>
     length (filter (\<lambda>d. 1 \<le> d \<and> d \<le> 60000000000) ds) \<le> n \<and> n \<le> length (filter (\<lambda>d. 1 \<le> d) ds)"

lemma covers_Nil [simp]: "covers n [] \<longleftrightarrow> n = 0"
  by (simp add: covers_def)

lemma covers_append: "covers n ds \<Longrightarrow> covers n' ds' \<Longrightarrow> covers (n + n') (ds @ ds')"
  by (simp add: covers_def)

definition holds_count :: "'h hdr_api \<Rightarrow> 'h option \<Rightarrow> nat \<Rightarrow> bool" where
  "holds_count api h n \<longleftrightarrow> (\<exists>h'. h = Some h' \<and> hdr_total_count api h' = n)"

definition counts :: "'h hdr_api \<Rightarrow> ('h, 'c) Profile \<Rightarrow> nat \<Rightarrow> nat \<Rightarrow> nat \<Rightarrow> bool" where
  "counts api p np na ns \<longleftrightarrow> hr_enabled (pf_recorder p) \<and> holds_count api (h_parse (pf_recorder p)) np \<and>
     holds_count api (h_apply (pf_recorder p)) na \<and> holds_count api (h_snapshot (pf_recorder p)) ns"

lemma counts_clock [simp]: "counts api (p\<lparr>pf_clock := c\<rparr>) np na ns = counts api p np na ns"
  by (simp add: counts_def)

lemma record_into_count:
  assumes "hdr_documented api" and "holds_count api h n"
  shows "\<exists>h' k. record_into api True ns h = Some h' \<and> holds_count api h' (n + k) \<and> covers k [ns]"
proof -
  obtain h1 where h1: "h = Some h1" "hdr_total_count api h1 = n" using assms(2) by (auto simp: holds_count_def)
  define k where "k = (if ns > 0 then hdr_total_count api (hdr_record_value api h1 ns) - n else 0)"
  have "ns > 0 \<Longrightarrow> hdr_total_count api (hdr_record_value api h1 ns) \<in> {n, Suc n}"
    using assms(1) h1(2) unfolding hdr_documented_def by (metis insertI1 insertI2 int_one_le_iff_zero_less not_le)
  moreover have "ns > 0 \<Longrightarrow> ns \<le> 60000000000 \<Longrightarrow> hdr_total_count api (hdr_record_value api h1 ns) = Suc n"
    using assms(1) h1(2) unfolding hdr_documented_def by (metis int_one_le_iff_zero_less)
  ultimately show ?thesis
    using h1 by (intro exI [of _ "if ns > 0 then Some (hdr_record_value api h1 ns) else h"] exI [of _ k])
      (auto simp: record_into_def holds_count_def covers_def k_def)
qed

text \<open>A reading of the clock followed by a recording.\<close>

lemma timed_recording:
  assumes "hdr_documented api" and "counts api p np na ns" and "now_ns (pf_clock p) = (t', c)"
  shows "\<exists>p' k. record_since now_ns True (record_parse api) t p = Some p' \<and> counts api p' (np + k) na ns \<and>
      covers k [sint (t' - t)] \<and> pf_clock p' = c"
    and "\<exists>p' k. record_since now_ns True (record_apply api) t p = Some p' \<and> counts api p' np (na + k) ns \<and>
      covers k [sint (t' - t)] \<and> pf_clock p' = c"
proof -
  have r: "read_clock now_ns True p = (t', p\<lparr>pf_clock := c\<rparr>)" by (simp add: read_clock_def assms(3))
  have h: "hr_enabled (pf_recorder p)" "holds_count api (h_parse (pf_recorder p)) np"
    "holds_count api (h_apply (pf_recorder p)) na" "holds_count api (h_snapshot (pf_recorder p)) ns"
    using assms(2) by (simp_all add: counts_def)
  show "\<exists>p' k. record_since now_ns True (record_parse api) t p = Some p' \<and> counts api p' (np + k) na ns \<and>
      covers k [sint (t' - t)] \<and> pf_clock p' = c"
    using record_into_count [OF assms(1) h(2), of "sint (t' - t)"] h
    by (auto simp: record_since_def r record_parse_def counts_def)
  show "\<exists>p' k. record_since now_ns True (record_apply api) t p = Some p' \<and> counts api p' np (na + k) ns \<and>
      covers k [sint (t' - t)] \<and> pf_clock p' = c"
    using record_into_count [OF assms(1) h(3), of "sint (t' - t)"] h
    by (auto simp: record_since_def r record_apply_def counts_def)
qed

lemma profiled_frame_ok:
  assumes "hdr_documented api" and "counts api p np na ns" and "replay_frame env buf a = Inr a'"
    and "frame_timing now_ns buf (pf_clock p) = (ps, as, c)"
  shows "\<exists>p' k j. profiled_frame api now_ns True env buf (a, p) = Inr (a', p') \<and>
    counts api p' (np + k) (na + j) ns \<and> covers k ps \<and> covers j as \<and> pf_clock p' = c"
proof -
  obtain w rs where a: "a = (w, rs)" by fastforce
  obtain t0 c0 where c0: "now_ns (pf_clock p) = (t0, c0)" by fastforce
  define p1 where "p1 = p\<lparr>pf_clock := c0\<rparr>"
  have p1: "read_clock now_ns True p = (t0, p1)" "counts api p1 np na ns" "pf_clock p1 = c0"
    using assms(2) by (simp_all add: read_clock_def c0 p1_def)
  note defs = profiled_frame_def replay_frame_def frame_timing_def a p1(1) c0 Let_def
  show ?thesis
  proof (cases "parse buf")
    case (Inl e)
    then show ?thesis
      using assms(3,4) p1 by (intro exI [of _ p1] exI [of _ 0]) (auto simp: defs)
  next
    case (Inr msg)
    obtain t1 c1 where c1: "now_ns (pf_clock p1) = (t1, c1)" by fastforce
    obtain p2 k where p2: "record_since now_ns True (record_parse api) t0 p1 = Some p2" "counts api p2 (np + k) na ns"
      "covers k [sint (t1 - t0)]" "pf_clock p2 = c1" using timed_recording(1) [where t = t0 and now_ns = now_ns, OF assms(1) p1(2) c1] by blast
    show ?thesis
    proof (cases msg)
      case None
      then show ?thesis
        using assms(3,4) p1(3) p2 c1 Inr by (intro exI [of _ p2] exI [of _ k] exI [of _ 0]) (auto simp: defs)
    next
      case (Some m)
      obtain t2 c2 where c2: "now_ns c1 = (t2, c2)" by fastforce
      define p3 where "p3 = p2\<lparr>pf_clock := c2\<rparr>"
      have p3: "read_clock now_ns True p2 = (t2, p3)" "counts api p3 (np + k) na ns" "pf_clock p3 = c2"
        using p2 by (simp_all add: read_clock_def c2 p3_def)
      obtain t3 c3 where c3: "now_ns (pf_clock p3) = (t3, c3)" by fastforce
      obtain p4 j where p4: "record_since now_ns True (record_apply api) t2 p3 = Some p4"
        "counts api p4 (np + k) (na + j) ns" "covers j [sint (t3 - t2)]" "pf_clock p4 = c3"
        using timed_recording(2) [where t = t2 and now_ns = now_ns, OF assms(1) p3(2) c3] by blast
      show ?thesis
        using assms(3,4) p1(3) p2 p3(1,3) p4 c1 c2 c3 Inr Some
        by (intro exI [of _ p4] exI [of _ k] exI [of _ j]) (auto simp: defs split: sum.splits)
    qed
  qed
qed

lemma parsed_messages_Cons: "parsed_messages (b # bs) = parsed_messages [b] @ parsed_messages bs"
  using parsed_messages_append [of "[b]" bs] by simp

lemma frame_timing_length:
  "frame_timing now_ns b c = (ps, as, c') \<Longrightarrow>
     length ps = length (filter (\<lambda>b. \<exists>m. parse b = Inr m) [b]) \<and> length as = length (parsed_messages [b])"
  by (auto simp: frame_timing_def parsed_messages_def Let_def split: sum.splits option.splits prod.splits)

lemma timings_length:
  "timings now_ns bs c = (ps, as) \<Longrightarrow>
     length ps = length (filter (\<lambda>b. \<exists>m. parse b = Inr m) bs) \<and> length as = length (parsed_messages bs)"
proof (induction bs arbitrary: c ps as)
  case Nil
  then show ?case by (simp add: parsed_messages_def)
next
  case (Cons b bs)
  obtain ps1 as1 c1 where f: "frame_timing now_ns b c = (ps1, as1, c1)" by (metis prod_cases3)
  obtain ps2 as2 where t: "timings now_ns bs c1 = (ps2, as2)" by fastforce
  show ?case
    using Cons.prems frame_timing_length [OF f] Cons.IH [OF t]
    by (simp add: f t parsed_messages_Cons [of b bs]) auto
qed

lemma profiled_consume:
  assumes "hdr_documented api" and "counts api p np na ns" and "process_all env ms w = Inr w'"
    and "timings now_ns ms (pf_clock p) = (ps, as)"
  shows "\<exists>p' k j. consume (\<lambda>_. None)
      (\<lambda>buf a. case profiled_frame api now_ns True env buf a of Inl f \<Rightarrow> Inl (Inl f) | Inr a' \<Rightarrow> Inr a')
      (\<lambda>e a. Inr (e, a)) ms e ((w, rs), p) = Inr (e, (w', tally ms rs), p') \<and>
    counts api p' (np + k) (na + j) ns \<and> covers k ps \<and> covers j as"
  using assms(2-4)
proof (induction ms arbitrary: w rs p np na ps as)
  case Nil
  then show ?case by (intro exI [of _ p] exI [of _ 0]) (auto simp: tally_def)
next
  case (Cons b ms)
  obtain w1 where w1: "process env b w = Inr w1" "process_all env ms w1 = Inr w'"
    using Cons.prems(2) by (auto split: sum.splits)
  obtain ps1 as1 c1 where f: "frame_timing now_ns b (pf_clock p) = (ps1, as1, c1)" by (metis prod_cases3)
  obtain ps2 as2 where t: "timings now_ns ms c1 = (ps2, as2)" by fastforce
  have "replay_frame env b (w, rs) = Inr (w1, tally [b] rs)" using w1 by (simp add: replay_frame_process)
  from profiled_frame_ok [OF assms(1) Cons.prems(1) this f]
  obtain p1 k j where p1: "profiled_frame api now_ns True env b ((w, rs), p) = Inr ((w1, tally [b] rs), p1)"
    "counts api p1 (np + k) (na + j) ns" "covers k ps1" "covers j as1" "pf_clock p1 = c1" by blast
  from Cons.IH [OF p1(2) w1(2), of ps2 as2 "tally [b] rs"] t p1(5)
  obtain p' k' j' where p': "consume (\<lambda>_. None)
      (\<lambda>buf a. case profiled_frame api now_ns True env buf a of Inl f \<Rightarrow> Inl (Inl f) | Inr a' \<Rightarrow> Inr a')
      (\<lambda>e a. Inr (e, a)) ms e ((w1, tally [b] rs), p1) = Inr (e, (w', tally ms (tally [b] rs)), p')"
    "counts api p' (np + k + k') (na + j + j') ns" "covers k' ps2" "covers j' as2" by auto
  have "ps = ps1 @ ps2" "as = as1 @ as2" using Cons.prems(3) by (simp_all add: f t)
  then show ?case
    using p' p1(1) covers_append [OF p1(3) p'(3)] covers_append [OF p1(4) p'(4)]
    by (intro exI [of _ p'] exI [of _ "k + k'"] exI [of _ "j + j'"]) (simp add: tally_Cons [of b ms] add.assoc)
qed

lemma counts_start:
  assumes "hdr_documented api"
  shows "counts api \<lparr>pf_recorder = hdr_enable (hdr_construct api), pf_clock = c\<rparr> 0 0 0"
  using assms by (auto simp: counts_def hdr_enable_def hdr_construct_def holds_count_def hdr_documented_def)

section \<open>Property\<close>

text \<open>
  (C30) Profiling changes nothing, and what its histograms hold, for any clock: on a regular file and
  with an interval other than 0 the profiled replay ends with the same exit, engine, snapshot and
  statistics as the plain one. The clock takes one parse duration per frame that the parser did not
  reject and one apply duration per message applied; each histogram of the dump has one entry for
  every such duration of 1 ns to 60 s, none for one of 0 (two equal readings) or less, and possibly
  one for one of more than 60 s. The snapshot histogram is empty, as nothing ever records into it.
  All files of the dump can be opened.
\<close>

theorem profiled_replay_exact:
  assumes "posix_read sys_read contents" and "hdr_documented api" and "interval \<noteq> 0"
    and "w0 = (set_snapshot_interval interval init_engine, None)" and "bufs = fst (frames_of (contents s))"
    and "p0 = \<lparr>pf_recorder = hdr_enable (hdr_construct api), pf_clock = c\<rparr>"
    and "(parse_times, apply_times) = timings now_ns bufs c"
    and "in_range = (\<lambda>ds. length (filter (\<lambda>d. 1 \<le> d \<and> d \<le> 60000000000) ds))"
    and "positive = (\<lambda>ds. length (filter (\<lambda>d. 1 \<le> d) ds))"
  shows "length parse_times = length (filter (\<lambda>b. \<exists>m. parse b = Inr m) bufs) \<and>
    length apply_times = length (parsed_messages bufs) \<and>
    (\<exists>e a p np na. profiled_loop sys_read api now_ns True env s ((w0, replay_stats_init), p0) = Some (Inr (e, a, p)) \<and>
      replay_loop sys_read env s (w0, replay_stats_init) = Some (Inr (e, a)) \<and>
      map_option (map csv_count) (dump_csvs api (\<lambda>_. True) dir (pf_recorder p)) = Some [np, na, 0] \<and>
      in_range parse_times \<le> np \<and> np \<le> positive parse_times \<and>
      in_range apply_times \<le> na \<and> na \<le> positive apply_times)"
proof -
  let ?e = "snd (frames_of (contents s))"
  obtain w' where w: "process_all env bufs w0 = Inr w'"
    using process_all_ok [of w0 env bufs] assms(3) by (auto simp: assms(4) set_snapshot_interval_def)
  have t: "timings now_ns bufs (pf_clock p0) = (parse_times, apply_times)" using assms(6,7) by simp
  have "counts api p0 0 0 0" unfolding assms(6) by (rule counts_start [OF assms(2)])
  from profiled_consume [OF assms(2) this w t, of ?e replay_stats_init]
  obtain p k j where p: "consume (\<lambda>_. None)
      (\<lambda>buf a. case profiled_frame api now_ns True env buf a of Inl f \<Rightarrow> Inl (Inl f) | Inr a' \<Rightarrow> Inr a')
      (\<lambda>e a. Inr (e, a)) bufs ?e ((w0, replay_stats_init), p0) = Inr (?e, (w', tally bufs replay_stats_init), p)"
    "counts api p k j 0" "covers k parse_times" "covers j apply_times" by auto
  have "profiled_loop sys_read api now_ns True env s ((w0, replay_stats_init), p0) =
      Some (Inr (?e, (w', tally bufs replay_stats_init), p))"
    using profiled.loop_frames [OF assms(1), of api now_ns True env s "((w0, replay_stats_init), p0)"] p(1)
    by (simp add: assms(5))
  moreover have "replay_loop sys_read env s (w0, replay_stats_init) = Some (Inr (?e, w', tally bufs replay_stats_init))"
    using replay_loop_frames [OF assms(1), of env s w0 replay_stats_init] w by (simp add: assms(5))
  moreover have "map_option (map csv_count) (dump_csvs api (\<lambda>_. True) dir (pf_recorder p)) = Some [k, j, 0]"
    using p(2) by (auto simp: counts_def holds_count_def dump_csvs_def dump_one_def)
  moreover have "in_range parse_times \<le> k \<and> k \<le> positive parse_times \<and> in_range apply_times \<le> j \<and> j \<le> positive apply_times"
    using p(3,4) by (simp add: assms(8,9) covers_def)
  ultimately show ?thesis
    using timings_length [OF t]
    by (intro conjI exI [of _ ?e] exI [of _ "(w', tally bufs replay_stats_init)"] exI [of _ p] exI [of _ k] exI [of _ j]) auto
qed

text \<open>
  A library that keeps the values in a list, with the values beyond its range dropped, and a clock
  that ticks once per reading.
\<close>

definition list_hdr :: "int list hdr_api" where
  "list_hdr = \<lparr>hdr_init = (\<lambda>_ _ _. Some []), hdr_record_value = (\<lambda>h v. if v \<le> 60000000000 then v # h else h), hdr_total_count = length,
     hdr_min = (\<lambda>h. if h = [] then 0 else Min (set h)), hdr_value_at_percentile = (\<lambda>h q. 0),
     hdr_max = (\<lambda>h. if h = [] then 0 else Max (set h)), hdr_mean = (\<lambda>h. 0), hdr_stddev = (\<lambda>h. 0)\<rparr>"

definition tick :: "u64 \<Rightarrow> u64 \<times> u64" where
  "tick c = (c, c + 1)"

lemma list_hdr_documented: "hdr_documented list_hdr"
  by (simp add: hdr_documented_def list_hdr_def)

theorem profiled_replay_exact_witness:
  "\<exists>e a p. profiled_loop (chunk_read 1) list_hdr tick True one_bid_env [0, 1, 90]
      (((set_snapshot_interval 1000 init_engine, None), replay_stats_init),
       \<lparr>pf_recorder = hdr_enable (hdr_construct list_hdr), pf_clock = 5\<rparr>) = Some (Inr (e, a, p)) \<and>
    map_option (map csv_count) (dump_csvs list_hdr (\<lambda>_. True) ''bench/out'' (pf_recorder p)) = Some [1, 0, 0]"
proof -
  have "next_frame [0, 1, 90] = (Inr (Some [90]), [])" "next_frame [] = (Inr None, [])" by code_simp+
  then have f: "[[90]] = fst (frames_of (id [0, 1, 90]))"
    by (simp add: frames_of.simps [of "[0, 1, 90]"] frames_of.simps [of "[]"])
  have p: "parse [90] = Inr None" by code_simp
  have r: "posix_read (chunk_read 1) id" by (rule posix_chunk_read) simp
  have t: "([1], []) = timings tick [[90]] 5" by (simp add: frame_timing_def tick_def p)
  let ?p0 = "\<lparr>pf_recorder = hdr_enable (hdr_construct list_hdr), pf_clock = 5 :: u64\<rparr>"
  have k: "(1000 :: u64) \<noteq> 0" by simp
  note prof = profiled_replay_exact [where env = one_bid_env and dir = "''bench/out''",
        OF r list_hdr_documented k refl f refl t refl refl]
  obtain e a q np na where "profiled_loop (chunk_read 1) list_hdr tick True one_bid_env [0, 1, 90]
      (((set_snapshot_interval 1000 init_engine, None), replay_stats_init), ?p0) = Some (Inr (e, a, q))"
    "map_option (map csv_count) (dump_csvs list_hdr (\<lambda>_. True) ''bench/out'' (pf_recorder q)) = Some [np, na, 0]"
    "length (filter (\<lambda>d. 1 \<le> d \<and> d \<le> 60000000000) [1 :: int]) \<le> np" "np \<le> length (filter (\<lambda>d. 1 \<le> d) [1 :: int])"
    "na \<le> length (filter (\<lambda>d. 1 \<le> d) ([] :: int list))"
    using prof by (elim conjE exE) (rule that, assumption+)
  moreover from this(3-5) have "np = 1" "na = 0" by simp_all
  ultimately show ?thesis by (intro exI [of _ e] exI [of _ a] exI [of _ q]) simp
qed

end
