(* ===== verification/Bench_Parser.thy ===== *)
theory Bench_Parser
  imports Wire_Format
begin

text \<open>
  \<^verbatim>\<open>bench/bench_parser.cpp\<close>: the buffer writers of the parser benchmarks and the buffers they
  parse. A writer is the inverse of the reader of \<^verbatim>\<open>include/itch/byte_order.h\<close> at the same offset.
\<close>

section \<open>Writers\<close>

abbreviation low_byte :: "'a::len word \<Rightarrow> u8" where
  "low_byte v \<equiv> ucast (v AND 0xFF)"

definition write_be16 :: "u8 list \<Rightarrow> nat \<Rightarrow> u16 \<Rightarrow> u8 list" where
  "write_be16 b p v = b[p := low_byte (drop_bit 8 v), p + 1 := low_byte v]"

definition write_be32 :: "u8 list \<Rightarrow> nat \<Rightarrow> u32 \<Rightarrow> u8 list" where
  "write_be32 b p v = b[p := low_byte (drop_bit 24 v), p + 1 := low_byte (drop_bit 16 v),
     p + 2 := low_byte (drop_bit 8 v), p + 3 := low_byte v]"

definition write_be48 :: "u8 list \<Rightarrow> nat \<Rightarrow> u64 \<Rightarrow> u8 list" where
  "write_be48 b p v = b[p := low_byte (drop_bit 40 v), p + 1 := low_byte (drop_bit 32 v),
     p + 2 := low_byte (drop_bit 24 v), p + 3 := low_byte (drop_bit 16 v),
     p + 4 := low_byte (drop_bit 8 v), p + 5 := low_byte v]"

definition write_be64 :: "u8 list \<Rightarrow> nat \<Rightarrow> u64 \<Rightarrow> u8 list" where
  "write_be64 b p v = b[p := low_byte (drop_bit 56 v), p + 1 := low_byte (drop_bit 48 v),
     p + 2 := low_byte (drop_bit 40 v), p + 3 := low_byte (drop_bit 32 v),
     p + 4 := low_byte (drop_bit 24 v), p + 5 := low_byte (drop_bit 16 v),
     p + 6 := low_byte (drop_bit 8 v), p + 7 := low_byte v]"

lemma bit_low_byte: "bit (ucast (low_byte v) :: 'a::len word) n \<longleftrightarrow> n < 8 \<and> bit (v :: 'a word) n \<and> n < LENGTH('a)"
proof -
  have m: "0xFF = (mask 8 :: 'a word)" by (simp add: mask_eq_exp_minus_1)
  show ?thesis unfolding m by (auto simp: bit_simps)
qed

text \<open>Joining the bytes from the top, one byte at a time.\<close>

lemma join_byte:
  "push_bit 8 (drop_bit (k + 8) v) OR ucast (low_byte (drop_bit k v)) = drop_bit k (v :: 'a::len word)"
proof (rule bit_word_eqI)
  fix n assume "n < LENGTH('a)"
  then show "bit (push_bit 8 (drop_bit (k + 8) v) OR ucast (low_byte (drop_bit k v))) n \<longleftrightarrow> bit (drop_bit k v) n"
    by (cases "n < 8") (simp_all add: bit_or_iff bit_low_byte bit_push_bit_iff bit_drop_bit_eq add.commute add.left_commute)
qed

lemma be_word_low_bytes:
  assumes "drop_bit (8 * n) v = 0"
  shows "be_word (map (\<lambda>k. low_byte (drop_bit (8 * k) v)) (rev [0..<n])) = (v :: 'a::len word)"
proof -
  have "j \<le> n \<Longrightarrow> be_word (map (\<lambda>k. low_byte (drop_bit (8 * k) v)) (rev [j..<n])) = drop_bit (8 * j) v" for j
  proof (induction "n - j" arbitrary: j)
    case 0
    then show ?case using assms by (simp add: be_word_Nil)
  next
    case (Suc d)
    then have "j < n" by simp
    then have "rev [j..<n] = rev [Suc j..<n] @ [j]" by (simp add: upt_conv_Cons)
    moreover have "be_word (map (\<lambda>k. low_byte (drop_bit (8 * k) v)) (rev [Suc j..<n])) = drop_bit (8 * j + 8) v"
      using Suc \<open>j < n\<close> by (simp add: add.commute)
    ultimately show ?case using join_byte [of "8 * j" v] by (simp add: be_word_def)
  qed
  from this [of 0] show ?thesis by simp
qed

lemma drop_bit_length: "drop_bit LENGTH('a) v = (0 :: 'a::len word)"
  by (rule bit_word_eqI) (auto simp: bit_drop_bit_eq dest: bit_imp_le_length)

text \<open>Each writer is read back by the reader of the same width.\<close>

lemma write_be16_read:
  assumes "p + 2 \<le> length b"
  shows "read_be16 (write_be16 b p v) p = Some v"
proof -
  have "byte_slice (write_be16 b p v) p 2 = map (\<lambda>k. low_byte (drop_bit (8 * k) v)) (rev [0..<2])"
    using assms by (simp add: take_Suc_drop_nth numeral_eq_Suc write_be16_def)
  then show ?thesis
    using assms be_word_low_bytes [of 2 v] drop_bit_length [of v] by (simp add: read_be16_eq write_be16_def)
qed


lemma write_be32_read:
  assumes "p + 4 \<le> length b"
  shows "read_be32 (write_be32 b p v) p = Some v"
proof -
  have "byte_slice (write_be32 b p v) p 4 = map (\<lambda>k. low_byte (drop_bit (8 * k) v)) (rev [0..<4])"
    using assms by (simp add: take_Suc_drop_nth numeral_eq_Suc write_be32_def)
  then show ?thesis
    using assms be_word_low_bytes [of 4 v] drop_bit_length [of v] by (simp add: read_be32_eq write_be32_def)
qed

lemma drop_bit_48:
  assumes "unat (v :: u64) < 2 ^ 48"
  shows "drop_bit 48 v = 0"
proof -
  have "unat (drop_bit 48 v) = unat v div 2 ^ 48" by (simp add: drop_bit_eq_div unat_div)
  then show ?thesis using assms by (simp only: div_less unat_eq_0)
qed

lemma write_be48_read:
  assumes "p + 6 \<le> length b" and "unat v < 2 ^ 48"
  shows "read_be48 (write_be48 b p v) p = Some v"
proof -
  have "byte_slice (write_be48 b p v) p 6 = map (\<lambda>k. low_byte (drop_bit (8 * k) v)) (rev [0..<6])"
    using assms(1) by (simp add: take_Suc_drop_nth numeral_eq_Suc write_be48_def)
  then show ?thesis
    using assms(1) be_word_low_bytes [of 6 v] drop_bit_48 [OF assms(2)] by (simp add: read_be48_eq write_be48_def)
qed

lemma write_be64_read:
  assumes "p + 8 \<le> length b"
  shows "read_be64 (write_be64 b p v) p = Some v"
proof -
  have "byte_slice (write_be64 b p v) p 8 = map (\<lambda>k. low_byte (drop_bit (8 * k) v)) (rev [0..<8])"
    using assms by (simp add: take_Suc_drop_nth numeral_eq_Suc write_be64_def)
  then show ?thesis
    using assms be_word_low_bytes [of 8 v] drop_bit_length [of v] by (simp add: read_be64_eq write_be64_def)
qed

section \<open>The buffers\<close>

definition make_add_order :: MessageBuffer where
  "make_add_order =
     (let buf = replicate 36 0;
          buf = buf[0 := 65];
          buf = write_be16 buf 1 1;
          buf = write_be16 buf 3 0;
          buf = write_be48 buf 5 34200000000000;
          buf = write_be64 buf 11 123456789;
          buf = buf[19 := 66];
          buf = write_be32 buf 20 100;
          buf = buf[24 := 65, 25 := 65, 26 := 80, 27 := 76];
          buf = fold (\<lambda>i b. b[i := 32]) [28..<32] buf
      in write_be32 buf 32 1894200)"

definition make_order_delete :: MessageBuffer where
  "make_order_delete =
     (let buf = replicate 19 0;
          buf = buf[0 := 68];
          buf = write_be16 buf 1 1;
          buf = write_be16 buf 3 0;
          buf = write_be48 buf 5 34200000000001
      in write_be64 buf 11 123456789)"

definition make_order_replace :: MessageBuffer where
  "make_order_replace =
     (let buf = replicate 35 0;
          buf = buf[0 := 85];
          buf = write_be16 buf 1 1;
          buf = write_be16 buf 3 0;
          buf = write_be48 buf 5 34200000000002;
          buf = write_be64 buf 11 111111111;
          buf = write_be64 buf 19 222222222;
          buf = write_be32 buf 27 200
      in write_be32 buf 31 1894300)"

definition unknown_type_buffer :: MessageBuffer where
  "unknown_type_buffer = (replicate 10 0)[0 := 0xFF]"

text \<open>What the four benchmarks parse.\<close>

lemma benchmark_buffers_parse:
  "parse make_add_order = Inr (Some (AddOrder \<lparr>ao_stock_locate = 1, ao_tracking_number = 0,
     ao_timestamp = 34200000000000, ao_order_ref = 123456789, ao_side = CHR ''B'', ao_shares = 100,
     ao_stock = ''AAPL'', ao_price = Price 1894200\<rparr>))"
  "parse make_order_delete = Inr (Some (OrderDelete \<lparr>od_stock_locate = 1, od_tracking_number = 0,
     od_timestamp = 34200000000001, od_order_ref = 123456789\<rparr>))"
  "parse make_order_replace = Inr (Some (OrderReplace \<lparr>or_stock_locate = 1, or_tracking_number = 0,
     or_timestamp = 34200000000002, or_original_order_ref = 111111111, or_new_order_ref = 222222222,
     or_shares = 200, or_price = Price 1894300\<rparr>))"
  "parse unknown_type_buffer = Inr None"
  by code_simp+

section \<open>The benchmarks\<close>

text \<open>The results that the measured loop of each benchmark obtains.\<close>

definition parse_bench :: "MessageBuffer \<Rightarrow> nat \<Rightarrow> (parser_exn + ParsedMessage option) list" where
  "parse_bench buf iters = map (\<lambda>_. parse buf) [0..<iters]"

definition BM_ParseAddOrder :: "nat \<Rightarrow> (parser_exn + ParsedMessage option) list" where
  "BM_ParseAddOrder = parse_bench make_add_order"

definition BM_ParseOrderDelete :: "nat \<Rightarrow> (parser_exn + ParsedMessage option) list" where
  "BM_ParseOrderDelete = parse_bench make_order_delete"

definition BM_ParseOrderReplace :: "nat \<Rightarrow> (parser_exn + ParsedMessage option) list" where
  "BM_ParseOrderReplace = parse_bench make_order_replace"

definition BM_ParseUnknownType :: "nat \<Rightarrow> (parser_exn + ParsedMessage option) list" where
  "BM_ParseUnknownType = parse_bench unknown_type_buffer"

text \<open>
  Three benchmarks measure the successful parse of a message of their type, the fourth the drop
  of an unknown one; none measures an exception.
\<close>

lemma parser_benchmarks:
  "set (BM_ParseAddOrder iters) \<subseteq> {Inr (Some (AddOrder m)) | m. ao_order_ref m = 123456789}"
  "set (BM_ParseOrderDelete iters) \<subseteq> {Inr (Some (OrderDelete m)) | m. od_order_ref m = 123456789}"
  "set (BM_ParseOrderReplace iters) \<subseteq>
     {Inr (Some (OrderReplace m)) | m. or_original_order_ref m = 111111111 \<and> or_new_order_ref m = 222222222}"
  "set (BM_ParseUnknownType iters) \<subseteq> {Inr None}"
  by (auto simp: BM_ParseAddOrder_def BM_ParseOrderDelete_def BM_ParseOrderReplace_def BM_ParseUnknownType_def
      parse_bench_def benchmark_buffers_parse)

end
