(* ===== verification/Bench_Snapshot.thy ===== *)
theory Bench_Snapshot
  imports Bench_Mixed
begin

text \<open>
  \<^verbatim>\<open>bench/bench_snapshot.cpp\<close>: the symbols and the load of the snapshot benchmark. The symbols of
  different instruments differ, so the snapshot it measures has one book per instrument, and
  every book has the announced number of levels on both sides.
\<close>

section \<open>Symbols\<close>

text \<open>The loop writes the base-26 digits of \<open>v\<close> from the right; \<open>i\<close> counts the free positions.\<close>

fun symbol_loop :: "nat \<Rightarrow> nat \<Rightarrow> string \<Rightarrow> string" where
  "symbol_loop v 0 buf = buf"
| "symbol_loop v (Suc i) buf =
     (if v > 0 then symbol_loop (v div 26) i (buf[i := char_of (65 + v mod 26)]) else buf)"

definition symbol_for :: "u16 \<Rightarrow> string" where
  "symbol_for locate = symbol_loop (unat locate) 8 (replicate 8 CHR '' '')"

section \<open>The load\<close>

definition bs_make_add :: "u64 \<Rightarrow> char \<Rightarrow> u32 \<Rightarrow> u32 \<Rightarrow> u16 \<Rightarrow> AddOrderMsg" where
  "bs_make_add ref side shares price_raw locate =
     \<lparr>ao_stock_locate = locate, ao_tracking_number = 0, ao_timestamp = 34200000000000, ao_order_ref = ref,
      ao_side = side, ao_shares = shares, ao_stock = [], ao_price = Price price_raw\<rparr>"

definition symbol_info :: "nat \<Rightarrow> InstrumentInfo" where
  "symbol_info li = empty_instrument\<lparr>in_stock_locate := of_nat li, in_symbol := symbol_for (of_nat li),
     in_trading_state := CHR ''T'', in_round_lot_size := 100\<rparr>"

definition register_symbols :: "nat \<Rightarrow> Engine \<Rightarrow> Engine" where
  "register_symbols n_instr st = fold (\<lambda>li. register_instrument (symbol_info li)) [1..<Suc n_instr] st"

text \<open>The two adds of one level, with the running reference.\<close>

definition level_adds :: "nat \<Rightarrow> nat \<Rightarrow> u64 \<times> AddOrderMsg list \<Rightarrow> u64 \<times> AddOrderMsg list" where
  "level_adds li j = (\<lambda>(ref, adds).
     (ref + 2, adds @ [bs_make_add ref CHR ''B'' 100 (1000000 + of_nat j * 100) (of_nat li),
        bs_make_add (ref + 1) CHR ''S'' 100 (1010000 + of_nat j * 100) (of_nat li)]))"

definition snapshot_adds :: "nat \<Rightarrow> nat \<Rightarrow> AddOrderMsg list" where
  "snapshot_adds n_instr levels =
     snd (fold (\<lambda>li. fold (level_adds li) [0..<levels]) [1..<Suc n_instr] (1, []))"

definition snapshot_seed :: "(Engine \<Rightarrow> SnapEnv) \<Rightarrow> nat \<Rightarrow> nat \<Rightarrow> Engine \<times> publisher \<Rightarrow>
    engine_fault + Engine \<times> publisher" where
  "snapshot_seed env n_instr levels w =
     (let st = set_snapshot_interval (- 1) (register_symbols n_instr (fst w))
      in apply_all env (map AddOrder (snapshot_adds n_instr levels)) (st, snd w))"

text \<open>The snapshots that the measured loop builds; nothing changes between them.\<close>

definition BM_BuildSnapshot :: "(Engine \<Rightarrow> SnapEnv) \<Rightarrow> nat \<Rightarrow> nat \<Rightarrow> nat \<Rightarrow> engine_fault + SystemSnapshot list" where
  "BM_BuildSnapshot env n_instr levels iters =
     (case snapshot_seed env n_instr levels (init_engine, None) of
        Inl e \<Rightarrow> Inl e
      | Inr w \<Rightarrow> Inr (map (\<lambda>_. build_snapshot (env (fst w)) (fst w)) [0..<iters]))"

section \<open>Symbols are distinct\<close>

fun letters :: "nat \<Rightarrow> string" where
  "letters v = (if v = 0 then [] else letters (v div 26) @ [char_of (65 + v mod 26)])"

declare letters.simps [simp del]

lemma letters_0 [simp]: "letters 0 = []"
  by (simp add: letters.simps)

lemma letters_length: "v < 26 ^ n \<Longrightarrow> length (letters v) \<le> n"
proof (induction n arbitrary: v)
  case (Suc n)
  then have "v div 26 < 26 ^ n" by (simp add: less_mult_imp_div_less mult.commute)
  with Suc.IH [of "v div 26"] show ?case by (simp add: letters.simps [of v])
qed simp

lemma symbol_loop_letters:
  "length (letters v) \<le> i \<Longrightarrow>
     symbol_loop v i (replicate i CHR '' '' @ rest) = replicate (i - length (letters v)) CHR '' '' @ letters v @ rest"
proof (induction i arbitrary: v rest)
  case 0
  then have "letters v = []" by simp
  then show ?case by simp
next
  case (Suc i)
  show ?case
  proof (cases "v = 0")
    case False
    let ?c = "char_of (65 + v mod 26) :: char"
    have l: "letters v = letters (v div 26) @ [?c]" using False by (simp add: letters.simps [of v])
    have "(replicate (Suc i) CHR '' '' @ rest)[i := ?c] = replicate i CHR '' '' @ ?c # rest"
      by (simp add: replicate_append_same [symmetric] list_update_append)
    with Suc.IH [of "v div 26" "?c # rest"] Suc.prems False l show ?thesis by simp
  qed simp
qed

lemma letter_code: "of_char (char_of (65 + v mod 26) :: char) = (65 + v mod 26 :: nat)"
proof -
  have "v mod 26 < 26" by simp
  then have "65 + v mod 26 < 256" by linarith
  then show ?thesis by (simp only: of_char_of mod_less)
qed

lemma letters_no_space: "c \<in> set (letters v) \<Longrightarrow> c \<noteq> CHR '' ''"
proof (induction v rule: letters.induct)
  case (1 v)
  have "char_of (65 + v mod 26) \<noteq> CHR '' ''"
  proof
    assume "char_of (65 + v mod 26) = CHR '' ''"
    then have "65 + v mod 26 = (of_char CHR '' '' :: nat)" using letter_code [of v] by simp
    then show False by simp
  qed
  with 1 show ?case by (auto simp: letters.simps [of v] split: if_splits)
qed

lemma letters_Suc: "v \<noteq> 0 \<Longrightarrow> letters v = letters (v div 26) @ [char_of (65 + v mod 26)]"
  by (simp add: letters.simps [of v])

lemma letters_Nil: "letters v = [] \<longleftrightarrow> v = 0" "[] = letters v \<longleftrightarrow> v = 0"
  by (cases "v = 0", simp_all add: letters_Suc)+

lemma letters_inject: "letters v = letters w \<Longrightarrow> v = w"
proof (induction v arbitrary: w rule: letters.induct)
  case (1 v)
  show ?case
  proof (cases "v = 0 \<or> w = 0")
    case True
    with "1.prems" show ?thesis by (auto simp: letters_Nil)
  next
    case False
    then have "letters (v div 26) @ [char_of (65 + v mod 26)] = letters (w div 26) @ [char_of (65 + w mod 26)]"
      using letters_Suc [of v] letters_Suc [of w] "1.prems" by (metis (no_types))
    then have e: "letters (v div 26) = letters (w div 26)"
      "(char_of (65 + v mod 26) :: char) = char_of (65 + w mod 26)"
      by (simp_all only: append1_eq_conv)
    have "v \<noteq> 0" using False by simp
    from "1.IH" [OF this e(1)] have "v div 26 = w div 26" .
    moreover have "v mod 26 = w mod 26"
    proof -
      have "(of_char (char_of (65 + v mod 26) :: char) :: nat) = of_char (char_of (65 + w mod 26) :: char)"
        by (simp only: e(2))
      then show ?thesis by (simp only: letter_code add_left_cancel)
    qed
    ultimately show ?thesis by (metis div_mult_mod_eq)
  qed
qed

lemma symbol_for_letters: "dropWhile (\<lambda>c. c = CHR '' '') (symbol_for l) = letters (unat l)"
proof -
  have "unat l < 65536" using unsigned_less [of l] by simp
  then have "unat l < 26 ^ 8" by simp
  then have n: "length (letters (unat l)) \<le> 8" by (rule letters_length)
  have "dropWhile (\<lambda>c. c = CHR '' '') (letters (unat l)) = letters (unat l)"
    using letters_no_space [of _ "unat l"] by (cases "letters (unat l)") fastforce+
  then show ?thesis
    using symbol_loop_letters [OF n, of "[]"] by (simp add: symbol_for_def dropWhile_append)
qed

lemma symbol_for_inject: "symbol_for l = symbol_for l' \<Longrightarrow> l = l'"
  using symbol_for_letters [of l] symbol_for_letters [of l'] letters_inject by (metis word_unat_eq_iff)

section \<open>What the benchmark measures\<close>

lemma register_symbols_state:
  assumes "n < 2 ^ 16"
  shows "instruments (register_symbols n init_engine) l =
      (if 1 \<le> unat l \<and> unat l \<le> n then Some (symbol_info (unat l)) else None)"
    and "books (register_symbols n init_engine) = Map.empty"
    and "order_index (register_symbols n init_engine) = Map.empty"
proof -
  have "instruments (register_symbols n init_engine) =
      (\<lambda>l. if 1 \<le> unat l \<and> unat l \<le> n then Some (symbol_info (unat l)) else None) \<and>
    books (register_symbols n init_engine) = Map.empty \<and> order_index (register_symbols n init_engine) = Map.empty"
    using assms
  proof (induction n)
    case 0
    then show ?case by (auto simp: register_symbols_def init_engine_def)
  next
    case (Suc n)
    have u: "unat (of_nat (Suc n) :: u16) = Suc n" using Suc.prems by (rule unat_of_nat_u16)
    have eq: "l = of_nat (Suc n) \<longleftrightarrow> unat l = Suc n" for l :: u16 by (simp only: word_unat_eq_iff u)
    have "register_symbols (Suc n) init_engine = register_instrument (symbol_info (Suc n)) (register_symbols n init_engine)"
      by (simp add: register_symbols_def)
    moreover have "in_stock_locate (symbol_info k) = of_nat k" for k by (simp add: symbol_info_def)
    ultimately show ?case
      using Suc by (auto simp: register_instrument_def fun_eq_iff eq le_Suc_eq simp del: of_nat_Suc)
  qed
  then show "instruments (register_symbols n init_engine) l =
      (if 1 \<le> unat l \<and> unat l \<le> n then Some (symbol_info (unat l)) else None)"
    and "books (register_symbols n init_engine) = Map.empty"
    and "order_index (register_symbols n init_engine) = Map.empty" by simp_all
qed

text \<open>The levels that a list of adds opens.\<close>

definition level_keys :: "Engine \<Rightarrow> level_key set" where
  "level_keys st = {k. level_of st k \<noteq> None}"

definition add_key :: "AddOrderMsg \<Rightarrow> level_key" where
  "add_key m = (ao_stock_locate m, side_of (ao_side m), ao_price m)"

lemma apply_add_keys:
  assumes "engine_wf (fst w)" and "snapshot_interval (fst w) \<noteq> 0"
  shows "\<exists>w'. apply_msg env (AddOrder m) w = Inr w' \<and> engine_wf (fst w') \<and> snapshot_interval (fst w') \<noteq> 0 \<and>
    level_keys (fst w') = insert (add_key m) (level_keys (fst w)) \<and>
    (instruments (fst w) (ao_stock_locate m) \<noteq> None \<longrightarrow> instruments (fst w') = instruments (fst w))"
proof -
  let ?h = "handle (AddOrder m) (fst w)"
  let ?st = "?h\<lparr>messages_processed := messages_processed ?h + 1\<rparr>"
  have "engine_wf ?st" using wf_handle [OF assms(1), of "AddOrder m"] by (simp cong: engine_wf_cong)
  moreover have "level_of ?h =
      (level_of (fst w))(add_key m := lvl_insert (ao_price m) (ao_shares m) (level_of (fst w) (add_key m)))"
    using level_of_insert [OF ensure_book_wf [OF assms(1), THEN conjunct1] refl, where st' = ?h and l = "ao_stock_locate m"
        and c = "ao_side m" and p = "ao_price m" and s = "ao_shares m" and t = "ao_timestamp m"]
    by (simp add: handle_add_order_def add_order_closed add_key_def)
  then have "level_keys ?st = insert (add_key m) (level_keys (fst w))"
    using level_of_cong [of ?st ?h] by (auto simp: level_keys_def lvl_insert_def Let_def)
  moreover have "instruments ?h = instruments (fst w)" if "instruments (fst w) (ao_stock_locate m) \<noteq> None"
    using that by (auto simp: handle_add_order_def add_order_closed ensure_instrument_def)
  ultimately show ?thesis
    using assms(2) by (simp add: apply_msg_def Let_def maybe_publish_snapshot_def umod_def handle_keeps_control del: handle.simps)
qed

lemma apply_adds_keys:
  assumes "engine_wf (fst w)" and "snapshot_interval (fst w) \<noteq> 0"
    and "\<And>m. m \<in> set ms \<Longrightarrow> instruments (fst w) (ao_stock_locate m) \<noteq> None"
  shows "\<exists>w'. apply_all env (map AddOrder ms) w = Inr w' \<and> engine_wf (fst w') \<and>
    instruments (fst w') = instruments (fst w) \<and> level_keys (fst w') = level_keys (fst w) \<union> add_key ` set ms"
  using assms
proof (induction ms arbitrary: w)
  case (Cons m ms)
  obtain w1 where w1: "apply_msg env (AddOrder m) w = Inr w1" "engine_wf (fst w1)" "snapshot_interval (fst w1) \<noteq> 0"
    "level_keys (fst w1) = insert (add_key m) (level_keys (fst w))" "instruments (fst w1) = instruments (fst w)"
    using apply_add_keys [OF Cons.prems(1,2), of env m] Cons.prems(3) [of m] by auto
  have "\<exists>w'. apply_all env (map AddOrder ms) w1 = Inr w' \<and> engine_wf (fst w') \<and>
      instruments (fst w') = instruments (fst w1) \<and> level_keys (fst w') = level_keys (fst w1) \<union> add_key ` set ms"
    by (rule Cons.IH [OF w1(2,3)]) (use Cons.prems(3) w1(5) in auto)
  with w1(1,4,5) show ?case by auto
qed simp

definition pair_keys :: "nat \<Rightarrow> nat \<Rightarrow> level_key set" where
  "pair_keys li j = {(of_nat li, Bid, Price (cold_price j)), (of_nat li, Ask, Price (cold_price (100 + j)))}"

lemma level_adds_keys:
  "add_key ` set (snd (level_adds li j acc)) = add_key ` set (snd acc) \<union> pair_keys li j"
  by (cases acc)
    (auto simp: level_adds_def add_key_def bs_make_add_def pair_keys_def cold_price_def side_of_def algebra_simps)

lemma fold_keys:
  assumes "\<And>x acc. add_key ` set (snd (f x acc)) = add_key ` set (snd acc) \<union> K x"
  shows "add_key ` set (snd (fold f xs acc)) = add_key ` set (snd acc) \<union> (\<Union>x \<in> set xs. K x)"
  by (induction xs arbitrary: acc) (simp_all add: assms Un_assoc)

lemma snapshot_adds_keys:
  "add_key ` set (snapshot_adds n_instr levels) = (\<Union>li \<in> {1..n_instr}. \<Union>j \<in> {j. j < levels}. pair_keys li j)"
proof -
  have "{j. j < levels} = set [0..<levels]" "{1..n_instr} = set [1..<Suc n_instr]" by auto
  then show ?thesis
    unfolding snapshot_adds_def
    using fold_keys [of "\<lambda>li. fold (level_adds li) [0..<levels]" "\<lambda>li. \<Union>j \<in> set [0..<levels]. pair_keys li j",
        OF fold_keys [OF level_adds_keys], of "[1..<Suc n_instr]" "(1, [])"]
    by simp
qed

definition side_prices :: "Engine \<Rightarrow> u16 \<Rightarrow> Side \<Rightarrow> Price set" where
  "side_prices st l S = {p. level_of st (l, S, p) \<noteq> None}"

lemma card_cold_prices:
  assumes "k + levels < 2 ^ 30"
  shows "card ((\<lambda>j. Price (cold_price (k + j))) ` {j. j < levels}) = levels"
proof -
  have "inj_on (\<lambda>j. Price (cold_price (k + j))) {j. j < levels}"
  proof (rule inj_onI)
    fix i j assume "i \<in> {j. j < levels}" "j \<in> {j. j < levels}" "Price (cold_price (k + i)) = Price (cold_price (k + j))"
    then have "k + i = k + j" using assms by (intro cold_price_inj) simp_all
    then show "i = j" by simp
  qed
  then show ?thesis by (simp add: card_image)
qed

text \<open>
  The benchmark's load: the seeding never faults, and afterwards every instrument has the given
  number of price levels on each side, and no other book has any.
\<close>

lemma snapshot_load:
  assumes "n_instr < 2 ^ 16" and "levels < 2 ^ 29"
  shows "\<exists>w. snapshot_seed env n_instr levels (init_engine, None) = Inr w \<and> engine_wf (fst w) \<and>
    instruments (fst w) = instruments (register_symbols n_instr init_engine) \<and>
    (\<forall>l S. card (side_prices (fst w) l S) = (if 1 \<le> unat l \<and> unat l \<le> n_instr then levels else 0))"
proof -
  let ?st = "set_snapshot_interval (- 1) (register_symbols n_instr init_engine)"
  note reg = register_symbols_state [OF assms(1)]
  have wf: "engine_wf ?st" by (simp add: engine_wf_def set_snapshot_interval_def reg symbol_info_def)
  have int: "snapshot_interval ?st \<noteq> 0" by (simp add: set_snapshot_interval_def)
  have none: "level_keys ?st = {}" by (auto simp: level_keys_def level_of_def set_snapshot_interval_def reg)
  have known: "instruments ?st (ao_stock_locate m) \<noteq> None" if "m \<in> set (snapshot_adds n_instr levels)" for m
  proof -
    have "add_key m \<in> add_key ` set (snapshot_adds n_instr levels)" using that by blast
    then obtain li where li: "1 \<le> li" "li \<le> n_instr" "ao_stock_locate m = of_nat li"
      unfolding snapshot_adds_keys by (auto simp: pair_keys_def add_key_def)
    then have "li < 2 ^ 16" using assms(1) by linarith
    then have "unat (of_nat li :: u16) = li" by (rule unat_of_nat_u16)
    with li reg(1) show ?thesis by (simp add: set_snapshot_interval_def)
  qed
  obtain w where w: "snapshot_seed env n_instr levels (init_engine, None) = Inr w" "engine_wf (fst w)"
    "level_keys (fst w) = (\<Union>li \<in> {1..n_instr}. \<Union>j \<in> {j. j < levels}. pair_keys li j)"
    "instruments (fst w) = instruments (register_symbols n_instr init_engine)"
    using apply_adds_keys [of "(?st, None)" "snapshot_adds n_instr levels" env] wf int none known
    by (auto simp: snapshot_seed_def Let_def snapshot_adds_keys set_snapshot_interval_def)
  have "card (side_prices (fst w) l S) = (if 1 \<le> unat l \<and> unat l \<le> n_instr then levels else 0)" for l S
  proof -
    define k :: nat where "k = (if S = Bid then 0 else 100)"
    have li: "l = of_nat i \<longleftrightarrow> unat l = i" if "i \<le> n_instr" for i
    proof -
      have "i < 2 ^ 16" using that assms(1) by linarith
      then show ?thesis by (simp only: word_unat_eq_iff unat_of_nat_u16)
    qed
    have "side_prices (fst w) l S = {p. (l, S, p) \<in> level_keys (fst w)}" by (simp add: side_prices_def level_keys_def)
    also have "\<dots> = (if 1 \<le> unat l \<and> unat l \<le> n_instr then (\<lambda>j. Price (cold_price (k + j))) ` {j. j < levels} else {})"
      unfolding w(3) by (cases S) (auto simp: pair_keys_def k_def li)
    finally show ?thesis using card_cold_prices [of k levels] assms(2) by (simp add: k_def split: Side.splits)
  qed
  with w(1,2,4) show ?thesis by blast
qed

lemma card_side_prices:
  assumes "engine_wf st" and "books st l = Some b"
  shows "card (side_prices st l S) = length (book_side S b)"
proof -
  have "ml_invar S (book_side S b)" using wf_bookD [OF assms] by (simp add: book_wf_side)
  then have "distinct (keys (book_side S b))" by (auto simp: ml_invar_def intro: side_order.sorted_distinct)
  moreover have "side_prices st l S = set (keys (book_side S b))"
    by (auto simp: side_prices_def level_of_def assms(2) map_of_eq_None_iff)
  ultimately show ?thesis using distinct_card [of "keys (book_side S b)"] by simp
qed

text \<open>
  What the benchmark measures: every snapshot it builds has one book per instrument, under the
  instrument's own symbol, with the given number of levels on both sides.
\<close>

lemma snapshot_benchmark:
  assumes "n_instr < 2 ^ 16" and "levels < 2 ^ 29"
    and "\<And>w. snapshot_seed env n_instr levels (init_engine, None) = Inr w \<Longrightarrow> env_ok (env (fst w)) (fst w)"
  shows "\<exists>snap. BM_BuildSnapshot env n_instr levels iters = Inr (replicate iters snap) \<and>
    dom (map_of (ss_books snap)) = (\<lambda>li. symbol_for (of_nat li)) ` {1..n_instr} \<and>
    (\<forall>li \<in> {1..n_instr}. \<exists>book. map_of (ss_books snap) (symbol_for (of_nat li)) = Some book \<and>
       length (bs_bids book) = levels \<and> length (bs_asks book) = levels)"
proof -
  obtain w where w: "snapshot_seed env n_instr levels (init_engine, None) = Inr w" "engine_wf (fst w)"
    "instruments (fst w) = instruments (register_symbols n_instr init_engine)"
    "\<And>l S. card (side_prices (fst w) l S) = (if 1 \<le> unat l \<and> unat l \<le> n_instr then levels else 0)"
    using snapshot_load [OF assms(1,2), of env] by blast
  let ?st = "fst w" and ?snap = "build_snapshot (env (fst w)) (fst w)"
  note inst = register_symbols_state(1) [OF assms(1)]
  have sy: "in_symbol (symbol_info k) = symbol_for (of_nat k)" for k by (simp add: symbol_info_def)
  have d: "symbols_distinct ?st"
    unfolding symbols_distinct_def w(3) inst by (auto simp: sy dest: symbol_for_inject split: if_splits)
  note env = assms(3) [OF w(1)]
  have u: "unat (of_nat li :: u16) = li" if "li \<le> n_instr" for li
  proof -
    have "li < 2 ^ 16" using that assms(1) by linarith
    then show ?thesis by (rule unat_of_nat_u16)
  qed
  have i: "instruments ?st (of_nat li) = Some (symbol_info li)" if "li \<in> {1..n_instr}" for li
    using that u [of li] unfolding w(3) inst by simp
  have "\<exists>book. map_of (ss_books ?snap) (symbol_for (of_nat li)) = Some book \<and>
      length (bs_bids book) = levels \<and> length (bs_asks book) = levels" if li: "li \<in> {1..n_instr}" for li
  proof -
    have c: "card (side_prices ?st (of_nat li) S) = levels" for S using li u [of li] w(4) by simp
    have "map_of (ss_books ?snap) (symbol_for (of_nat li)) =
        Some (case books ?st (of_nat li) of Some b \<Rightarrow> snap_book (symbol_info li) b | None \<Rightarrow> empty_snap (symbol_info li))"
      using snapshot_book [OF d env i [OF li]] by (simp add: sy)
    moreover have "length (ob_bids b) = levels \<and> length (ob_asks b) = levels" if "books ?st (of_nat li) = Some b" for b
      using card_side_prices [OF w(2) that, of Bid] card_side_prices [OF w(2) that, of Ask] c by simp
    moreover have "levels = 0" if "books ?st (of_nat li) = None"
      using c [of Bid] that by (simp add: side_prices_def level_of_def)
    ultimately show ?thesis by (auto simp: snap_book_def empty_snap_def split: option.splits)
  qed
  moreover have "dom (map_of (ss_books ?snap)) = (\<lambda>li. symbol_for (of_nat li)) ` {1..n_instr}"
  proof
    show "dom (map_of (ss_books ?snap)) \<subseteq> (\<lambda>li. symbol_for (of_nat li)) ` {1..n_instr}"
    proof
      fix sym assume "sym \<in> dom (map_of (ss_books ?snap))"
      then obtain x where x: "map_of (ss_books ?snap) sym = Some x" by blast
      have "dom (books ?st) \<subseteq> dom (instruments ?st)" using w(2) by (simp add: engine_wf_def)
      from snapshot_symbols [OF env this x]
      obtain l where "1 \<le> unat l" "unat l \<le> n_instr" "symbol_for l = sym"
        unfolding w(3) inst by (auto simp: symbol_info_def split: if_splits)
      then show "sym \<in> (\<lambda>li. symbol_for (of_nat li)) ` {1..n_instr}" by (intro image_eqI [of _ _ "unat l"]) simp_all
    qed
    show "(\<lambda>li. symbol_for (of_nat li)) ` {1..n_instr} \<subseteq> dom (map_of (ss_books ?snap))"
      using calculation by blast
  qed
  moreover have "BM_BuildSnapshot env n_instr levels iters = Inr (replicate iters ?snap)"
    by (simp add: BM_BuildSnapshot_def w(1) map_replicate_const)
  ultimately show ?thesis by blast
qed

end
