(* ===== verification/Test_Prelude.thy ===== *)
theory Test_Prelude
  imports Itch_Prelude
begin

text \<open>
  What the theories on the tests of the repository share: a test is its name and its outcome, and
  a lemma about a group of tests says that none of them fails.
\<close>

definition failed :: "(string \<times> bool) list \<Rightarrow> string list" where
  "failed tests = map fst (filter (\<lambda>(_, outcome). \<not> outcome) tests)"

end
