(* ===== verification/Test_Engine.thy ===== *)
theory Test_Engine
  imports Snapshot_Properties Test_Prelude
begin

text \<open>
  The unit tests of \<^verbatim>\<open>tests/test_book_engine.cpp\<close> run on the model. A test is its name and the outcome
  that the kernel evaluates on the messages of the test; each lemma says that no test of its group
  fails. Where a test looks at one field of a level, the outcome is about the whole side of the book.
\<close>

section \<open>The test fixture\<close>

definition test_info :: "u16 \<Rightarrow> string \<Rightarrow> InstrumentInfo" where
  "test_info locate symbol = empty_instrument\<lparr>in_stock_locate := locate, in_symbol := symbol,
     in_trading_state := CHR ''T'', in_round_lot_size := 100\<rparr>"

definition add_at :: "u64 \<Rightarrow> u64 \<Rightarrow> char \<Rightarrow> u32 \<Rightarrow> u32 \<Rightarrow> u16 \<Rightarrow> ParsedMessage" where
  "add_at t ref side shares price_raw locate = AddOrder
     \<lparr>ao_stock_locate = locate, ao_tracking_number = 0, ao_timestamp = t, ao_order_ref = ref,
      ao_side = side, ao_shares = shares, ao_stock = [], ao_price = Price price_raw\<rparr>"

definition execute_at :: "u64 \<Rightarrow> u64 \<Rightarrow> u32 \<Rightarrow> ParsedMessage" where
  "execute_at t ref shares = OrderExecuted
     \<lparr>oe_stock_locate = 0, oe_tracking_number = 0, oe_timestamp = t, oe_order_ref = ref,
      oe_executed_shares = shares, oe_match_number = 0\<rparr>"

definition cancel_at :: "u64 \<Rightarrow> u64 \<Rightarrow> u32 \<Rightarrow> ParsedMessage" where
  "cancel_at t ref shares = OrderCancel
     \<lparr>oc_stock_locate = 0, oc_tracking_number = 0, oc_timestamp = t, oc_order_ref = ref,
      oc_cancelled_shares = shares\<rparr>"

definition del_at :: "u64 \<Rightarrow> u64 \<Rightarrow> ParsedMessage" where
  "del_at t ref = OrderDelete
     \<lparr>od_stock_locate = 0, od_tracking_number = 0, od_timestamp = t, od_order_ref = ref\<rparr>"

definition replace_at :: "u64 \<Rightarrow> u64 \<Rightarrow> u64 \<Rightarrow> u32 \<Rightarrow> u32 \<Rightarrow> ParsedMessage" where
  "replace_at t orig next shares price_raw = OrderReplace
     \<lparr>or_stock_locate = 0, or_tracking_number = 0, or_timestamp = t, or_original_order_ref = orig,
      or_new_order_ref = next, or_shares = shares, or_price = Price price_raw\<rparr>"

text \<open>The helpers of the fixture leave the time stamp 0.\<close>

abbreviation add :: "u64 \<Rightarrow> char \<Rightarrow> u32 \<Rightarrow> u32 \<Rightarrow> ParsedMessage" where
  "add ref side shares price_raw \<equiv> add_at 0 ref side shares price_raw 1"

abbreviation execute :: "u64 \<Rightarrow> u32 \<Rightarrow> ParsedMessage" where
  "execute \<equiv> execute_at 0"

abbreviation cancel :: "u64 \<Rightarrow> u32 \<Rightarrow> ParsedMessage" where
  "cancel \<equiv> cancel_at 0"

abbreviation del :: "u64 \<Rightarrow> ParsedMessage" where
  "del \<equiv> del_at 0"

abbreviation replace :: "u64 \<Rightarrow> u64 \<Rightarrow> u32 \<Rightarrow> u32 \<Rightarrow> ParsedMessage" where
  "replace \<equiv> replace_at 0"

definition directory :: "u16 \<Rightarrow> string \<Rightarrow> ParsedMessage" where
  "directory locate symbol = StockDirectory
     \<lparr>sd_stock_locate = locate, sd_tracking_number = 0, sd_timestamp = 0, sd_stock = symbol,
      sd_market_category = CHR ''Q'', sd_financial_status = CHR ''N'', sd_round_lot_size = 100,
      sd_round_lots_only = CHR 0x00, sd_issue_classification = CHR 0x00, sd_issue_sub_type = [],
      sd_authenticity = CHR 0x00, sd_short_sale_threshold = CHR 0x00, sd_ipo_flag = CHR 0x00,
      sd_luld_ref_price_tier = CHR 0x00, sd_etp_flag = CHR 0x00, sd_etp_leverage_factor = 0,
      sd_inverse_indicator = CHR 0x00\<rparr>"

definition trading_action :: "u16 \<Rightarrow> char \<Rightarrow> ParsedMessage" where
  "trading_action locate state = StockTradingAction
     \<lparr>ta_stock_locate = locate, ta_tracking_number = 0, ta_timestamp = 0, ta_stock = [],
      ta_trading_state = state, ta_reserved = CHR 0x00, ta_reason = []\<rparr>"

text \<open>No test reaches the first snapshot, so the order in which its maps are visited is immaterial.\<close>

definition no_iteration :: SnapEnv where
  "no_iteration = \<lparr>env_books = [], env_instruments = [], env_symbols = [], env_now_ms = 0\<rparr>"

definition after :: "ParsedMessage list \<Rightarrow> (Engine \<Rightarrow> bool) \<Rightarrow> bool" where
  "after ms expect =
     (case apply_all (\<lambda>_. no_iteration) ms (register_instrument (test_info 1 ''AAPL'') init_engine, None) of
        Inl _ \<Rightarrow> False
      | Inr (st, pub) \<Rightarrow> pub = None \<and> expect st)"

text \<open>A side as price, shares and number of orders, best first; \<^const>\<open>None\<close> when there is no book.\<close>

definition side_view :: "level_map \<Rightarrow> (u32 \<times> u64 \<times> u32) list" where
  "side_view m = map (\<lambda>(p, lvl). (raw (pl_price lvl), pl_total_shares lvl, pl_order_count lvl)) m"

definition bids :: "Engine \<Rightarrow> u16 \<Rightarrow> (u32 \<times> u64 \<times> u32) list option" where
  "bids st l = map_option (\<lambda>b. side_view (ob_bids b)) (get_book st l)"

definition asks :: "Engine \<Rightarrow> u16 \<Rightarrow> (u32 \<times> u64 \<times> u32) list option" where
  "asks st l = map_option (\<lambda>b. side_view (ob_asks b)) (get_book st l)"

text \<open>Shares, price and side of an order.\<close>

definition order_view :: "Engine \<Rightarrow> u64 \<Rightarrow> (u32 \<times> u32 \<times> char) option" where
  "order_view st ref = map_option (\<lambda>r. (rec_shares r, raw (rec_price r), rec_side r)) (get_order st ref)"

section \<open>Adding orders\<close>

lemma engine_tests_adding_orders:
  "failed
    [(''AddOrder_BidCreatesLevel'',
        after [add 1 CHR ''B'' 500 1000000] (\<lambda>st. bids st 1 = Some [(1000000, 500, 1)])),
     (''AddOrder_AskCreatesLevel'',
        after [add 1 CHR ''S'' 300 1000100] (\<lambda>st. asks st 1 = Some [(1000100, 300, 1)])),
     (''AddOrder_TwoOrdersSameLevel'',
        after [add 1 CHR ''B'' 200 1000000, add 2 CHR ''B'' 150 1000000]
          (\<lambda>st. bids st 1 = Some [(1000000, 350, 2)])),
     (''AddOrder_TwoOrdersDifferentLevels'',
        after [add 1 CHR ''B'' 200 1000000, add 2 CHR ''B'' 100 999900]
          (\<lambda>st. bids st 1 = Some [(1000000, 200, 1), (999900, 100, 1)])),
     (''AddOrder_BidBestPriceFirst'',
        after [add 1 CHR ''B'' 100 999900, add 2 CHR ''B'' 100 1000000]
          (\<lambda>st. bids st 1 = Some [(1000000, 100, 1), (999900, 100, 1)])),
     (''AddOrder_AskBestPriceFirst'',
        after [add 1 CHR ''S'' 100 1000100, add 2 CHR ''S'' 100 1000000]
          (\<lambda>st. asks st 1 = Some [(1000000, 100, 1), (1000100, 100, 1)])),
     (''AddOrderMPID_SameBookStateAsAddOrder'',
        after [AddOrderMPID
            \<lparr>am_stock_locate = 1, am_tracking_number = 0, am_timestamp = 0, am_order_ref = 1,
             am_side = CHR ''B'', am_shares = 400, am_stock = [], am_price = Price 1000000,
             am_attribution = ''NSDQ''\<rparr>]
          (\<lambda>st. bids st 1 = Some [(1000000, 400, 1)] \<and> map_option mpid_view (get_order st 1) = Some ''NSDQ''))] = []"
  by code_simp

section \<open>Cancels, executions, deletes, replaces\<close>

lemma engine_tests_reducing_orders:
  "failed
    [(''Cancel_PartialReducesShares'',
        after [add 1 CHR ''B'' 500 1000000, cancel 1 200]
          (\<lambda>st. bids st 1 = Some [(1000000, 300, 1)] \<and> order_view st 1 = Some (300, 1000000, CHR ''B''))),
     (''Cancel_FullRemovesLevel'',
        after [add 1 CHR ''B'' 500 1000000, cancel 1 500] (\<lambda>st. bids st 1 = Some [] \<and> order_view st 1 = None)),
     (''Cancel_FullLeavesOtherOrderAtLevel'',
        after [add 1 CHR ''B'' 200 1000000, add 2 CHR ''B'' 100 1000000, cancel 1 200]
          (\<lambda>st. bids st 1 = Some [(1000000, 100, 1)])),
     (''Execute_PartialReducesShares'',
        after [add 1 CHR ''S'' 300 1000100, execute 1 100]
          (\<lambda>st. asks st 1 = Some [(1000100, 200, 1)] \<and> order_view st 1 = Some (200, 1000100, CHR ''S''))),
     (''Execute_FullRemovesLevel'',
        after [add 1 CHR ''S'' 100 1000100, execute 1 100] (\<lambda>st. asks st 1 = Some [] \<and> order_view st 1 = None)),
     (''ExecuteWithPrice_SameBookMutationAsExecute'',
        after [add 1 CHR ''B'' 200 1000000, OrderExecutedPrice
            \<lparr>op_stock_locate = 0, op_tracking_number = 0, op_timestamp = 0, op_order_ref = 1,
             op_executed_shares = 100, op_match_number = 0, op_printable = CHR ''Y'',
             op_execution_price = Price 999999\<rparr>]
          (\<lambda>st. bids st 1 = Some [(1000000, 100, 1)])),
     (''Delete_RemovesOrderAndLevel'',
        after [add 1 CHR ''B'' 300 1000000, del 1] (\<lambda>st. bids st 1 = Some [] \<and> order_view st 1 = None)),
     (''Delete_LeavesOtherOrderAtLevel'',
        after [add 1 CHR ''B'' 200 1000000, add 2 CHR ''B'' 150 1000000, del 1]
          (\<lambda>st. bids st 1 = Some [(1000000, 150, 1)] \<and> order_view st 1 = None \<and> order_view st 2 \<noteq> None)),
     (''Replace_MovesToNewPriceLevel'',
        after [add 1 CHR ''S'' 400 501000, replace 1 2 350 501500]
          (\<lambda>st. asks st 1 = Some [(501500, 350, 1)] \<and> order_view st 1 = None \<and>
            order_view st 2 = Some (350, 501500, CHR ''S''))),
     (''Replace_PreservesSide'',
        after [add 1 CHR ''B'' 100 1000000, replace 1 2 100 1000100]
          (\<lambda>st. order_view st 2 = Some (100, 1000100, CHR ''B'')))] = []"
  by code_simp

section \<open>Unknown references\<close>

lemma engine_tests_unknown_references:
  "failed
    [(''UnknownRefExecute_Skipped'',
        after [execute 9999 100] (\<lambda>st. skipped_unknown_ref st = 1)),
     (''UnknownRefCancel_Skipped'',
        after [cancel 9999 100] (\<lambda>st. skipped_unknown_ref st = 1)),
     (''UnknownRefDelete_Skipped'',
        after [del 9999] (\<lambda>st. skipped_unknown_ref st = 1)),
     (''UnknownRefReplace_Skipped'',
        after [replace 9999 10000 100 1000000] (\<lambda>st. skipped_unknown_ref st = 1)),
     (''UnknownRef_BookUnchanged'',
        after [add 1 CHR ''B'' 100 1000000, execute 9999 50] (\<lambda>st. bids st 1 = Some [(1000000, 100, 1)])),
     (''SkippedUnknownRef_MultipleOpsAccumulate'',
        after [execute 9001 100, cancel 9002 50, del 9003, replace 9004 9005 100 1000000]
          (\<lambda>st. skipped_unknown_ref st = 4))] = []"
  by code_simp

section \<open>Scenarios\<close>

lemma engine_tests_scenarios:
  "failed
    [(''Scenario1_PartialFillThenCancel'',
        after [add 1 CHR ''B'' 500 1000000, add 2 CHR ''B'' 300 999500, execute 1 200, cancel 1 100]
          (\<lambda>st. bids st 1 = Some [(1000000, 200, 1), (999500, 300, 1)] \<and>
            order_view st 1 = Some (200, 1000000, CHR ''B'') \<and> order_view st 2 \<noteq> None)),
     (''Scenario3_FullExecutionClearsLevel'',
        after [add 1 CHR ''S'' 100 750000, execute 1 100] (\<lambda>st. asks st 1 = Some [] \<and> order_view st 1 = None)),
     (''Scenario4_MultipleOrdersAtLevel_PartialRemoval'',
        after [add 1 CHR ''B'' 200 300000, add 2 CHR ''B'' 150 300000, del 1]
          (\<lambda>st. bids st 1 = Some [(300000, 150, 1)] \<and> order_view st 1 = None \<and> order_view st 2 \<noteq> None)),
     (''Scenario5_MidSessionStart_UnknownRefs'',
        after [execute 9999 50, cancel 8888 25, add 1 CHR ''B'' 100 200000]
          (\<lambda>st. skipped_unknown_ref st = 2 \<and> bids st 1 = Some [(200000, 100, 1)] \<and> order_view st 1 \<noteq> None))] = []"
  by code_simp

section \<open>Instruments\<close>

lemma engine_tests_instruments:
  "failed
    [(''StockDirectory_PopulatesRegistry'',
        after [directory 99 ''TSLA''] (\<lambda>st. get_instrument st 99 = Some
          \<lparr>in_stock_locate = 99, in_symbol = ''TSLA'', in_trading_state = CHR ''T'', in_round_lot_size = 100,
           in_market_category = CHR ''Q'', in_financial_status = CHR ''N''\<rparr>)),
     (''TradingAction_UpdatesState'',
        after [trading_action 1 CHR ''H''] (\<lambda>st. map_option in_trading_state (get_instrument st 1) = Some CHR ''H'')),
     (''TradingAction_RestoresAfterHalt'',
        after [trading_action 1 CHR ''H'', trading_action 1 CHR ''T'']
          (\<lambda>st. map_option in_trading_state (get_instrument st 1) = Some CHR ''T'')),
     (''TradingAction_AllFourStates'',
        list_all (\<lambda>s. after [trading_action 1 s] (\<lambda>st. map_option in_trading_state (get_instrument st 1) = Some s))
          ''THPQ''),
     (''UnknownLocate_CreatesPlaceholder'',
        after [add_at 0 1 CHR ''B'' 100 1000000 77]
          (\<lambda>st. map_option in_symbol (get_instrument st 77) = Some ''UNKNOWN_77'' \<and> bids st 77 = Some [(1000000, 100, 1)])),
     (''UnknownLocate_SymbolResolvesAfterDirectory'',
        after [add_at 0 1 CHR ''B'' 100 1000000 55, directory 55 ''META'']
          (\<lambda>st. map_option in_symbol (get_instrument st 55) = Some ''META'' \<and> bids st 55 = Some [(1000000, 100, 1)]))] = []"
  by code_simp

section \<open>Counters and corruption guards\<close>

lemma engine_tests_counters:
  "failed
    [(''MessagesProcessed_CountsAllTypes'',
        after [add 1 CHR ''B'' 100 1000000, execute 1 50, cancel 1 25] (\<lambda>st. messages_processed st = 3)),
     (''OversizedExecute_ClampsToZeroAndErasesOrder'',
        after [add 1 CHR ''S'' 100 1000100, execute 1 200]
          (\<lambda>st. order_view st 1 = None \<and> asks st 1 = Some [] \<and> corrupt_messages st = 1)),
     (''OversizedCancel_ClampsToZeroAndErasesOrder'',
        after [add 1 CHR ''B'' 50 1000000, cancel 1 300]
          (\<lambda>st. order_view st 1 = None \<and> bids st 1 = Some [] \<and> corrupt_messages st = 1)),
     (''OversizedCancel_NoPhantomLiquidity'',
        after [add 1 CHR ''B'' 100 1000000, add 2 CHR ''B'' 100 1000000, cancel 1 500]
          (\<lambda>st. order_view st 1 = None \<and> bids st 1 = Some [(1000000, 100, 1)] \<and> corrupt_messages st = 1)),
     (''NormalExecute_DoesNotIncrementCorruptCounter'',
        after [add 1 CHR ''S'' 200 1000100, execute 1 100] (\<lambda>st. corrupt_messages st = 0))] = []"
  by code_simp

section \<open>Time stamps in snapshots\<close>

definition build_snapshot_for_test :: "SnapEnv \<Rightarrow> Engine \<Rightarrow> SystemSnapshot" where
  "build_snapshot_for_test = build_snapshot"

definition stamp_of :: "u16 list \<Rightarrow> u16 list \<Rightarrow> string \<Rightarrow> Engine \<Rightarrow> u64 option" where
  "stamp_of bs is symbol st =
     map_option bs_last_update_timestamp
       (map_of (ss_books (build_snapshot_for_test
          \<lparr>env_books = bs, env_instruments = is, env_symbols = [], env_now_ms = 0\<rparr> st)) symbol)"

lemma engine_tests_time_stamps:
  "failed
    [(''Timestamp_SetByAddOrder'',
        after [add_at 34200000000000 1 CHR ''B'' 100 1000000 1]
          (\<lambda>st. stamp_of [1] [1] ''AAPL'' st = Some 34200000000000)),
     (''Timestamp_UpdatedBySubsequentMutation'',
        after [add_at 34200000000000 1 CHR ''B'' 500 1000000 1, cancel_at 34200000001000 1 200]
          (\<lambda>st. stamp_of [1] [1] ''AAPL'' st = Some 34200000001000)),
     (''Timestamp_UpdatedByExecute'',
        after [add_at 34200000000000 1 CHR ''S'' 100 1000100 1, execute_at 34200000002000 1 50]
          (\<lambda>st. stamp_of [1] [1] ''AAPL'' st = Some 34200000002000)),
     (''Timestamp_UpdatedByDelete'',
        after [add_at 34200000000000 1 CHR ''B'' 200 1000000 1, del_at 34200000003000 1]
          (\<lambda>st. stamp_of [1] [1] ''AAPL'' st = Some 34200000003000)),
     (''Timestamp_UpdatedByReplace'',
        after [add_at 34200000000000 1 CHR ''S'' 400 501000 1, replace_at 34200000004000 1 2 350 501500]
          (\<lambda>st. stamp_of [1] [1] ''AAPL'' st = Some 34200000004000)),
     (''Timestamp_ZeroForInstrumentWithNoBookActivity'',
        stamp_of [] [1, 2] ''MSFT''
          (register_instrument (test_info 2 ''MSFT'') (register_instrument (test_info 1 ''AAPL'') init_engine)) = Some 0)] = []"
  by code_simp

end
