(* ===== verification/Test_Parser.thy ===== *)
theory Test_Parser
  imports Bench_Parser Frame_Loop Feed_File Test_Prelude
begin

text \<open>
  The unit tests of \<^verbatim>\<open>tests/test_parser.cpp\<close> run on the model, under the names of the tests. The tests of
  the parser give the whole message where the test compares some of its fields; those of the file
  reader run on the bytes of \<^verbatim>\<open>tests/fixtures/sample.bin\<close>.
\<close>

section \<open>Test buffers\<close>

definition put_alpha :: "u8 list \<Rightarrow> nat \<Rightarrow> string \<Rightarrow> nat \<Rightarrow> u8 list" where
  "put_alpha buf off s width =
     fold (\<lambda>i b. b[off + i := if i < length s then byte_of_char (s ! i) else byte_of_char CHR '' '']) [0..<width] buf"

definition typed_buffer :: "nat \<Rightarrow> char \<Rightarrow> u8 list" where
  "typed_buffer n c = (replicate n 0)[0 := byte_of_char c]"

definition header :: "u8 list \<Rightarrow> u16 \<Rightarrow> u16 \<Rightarrow> u64 \<Rightarrow> u8 list" where
  "header buf locate tracking t = write_be48 (write_be16 (write_be16 buf 1 locate) 3 tracking) 5 t"

definition add_order_buffer :: "u8 list" where
  "add_order_buffer =
     (let buf = header (typed_buffer 36 CHR ''A'') 42 7 34200000000000;
          buf = write_be64 buf 11 999888777;
          buf = buf[19 := byte_of_char CHR ''B''];
          buf = write_be32 buf 20 500;
          buf = put_alpha buf 24 ''AAPL'' 8
      in write_be32 buf 32 1894200)"

definition mpid_buffer :: "u8 list" where
  "mpid_buffer =
     (let buf = header (typed_buffer 40 CHR ''F'') 10 1 12345678901;
          buf = write_be64 buf 11 111222333;
          buf = buf[19 := byte_of_char CHR ''S''];
          buf = write_be32 buf 20 200;
          buf = put_alpha buf 24 ''GOOG'' 8;
          buf = write_be32 buf 32 500000
      in put_alpha buf 36 ''NSDQ'' 4)"

definition executed_buffer :: "u8 list" where
  "executed_buffer =
     (let buf = header (typed_buffer 31 CHR ''E'') 5 2 99999999999;
          buf = write_be64 buf 11 777666555;
          buf = write_be32 buf 19 100
      in write_be64 buf 23 888999)"

definition executed_price_buffer :: "u8 list" where
  "executed_price_buffer =
     (let buf = header (typed_buffer 36 CHR ''C'') 3 0 50000000000;
          buf = write_be64 buf 11 444333222;
          buf = write_be32 buf 19 50;
          buf = write_be64 buf 23 12345;
          buf = buf[31 := byte_of_char CHR ''Y'']
      in write_be32 buf 32 1900000)"

definition cancel_buffer :: "u8 list" where
  "cancel_buffer = write_be32 (write_be64 (header (typed_buffer 23 CHR ''X'') 8 3 11111111111) 11 555444333) 19 75"

definition delete_buffer :: "u8 list" where
  "delete_buffer = write_be64 (header (typed_buffer 19 CHR ''D'') 2 1 22222222222) 11 123456789"

definition replace_buffer :: "u8 list" where
  "replace_buffer =
     (let buf = header (typed_buffer 35 CHR ''U'') 15 4 33333333333;
          buf = write_be64 buf 11 111111111;
          buf = write_be64 buf 19 222222222;
          buf = write_be32 buf 27 350
      in write_be32 buf 31 501500)"

definition directory_buffer :: "u16 \<Rightarrow> string \<Rightarrow> u64 \<Rightarrow> u8 list" where
  "directory_buffer locate symbol t =
     (let buf = header (typed_buffer 39 CHR ''R'') locate 0 t;
          buf = put_alpha buf 11 symbol 8;
          buf = buf[19 := byte_of_char CHR ''Q'', 20 := byte_of_char CHR ''N''];
          buf = write_be32 buf 21 100;
          buf = buf[25 := byte_of_char CHR ''N'', 26 := byte_of_char CHR ''C''];
          buf = put_alpha buf 27 ''AD'' 2;
          buf = buf[29 := byte_of_char CHR ''P'', 30 := byte_of_char CHR ''N'', 31 := byte_of_char CHR ''N'',
                    32 := byte_of_char CHR ''1'', 33 := byte_of_char CHR ''N''];
          buf = write_be32 buf 34 0
      in buf[38 := byte_of_char CHR ''N''])"

section \<open>Parser tests\<close>

lemma parser_tests:
  "failed
    [(''AddOrder_AllFields'',
        parse add_order_buffer = Inr (Some (AddOrder
          \<lparr>ao_stock_locate = 42, ao_tracking_number = 7, ao_timestamp = 34200000000000, ao_order_ref = 999888777,
           ao_side = CHR ''B'', ao_shares = 500, ao_stock = ''AAPL'', ao_price = Price 1894200\<rparr>))),
     (''AddOrderMPID_AllFields'',
        parse mpid_buffer = Inr (Some (AddOrderMPID
          \<lparr>am_stock_locate = 10, am_tracking_number = 1, am_timestamp = 12345678901, am_order_ref = 111222333,
           am_side = CHR ''S'', am_shares = 200, am_stock = ''GOOG'', am_price = Price 500000,
           am_attribution = ''NSDQ''\<rparr>))),
     (''OrderExecuted_AllFields'',
        parse executed_buffer = Inr (Some (OrderExecuted
          \<lparr>oe_stock_locate = 5, oe_tracking_number = 2, oe_timestamp = 99999999999, oe_order_ref = 777666555,
           oe_executed_shares = 100, oe_match_number = 888999\<rparr>))),
     (''OrderExecutedPrice_AllFields'',
        parse executed_price_buffer = Inr (Some (OrderExecutedPrice
          \<lparr>op_stock_locate = 3, op_tracking_number = 0, op_timestamp = 50000000000, op_order_ref = 444333222,
           op_executed_shares = 50, op_match_number = 12345, op_printable = CHR ''Y'',
           op_execution_price = Price 1900000\<rparr>))),
     (''OrderCancel_AllFields'',
        parse cancel_buffer = Inr (Some (OrderCancel
          \<lparr>oc_stock_locate = 8, oc_tracking_number = 3, oc_timestamp = 11111111111, oc_order_ref = 555444333,
           oc_cancelled_shares = 75\<rparr>))),
     (''OrderDelete_AllFields'',
        parse delete_buffer = Inr (Some (OrderDelete
          \<lparr>od_stock_locate = 2, od_tracking_number = 1, od_timestamp = 22222222222, od_order_ref = 123456789\<rparr>))),
     (''OrderReplace_AllFields'',
        parse replace_buffer = Inr (Some (OrderReplace
          \<lparr>or_stock_locate = 15, or_tracking_number = 4, or_timestamp = 33333333333,
           or_original_order_ref = 111111111, or_new_order_ref = 222222222, or_shares = 350,
           or_price = Price 501500\<rparr>))),
     (''StockDirectory_AllFields'',
        parse (directory_buffer 1 ''AAPL'' 1000000000) = Inr (Some (StockDirectory
          \<lparr>sd_stock_locate = 1, sd_tracking_number = 0, sd_timestamp = 1000000000, sd_stock = ''AAPL'',
           sd_market_category = CHR ''Q'', sd_financial_status = CHR ''N'', sd_round_lot_size = 100,
           sd_round_lots_only = CHR ''N'', sd_issue_classification = CHR ''C'', sd_issue_sub_type = ''AD'',
           sd_authenticity = CHR ''P'', sd_short_sale_threshold = CHR ''N'', sd_ipo_flag = CHR ''N'',
           sd_luld_ref_price_tier = CHR ''1'', sd_etp_flag = CHR ''N'', sd_etp_leverage_factor = 0,
           sd_inverse_indicator = CHR ''N''\<rparr>))),
     (''TradingAction_AllStates'',
        list_all (\<lambda>c. parse (put_alpha (put_alpha (write_be16
             ((typed_buffer 25 CHR ''H'')[19 := byte_of_char c]) 1 1) 11 ''AAPL'' 8) 21 ''MWCB'' 4) =
          Inr (Some (StockTradingAction
            \<lparr>ta_stock_locate = 1, ta_tracking_number = 0, ta_timestamp = 0, ta_stock = ''AAPL'',
             ta_trading_state = c, ta_reserved = CHR 0x00, ta_reason = ''MWCB''\<rparr>))) ''THPQ''),
     (''OutOfScopeType_Discarded'',
        parse (typed_buffer 10 CHR ''P'') = Inr None),
     (''OutOfScopeType_Discarded'',
        parse (typed_buffer 10 CHR ''B'') = Inr None),
     (''OutOfScopeType_Discarded'',
        parse ((replicate 10 0)[0 := 0xFF]) = Inr None),
     (''EmptyBuffer_Throws'',
        parse [] = Inl EmptyBuffer),
     (''TruncatedAddOrder_Throws'',
        parse (typed_buffer 10 CHR ''A'') = Inl (Truncated ''AddOrder'' 36 10)),
     (''Timestamp_SixByteZeroExtension'',
        parse (write_be64 (fold (\<lambda>i b. b[5 + i := 0xFF]) [0..<6] (typed_buffer 36 CHR ''A'')) 11 0x0102030405060708) =
          Inr (Some (AddOrder
            \<lparr>ao_stock_locate = 0, ao_tracking_number = 0, ao_timestamp = 0x0000FFFFFFFFFFFF,
             ao_order_ref = 0x0102030405060708, ao_side = CHR 0x00, ao_shares = 0,
             ao_stock = replicate 8 (CHR 0x00), ao_price = Price 0\<rparr>)))] = []"
  by code_simp

section \<open>Feed reader tests\<close>

text \<open>The system returns at most seven bytes per call, so that every frame takes several reads.\<close>

primrec calls :: "nat \<Rightarrow> u8 list \<Rightarrow> (feed_exn + MessageBuffer option) list" where
  "calls 0 s = []"
| "calls (Suc k) s = (case feed_next_message (chunk_read 7) s of (r, s') \<Rightarrow> r # calls k s')"

definition sample_bin :: "u8 list" where
  "sample_bin = concat (map (\<lambda>(n, c). 0 # of_nat n # typed_buffer n c)
     [(36, CHR ''A''), (40, CHR ''F''), (31, CHR ''E''), (19, CHR ''D''), (39, CHR ''R'')])"

lemma feed_reader_tests:
  "failed
    [(''ReadsExpectedMessages'',
        map (map_sum id (map_option (\<lambda>m. (length m, char_of_byte (m ! 0))))) (calls 7 sample_bin) =
          [Inr (Some (36, CHR ''A'')), Inr (Some (40, CHR ''F'')), Inr (Some (31, CHR ''E'')),
           Inr (Some (19, CHR ''D'')), Inr (Some (39, CHR ''R'')), Inr None, Inr None]),
     (''ThrowsOnMissingFile'',
        fst (file_construct \<lparr>sys_open = (\<lambda>_ w. (- 1, w)), sys_close_fd = (\<lambda>_ w. (0, w))\<rparr>
          ''/nonexistent/path/file.bin'' ()) = Inl CannotOpen),
     (''ThrowsOnTruncatedFrame'',
        calls 1 [0, 0x14, 65, 0, 0, 0, 0] = [Inl TruncatedFrame]),
     (''EmptyFileReturnsNullopt'',
        calls 1 [] = [Inr None])] = []"
  by code_simp

end
