(* ===== verification/Test_Udp.thy ===== *)
theory Test_Udp
  imports Udp_Feed_Reader Bench_Parser Test_Prelude
begin

text \<open>
  The unit tests of \<^verbatim>\<open>tests/test_udp_feed_reader.cpp\<close> run on the model. The packets that a test sends
  over the loopback interface are the events of the reader.
\<close>

section \<open>Packets and payloads\<close>

definition mold_header :: "u64 \<Rightarrow> u16 \<Rightarrow> u8 list" where
  "mold_header seq msg_count = write_be16 (write_be64 (replicate 10 32 @ replicate 10 0) 10 seq) 18 msg_count"

definition send_mold_packet :: "u64 \<Rightarrow> MessageBuffer list \<Rightarrow> recv_event" where
  "send_mold_packet seq messages =
     Packet (mold_header seq (of_nat (length messages)) @
       concat (map (\<lambda>msg. write_be16 [0, 0] 0 (of_nat (length msg)) @ msg) messages))"

definition send_heartbeat :: "u64 \<Rightarrow> recv_event" where
  "send_heartbeat seq = Packet (mold_header seq 0xFFFF)"

definition send_empty_packet :: "u64 \<Rightarrow> recv_event" where
  "send_empty_packet seq = Packet (mold_header seq 0)"

definition make_payload :: "char \<Rightarrow> nat \<Rightarrow> MessageBuffer" where
  "make_payload first_byte len = (replicate len 0xAB)[0 := byte_of_char first_byte]"

text \<open>Read \<open>n\<close> messages; the messages and the reader, or \<^const>\<open>None\<close> when a call gives no message.\<close>

primrec read_n :: "nat \<Rightarrow> UDPFeedReader \<Rightarrow> recv_event list \<Rightarrow> (MessageBuffer list \<times> UDPFeedReader) option" where
  "read_n 0 u evs = Some ([], u)"
| "read_n (Suc n) u evs =
     (case udp_next_message evs u of
        Some (Message m, u', evs') \<Rightarrow> map_option (\<lambda>(ms, v). (m # ms, v)) (read_n n u' evs')
      | _ \<Rightarrow> None)"

text \<open>The messages, the gaps and the number of messages received.\<close>

definition read_test :: "nat \<Rightarrow> recv_event list \<Rightarrow> (MessageBuffer list \<times> u64 \<times> u64) option" where
  "read_test n evs =
     map_option (\<lambda>(ms, u). (ms, ud_gaps_detected u, ud_messages_received u)) (read_n n udp_init evs)"

abbreviation payload :: "char \<Rightarrow> MessageBuffer" where
  "payload c \<equiv> make_payload c 16"

section \<open>Tests\<close>

lemma udp_tests:
  "failed
    [(''SingleMessageInPacket'',
        read_test 1 [send_mold_packet 1 [payload CHR ''A'']] = Some ([payload CHR ''A''], 0, 1)),
     (''MultipleMessagesInOnePacket'',
        read_test 3 [send_mold_packet 1 [make_payload CHR ''A'' 36, make_payload CHR ''D'' 19, make_payload CHR ''E'' 31]] =
          Some ([make_payload CHR ''A'' 36, make_payload CHR ''D'' 19, make_payload CHR ''E'' 31], 0, 3)),
     (''MultiplePacketsSequential_NoGap'',
        read_test 3 [send_mold_packet 1 [payload CHR ''A''], send_mold_packet 2 [payload CHR ''D''],
            send_mold_packet 3 [payload CHR ''E'']] =
          Some ([payload CHR ''A'', payload CHR ''D'', payload CHR ''E''], 0, 3)),
     (''SequenceGap_DetectedAndCounted'',
        read_test 2 [send_mold_packet 1 [payload CHR ''A''], send_mold_packet 5 [payload CHR ''D'']] =
          Some ([payload CHR ''A'', payload CHR ''D''], 3, 2)),
     (''HeartbeatPacket_ProducesNoMessage'',
        read_test 1 [send_heartbeat 1, send_mold_packet 1 [payload CHR ''R'']] = Some ([payload CHR ''R''], 0, 1)),
     (''HeartbeatPacket_DoesNotAffectGapCounting'',
        read_test 2 [send_mold_packet 1 [payload CHR ''A''], send_heartbeat 2, send_mold_packet 2 [payload CHR ''D'']] =
          Some ([payload CHR ''A'', payload CHR ''D''], 0, 2)),
     (''EmptyPacket_ProducesNoMessage_NoGap'',
        read_test 1 [send_empty_packet 1, send_mold_packet 1 [payload CHR ''A'']] = Some ([payload CHR ''A''], 0, 1)),
     (''MessagePayloadIntegrity'',
        read_test 1 [send_mold_packet 1 [map of_nat [0..<36]]] = Some ([map of_nat [0..<36]], 0, 1)),
     (''MultipleGaps_Accumulate'',
        read_test 3 [send_mold_packet 1 [payload CHR ''A''], send_mold_packet 3 [payload CHR ''D''],
            send_mold_packet 7 [payload CHR ''E'']] =
          Some ([payload CHR ''A'', payload CHR ''D'', payload CHR ''E''], 4, 3)),
     (''DuplicatePacket_Discarded'',
        read_test 2 [send_mold_packet 1 [payload CHR ''A''], send_mold_packet 1 [payload CHR ''D''],
            send_mold_packet 2 [payload CHR ''E'']] =
          Some ([payload CHR ''A'', payload CHR ''E''], 0, 2))] = []"
  by code_simp

end
