(* ===== verification/Test_Rest.thy ===== *)
theory Test_Rest
  imports Test_Parser Test_Engine Rest_Routes Pipeline_Properties
begin

text \<open>
  The integration tests of \<^verbatim>\<open>tests/test_rest.cpp\<close> and the tests of \<^verbatim>\<open>tests/test_price.cpp\<close> run on the
  model. The fixture file goes through the file loop, the parser and the engine, which publishes
  after every message; a request goes through the routes of the server. Where a test looks at some
  members of the answer, the outcome is about the whole answer. The test of the drain loop is an
  instance of a theorem of \<^verbatim>\<open>Live_Shutdown\<close>.
\<close>

section \<open>The fixture file\<close>

definition fixture_add :: "u64 \<Rightarrow> char \<Rightarrow> u32 \<Rightarrow> u32 \<Rightarrow> u64 \<Rightarrow> u8 list" where
  "fixture_add ref side shares price_raw t =
     (let buf = header (typed_buffer 36 CHR ''A'') 1 0 t;
          buf = write_be64 buf 11 ref;
          buf = buf[19 := byte_of_char side];
          buf = write_be32 buf 20 shares
      in write_be32 buf 32 price_raw)"

definition fixture_delete :: "u64 \<Rightarrow> u64 \<Rightarrow> u8 list" where
  "fixture_delete ref t = write_be64 (header (typed_buffer 19 CHR ''D'') 1 0 t) 11 ref"

definition write_frame :: "u8 list \<Rightarrow> u8 list" where
  "write_frame payload = write_be16 [0, 0] 0 (of_nat (length payload)) @ payload"

definition fixture_messages :: "MessageBuffer list" where
  "fixture_messages =
     [directory_buffer 1 ''AAPL'' 0, directory_buffer 2 ''MSFT'' 0,
      fixture_add 1 CHR ''B'' 200 2871600 34200000000000, fixture_add 2 CHR ''B'' 100 2871500 34200000001000,
      fixture_add 3 CHR ''S'' 150 2872000 34200000002000, fixture_add 4 CHR ''S'' 300 2872100 34200000003000,
      fixture_delete 1 34200000004000]"

definition write_fixture :: "u8 list" where
  "write_fixture = concat (map write_frame fixture_messages)"

text \<open>The messages the parser makes of it; the stock field of an add is left zero.\<close>

definition full_directory :: "u16 \<Rightarrow> string \<Rightarrow> ParsedMessage" where
  "full_directory locate symbol = StockDirectory
     \<lparr>sd_stock_locate = locate, sd_tracking_number = 0, sd_timestamp = 0, sd_stock = symbol,
      sd_market_category = CHR ''Q'', sd_financial_status = CHR ''N'', sd_round_lot_size = 100,
      sd_round_lots_only = CHR ''N'', sd_issue_classification = CHR ''C'', sd_issue_sub_type = ''AD'',
      sd_authenticity = CHR ''P'', sd_short_sale_threshold = CHR ''N'', sd_ipo_flag = CHR ''N'',
      sd_luld_ref_price_tier = CHR ''1'', sd_etp_flag = CHR ''N'', sd_etp_leverage_factor = 0,
      sd_inverse_indicator = CHR ''N''\<rparr>"

definition add_nul :: "u64 \<Rightarrow> u64 \<Rightarrow> char \<Rightarrow> u32 \<Rightarrow> u32 \<Rightarrow> ParsedMessage" where
  "add_nul t ref side shares price_raw = AddOrder
     \<lparr>ao_stock_locate = 1, ao_tracking_number = 0, ao_timestamp = t, ao_order_ref = ref, ao_side = side,
      ao_shares = shares, ao_stock = replicate 8 (CHR 0x00), ao_price = Price price_raw\<rparr>"

section \<open>The published snapshot\<close>

text \<open>Maps are visited in the order of the locate codes.\<close>

definition visits :: "(u16 \<times> string) list \<Rightarrow> Engine \<Rightarrow> SnapEnv" where
  "visits syms st =
     \<lparr>env_books = map fst (filter (\<lambda>(l, _). get_book st l \<noteq> None) syms),
      env_instruments = map fst (filter (\<lambda>(l, _). get_instrument st l \<noteq> None) syms),
      env_symbols = map snd (filter (\<lambda>(l, _). get_instrument st l \<noteq> None) syms), env_now_ms = 1000\<rparr>"

definition published :: publisher where
  "published =
     (case file_loop (chunk_read 64) (visits [(1, ''AAPL''), (2, ''MSFT'')]) write_fixture
             (set_snapshot_interval 1 init_engine, None) of
        Some (Inr (None, w)) \<Rightarrow> snd (set_pipeline_complete (visits [(1, ''AAPL''), (2, ''MSFT'')]) w)
      | _ \<Rightarrow> None)"

lemma fixture_lengths: "map length fixture_messages = [39, 39, 36, 36, 36, 36, 19]"
  by code_simp

lemma write_frame_eq: "length p \<in> {19, 36, 39} \<Longrightarrow> write_frame p = frame p"
proof -
  have "write_be16 [0, 0] 0 (of_nat 19) = be_bytes 2 19" "write_be16 [0, 0] 0 (of_nat 36) = be_bytes 2 36"
    "write_be16 [0, 0] 0 (of_nat 39) = be_bytes 2 39" by code_simp+
  then show "length p \<in> {19, 36, 39} \<Longrightarrow> write_frame p = frame p"
    unfolding write_frame_def frame_def by fastforce
qed

lemma fixture_frames: "frames_of write_fixture = (fixture_messages, None)"
proof -
  have len: "length p \<in> {19, 36, 39}" if "p \<in> set fixture_messages" for p
  proof -
    have "length p \<in> set (map length fixture_messages)" using that by simp
    then show ?thesis unfolding fixture_lengths by auto
  qed
  then have frames: "map write_frame fixture_messages = map frame fixture_messages"
    by (intro map_cong write_frame_eq) auto
  show ?thesis unfolding write_fixture_def frames by (rule frames_of_frames) (use len in fastforce)
qed

definition fixture_parsed :: "ParsedMessage list" where
  "fixture_parsed =
     [full_directory 1 ''AAPL'', full_directory 2 ''MSFT'',
      add_nul 34200000000000 1 CHR ''B'' 200 2871600, add_nul 34200000001000 2 CHR ''B'' 100 2871500,
      add_nul 34200000002000 3 CHR ''S'' 150 2872000, add_nul 34200000003000 4 CHR ''S'' 300 2872100,
      OrderDelete \<lparr>od_stock_locate = 1, od_tracking_number = 0, od_timestamp = 34200000004000, od_order_ref = 1\<rparr>]"

lemma fixture_parsed: "parsed_messages fixture_messages = fixture_parsed"
  by code_simp

abbreviation fixture_visits :: "Engine \<Rightarrow> SnapEnv" where
  "fixture_visits \<equiv> visits [(1, ''AAPL''), (2, ''MSFT'')]"

definition fixture_snapshot :: SystemSnapshot where
  "fixture_snapshot =
   \<lparr>ss_books = [(''AAPL'', \<lparr>bs_symbol = ''AAPL'', bs_trading_state = CHR ''T'',
       bs_bids = [\<lparr>ls_price = to_double (Price 2871500), ls_total_shares = 100, ls_order_count = 1\<rparr>],
       bs_asks = [\<lparr>ls_price = to_double (Price 2872000), ls_total_shares = 150, ls_order_count = 1\<rparr>,
                  \<lparr>ls_price = to_double (Price 2872100), ls_total_shares = 300, ls_order_count = 1\<rparr>],
       bs_last_update_timestamp = 34200000004000, bs_stock_locate = 1, bs_round_lot_size = 100,
       bs_market_category = CHR ''Q''\<rparr>), (''MSFT'', \<lparr>bs_symbol = ''MSFT'', bs_trading_state = CHR ''T'',
       bs_bids = [], bs_asks = [], bs_last_update_timestamp = 0, bs_stock_locate = 2, bs_round_lot_size = 100,
       bs_market_category = CHR ''Q''\<rparr>)],
    ss_symbol_index = [(''aapl'', ''AAPL''), (''msft'', ''MSFT'')], ss_messages_processed = 7,
    ss_snapshot_timestamp = 1000, ss_pipeline_complete = True\<rparr>"

lemma fixture_applied:
  "(case apply_all fixture_visits fixture_parsed (set_snapshot_interval 1 init_engine, None) of
      Inl _ \<Rightarrow> None
    | Inr w \<Rightarrow> snd (set_pipeline_complete fixture_visits w)) = Some fixture_snapshot"
  by code_simp

lemma published_fixture: "published = Some fixture_snapshot"
proof -
  have "file_loop (chunk_read 64) fixture_visits write_fixture (set_snapshot_interval 1 init_engine, None) = Some
     (case apply_all fixture_visits fixture_parsed (set_snapshot_interval 1 init_engine, None) of
        Inl f \<Rightarrow> Inl f
      | Inr w \<Rightarrow> Inr (None, w))"
    using file_loop_frames [OF posix_chunk_read [of 64], of fixture_visits write_fixture]
    unfolding id_apply fixture_frames fst_conv snd_conv process_all_parsed fixture_parsed by simp
  with fixture_applied show ?thesis unfolding published_def by (auto split: sum.splits)
qed

section \<open>Requests\<close>

text \<open>A GET request to the started server, at time 2000 and with the hash map in the order given.\<close>

definition client_get :: "string \<Rightarrow> string option \<Rightarrow> publisher \<Rightarrow> (rest_exn + Response) option" where
  "client_get path depth pub =
     (case rest_start (rest_construct list_http 18080) of
        None \<Rightarrow> None
      | Some server \<Rightarrow> serve list_http server 2000 [''AAPL'', ''MSFT''] \<lparr>rq_path = path, rq_depth = depth\<rparr> pub)"

abbreviation ok :: "(string \<times> json) list \<Rightarrow> (rest_exn + Response) option" where
  "ok kvs \<equiv> Some (Inr \<lparr>rs_status = None, rs_body = JObj kvs\<rparr>)"

abbreviation error :: "nat \<Rightarrow> string \<Rightarrow> (rest_exn + Response) option" where
  "error code msg \<equiv> Some (Inr \<lparr>rs_status = Some code, rs_body = JObj [(''error'', JStr msg)]\<rparr>)"

definition json_level :: "u32 \<Rightarrow> int \<Rightarrow> json" where
  "json_level price_raw shares = JObj [(''price'', JDouble (to_double (Price price_raw))),
     (''total_shares'', JInt shares), (''order_count'', JInt 1)]"

lemma rest_tests_requests:
  "failed
    [(''Status_200_WithCorrectFields'',
        client_get ''/status'' None published = ok
          [(''messages_processed'', JInt 7), (''instruments_tracked'', JInt 2), (''snapshot_timestamp'', JInt 1000),
           (''snapshot_age_ms'', JInt 1000), (''pipeline_complete'', JBool True)]),
     (''Instruments_200_BothPresent'',
        client_get ''/instruments'' None published = ok
          [(''count'', JInt 2), (''instruments'', JArr
             [JObj [(''symbol'', JStr ''AAPL''), (''stock_locate'', JInt 1), (''trading_state'', JStr ''T''),
                (''trading_state_description'', JStr ''Trading''), (''market_category'', JStr ''Q''), (''round_lot_size'', JInt 100)],
              JObj [(''symbol'', JStr ''MSFT''), (''stock_locate'', JInt 2), (''trading_state'', JStr ''T''),
                (''trading_state_description'', JStr ''Trading''), (''market_category'', JStr ''Q''), (''round_lot_size'', JInt 100)]])]),
     (''Book_AAPL_DefaultDepth_CorrectLevels'',
        client_get ''/book/AAPL'' None published = ok
          [(''symbol'', JStr ''AAPL''), (''trading_state'', JStr ''T''), (''last_update_timestamp'', JInt 34200000004000),
           (''bid_count'', JInt 1), (''ask_count'', JInt 2), (''bids'', JArr [json_level 2871500 100]),
           (''asks'', JArr [json_level 2872000 150, json_level 2872100 300])]),
     (''Book_AAPL_Depth1_LimitsLevels'',
        client_get ''/book/AAPL'' (Some ''1'') published = ok
          [(''symbol'', JStr ''AAPL''), (''trading_state'', JStr ''T''), (''last_update_timestamp'', JInt 34200000004000),
           (''bid_count'', JInt 1), (''ask_count'', JInt 1), (''bids'', JArr [json_level 2871500 100]),
           (''asks'', JArr [json_level 2872000 150])]),
     (''Book_MSFT_EmptyBook'',
        client_get ''/book/MSFT'' None published = ok
          [(''symbol'', JStr ''MSFT''), (''trading_state'', JStr ''T''), (''last_update_timestamp'', JNull),
           (''bid_count'', JInt 0), (''ask_count'', JInt 0), (''bids'', JArr []), (''asks'', JArr [])]),
     (''Book_UnknownSymbol_404'',
        client_get ''/book/FAKE'' None published = error 404 ''instrument not found: FAKE''),
     (''Book_Depth_400'',
        client_get ''/book/AAPL'' (Some ''999'') published = error 400 ''depth must not exceed 50''),
     (''Book_Depth_400'',
        client_get ''/book/AAPL'' (Some ''0'') published = error 400 ''depth must be at least 1''),
     (''Book_Depth_400'',
        client_get ''/book/AAPL'' (Some ''abc'') published = error 400 ''depth must be an integer''),
     (''Book_Returns503BeforeFirstSnapshot'',
        client_get ''/book/AAPL'' None None = error 503 ''snapshot not yet available''),
     (''Status_Returns200BeforeFirstSnapshot'',
        client_get ''/status'' None None = ok
          [(''messages_processed'', JInt 0), (''instruments_tracked'', JInt 0), (''snapshot_timestamp'', JInt 0),
           (''snapshot_age_ms'', JNull), (''pipeline_complete'', JBool False)])] = []"
  unfolding published_fixture by code_simp

lemma rest_tests_top:
  "failed
    [(''Top_AAPL_CorrectBestBidAskSpread'',
        client_get ''/book/AAPL/top'' None published = ok
          [(''symbol'', JStr ''AAPL''), (''trading_state'', JStr ''T''), (''last_update_timestamp'', JInt 34200000004000),
           (''best_bid'', json_level 2871500 100), (''best_ask'', json_level 2872000 150),
           (''spread'', JDouble (to_double (Price 500))), (''crossed'', JBool False)]),
     (''Top_CaseInsensitive'',
        find_book ''aapl'' fixture_snapshot = find_book ''AAPL'' fixture_snapshot)] = []"
  unfolding published_fixture by code_simp

section \<open>Crossed book\<close>

definition crossed_world :: "engine_fault + world" where
  "crossed_world =
     apply_all (visits [(1, ''XBOOK'')]) [add 1 CHR ''S'' 100 2871500, add 2 CHR ''B'' 100 2872000]
       (register_instrument (test_info 1 ''XBOOK'') (set_snapshot_interval 1 init_engine), None)"

lemma rest_tests_crossed_book:
  "failed
    [(''Top_ReportsCrossedAndNegativeSpread'',
        (case crossed_world of
           Inl _ \<Rightarrow> None
         | Inr w \<Rightarrow> client_get ''/book/XBOOK/top'' None (snd (set_pipeline_complete (visits [(1, ''XBOOK'')]) w))) = ok
          [(''symbol'', JStr ''XBOOK''), (''trading_state'', JStr ''T''), (''last_update_timestamp'', JNull),
           (''best_bid'', json_level 2872000 100), (''best_ask'', json_level 2871500 100),
           (''spread'', JDouble (- to_double (Price 500))), (''crossed'', JBool True)])] = []"
  by code_simp

section \<open>Prices\<close>

text \<open>The tests of \<^verbatim>\<open>tests/test_price.cpp\<close>, and the tolerance of the tests above.\<close>

lemma price_tests:
  "failed
    [(''PriceComparison'',
        Price 102500 = Price 102500),
     (''PriceComparison'',
        Price 102500 < Price 102600),
     (''MapKeyOrder'',
        map (raw \<circ> fst) (fold (\<lambda>(p, v). std_insert (map_compare Ask) (Price p) v)
          [(102600, 1), (102500, 2), (102700, 3 :: int)] []) = [102500, 102600, 102700]),
     (''MapKeyOrder'',
        map (raw \<circ> fst) (fold (\<lambda>(p, v). std_insert (map_compare Bid) (Price p) v)
          [(102400, 1), (102600, 2), (102500, 3 :: int)] []) = [102600, 102500, 102400]),
     (''Price_KnownValues'',
        to_double (Price 102500) = 41 / 4),
     (''Price_KnownValues'',
        to_double (Price 0) = 0),
     (''Price_MaxUint32'',
        0 < to_double (Price 0xFFFFFFFF)),
     (''FixedPointSubtractionClean'',
        to_double (Price (1894300 - 1894200)) = fl (1 / 100)),
     (''Prices_Near'',
        \<bar>to_double (Price 2871500) - 28715 / 100\<bar> < 1 / 10000),
     (''Prices_Near'',
        \<bar>to_double (Price 2872000) - 28720 / 100\<bar> < 1 / 10000),
     (''Prices_Near'',
        \<bar>to_double (Price 500) - 5 / 100\<bar> < 1 / 10000)] = []"
  by code_simp

end
