(* ===== verification/Spec2Isabelle.thy ===== *)
theory Spec2Isabelle
  imports Wire_Format Array_Ladder Engine_Properties Rest_Properties Pipeline_Properties End_To_End
    Main_Program Live_Shutdown Udp_Socket Engine_Typing Bench_Ladders Bench_Engine Bench_Mixed Bench_Replay
    Bench_Profile Bench_Parser Bench_Snapshot Test_Engine Test_Parser Test_Udp Test_Rest
begin

text \<open>
  \<^bold>\<open>A verification library for itch-parser.\<close> The program reads a NASDAQ TotalView-ITCH 5.0 feed, from a
  file of length-prefixed frames or from MoldUDP64 packets on a multicast socket, parses the
  messages, keeps one limit order book per instrument, publishes immutable snapshots of all books
  and serves them to HTTP clients as JSON. The paths below are those of the repository.

  \<^bold>\<open>Parts and theories.\<close>
  \<^item> \<^verbatim>\<open>Itch_Prelude\<close>: types, lemma collections and the facts on words, lists and maps that the
    components share.
  \<^item> \<^verbatim>\<open>Byte_Order\<close>, \<^verbatim>\<open>Messages\<close>, \<^verbatim>\<open>Parser\<close>: \<^verbatim>\<open>include/itch/byte_order.h\<close>, \<^verbatim>\<open>messages.h\<close>, \<^verbatim>\<open>price.h\<close> and
    \<^verbatim>\<open>src/parser.cpp\<close>. A buffer is a list of bytes, an exception is the left value of a sum, and a read
    outside a buffer is \<^const>\<open>None\<close>, so that no out-of-bounds access goes unnoticed. Both dispatchers
    (switch and computed goto) are modelled and shown equal. \<^verbatim>\<open>Wire_Format\<close> adds the encoder of the
    specification and the two round trips.
  \<^item> \<^verbatim>\<open>Std_Map\<close>, \<^verbatim>\<open>Order_Book\<close>: \<^verbatim>\<open>std::map\<close> as an association list sorted by its comparator, and the
    structs of \<^verbatim>\<open>order_book.h\<close>, \<^verbatim>\<open>order_record.h\<close> and \<^verbatim>\<open>instrument_info.h\<close>.
  \<^item> \<^verbatim>\<open>Price_Ladder\<close>, \<^verbatim>\<open>Ladder_Contract\<close>, \<^verbatim>\<open>Array_Ladder\<close>, \<^verbatim>\<open>Ladder_Prices\<close>: the three ladders of
    \<^verbatim>\<open>price_ladder.h\<close>, the interface they share as a locale, its interpretations, and the agreement of
    the ladders on the operations they support.
  \<^item> \<^verbatim>\<open>Book_Engine\<close>: the state and all handlers of \<^verbatim>\<open>src/book_engine.cpp\<close>. \<^verbatim>\<open>Engine_Levels\<close>,
    \<^verbatim>\<open>Engine_Invariants\<close>, \<^verbatim>\<open>Engine_Consistency\<close> and \<^verbatim>\<open>Engine_Properties\<close> prove the well-formedness of the
    books, that every level is the aggregate of its live orders, the refinement of an abstract
    market, and what each message does. \<^verbatim>\<open>Engine_Counters\<close> adds \<^verbatim>\<open>log_summary\<close> and what the diagnostic
    counters count. \<^verbatim>\<open>Engine_Contract\<close> states as locales what an invariant of the engine has to satisfy
    so that it holds in both modes of the program; \<^verbatim>\<open>Engine_Typing\<close> is such an invariant, the form of
    what arbitrary bytes can leave in the engine.
  \<^item> \<^verbatim>\<open>Binary64\<close>, \<^verbatim>\<open>Price_Double\<close>: round-to-nearest-even on rationals for the range of prices, and the
    conversions of prices to and from double.
  \<^item> \<^verbatim>\<open>Snapshot\<close>, \<^verbatim>\<open>Snapshot_Properties\<close>: \<^verbatim>\<open>apply\<close>, \<^verbatim>\<open>build_snapshot\<close>, the publishing schedule and
    \<^verbatim>\<open>src/snapshot_publisher.cpp\<close>.
  \<^item> \<^verbatim>\<open>Feed_Reader\<close>, \<^verbatim>\<open>Feed_File\<close>, \<^verbatim>\<open>Frame_Loop\<close>: \<^verbatim>\<open>src/feed_reader.cpp\<close> and, as a locale,
    the loops that consume its frames. \<^verbatim>\<open>Udp_Feed_Reader\<close>, \<^verbatim>\<open>Udp_Socket\<close>: \<^verbatim>\<open>src/udp_feed_reader.cpp\<close>, packets and socket.
  \<^item> \<^verbatim>\<open>Rest_Server\<close>, \<^verbatim>\<open>Rest_Properties\<close>: the handlers of \<^verbatim>\<open>src/rest_server.cpp\<close>, from the request
    parameters to the JSON value or the exception. \<^verbatim>\<open>Rest_Routes\<close>: the routes and the life cycle of
    the server object.
  \<^item> \<^verbatim>\<open>Pipeline\<close>, \<^verbatim>\<open>Pipeline_Properties\<close>: \<^verbatim>\<open>src/main.cpp\<close>, the configuration, file mode as a loop and
    live mode as a step relation on the two threads and the queue between them. \<^verbatim>\<open>Live_Shutdown\<close>:
    the drain at the end of live mode. \<^verbatim>\<open>Main_Program\<close> puts configuration, server and mode together.
  \<^item> \<^verbatim>\<open>End_To_End\<close>, \<^verbatim>\<open>Live_Serving\<close> and this theory: what a client is shown, in terms of the live
    orders of the feed, in either mode.
  \<^item> \<^verbatim>\<open>Bench_Rng\<close>, \<^verbatim>\<open>Bench_Ladders\<close>, \<^verbatim>\<open>Bench_Engine\<close>, \<^verbatim>\<open>Bench_Mixed\<close>, \<^verbatim>\<open>Bench_Replay\<close>,
    \<^verbatim>\<open>Bench_Profile\<close>, \<^verbatim>\<open>Bench_Parser\<close>, \<^verbatim>\<open>Bench_Snapshot\<close>: the programs of
    \<^verbatim>\<open>bench/\<close>: the workloads they generate, their loops for any number of iterations, and what these
    loops measure.
  \<^item> \<^verbatim>\<open>Test_Engine\<close>, \<^verbatim>\<open>Test_Parser\<close>, \<^verbatim>\<open>Test_Udp\<close>, \<^verbatim>\<open>Test_Rest\<close>: the tests of \<^verbatim>\<open>tests/\<close>, evaluated on the
    definitions by the kernel, as evidence that the definitions behave like the code.

  \<^bold>\<open>How state and code correspond.\<close> A struct is a record with the fields of the source, integers are
  words of their width, the hash maps of the engine are partial functions. The cached pointers to
  the best levels are the keys of their nodes. Handlers take and return the engine; \<^verbatim>\<open>apply\<close> works
  on the engine and the current value of the publisher's atomic pointer; where the language leaves an
  operation undefined (\<^verbatim>\<open>%\<close> by the snapshot interval 0, the conversion of a double that does not fit)
  the result is a fault or \<^const>\<open>None\<close>. Loops that depend on
  outside data use \<^verbatim>\<open>partial_function (option)\<close> and are shown to return; no fuel is used. Loop counters
  of type \<^verbatim>\<open>int\<close> in the benchmarks are natural numbers; their theorems assume numbers of iterations
  that such a counter can hold.

  \<^bold>\<open>Parameters.\<close> What is not part of the repository is an argument with its documented behaviour as a
  named hypothesis: \<^verbatim>\<open>read\<close> (\<open>posix_read\<close>), the file and socket calls (\<open>posix_files\<close>, \<open>posix_sockets\<close>,
  \<open>posix_inet_pton\<close>), the routing of the HTTP library (\<open>http_documented\<close>), the histogram library
  (\<open>hdr_documented\<close>), the lock-free queue (\<open>fifo_queue\<close>, with polls that may miss a message), the
  iteration order of the hash maps together with the clock (\<open>env_ok\<close>), and the random generators of
  the benchmarks (\<open>uniform_in_range\<close>). Those that a property assumes are instantiated by concrete
  functions in its witness. The clock of the profiler is a parameter without any hypothesis. Of the
  JSON library the documented exception on strings that are not UTF-8 is modelled (\<open>dumped\<close>).

  \<^bold>\<open>Main results.\<close>
  \<^item> Engine: after every feed that does not reuse a live reference each level is the aggregate of
    the live orders at its price and the cached top is the best live price; for every feed
    the order index refines an abstract market. The hypothesis on references is needed: adding a
    live order again counts it twice.
  \<^item> Parser: parsing inverts encoding, the outcome of every buffer is characterised, and no read
    is out of bounds.
  \<^item> Readers: however the system splits its reads, the file reader follows the documented frame
    format but for a file that ends right after a length prefix; the
    UDP reader delivers the stream in order, once each, and accounts for what was lost.
  \<^item> Pipeline: file mode ends with the state of the feed published; in live mode every
    interleaving processes the delivered messages in order, the snapshots that clients read
    belong to growing prefixes of the feed, and after two engine steps per queued message and two
    per poll that missed one, the engine thread has processed what was queued; once the receive
    thread has finished, the engine thread stops after a bounded number of steps with nothing
    lost.
  \<^item> Server: every outcome of a book or top request is characterised, errors and escaping exceptions
    included: the answers are the levels, the spread and the crossing of the published book, and
    the routes lead to these answers; with the above,
    \<open>program_serves_live_orders\<close> below leads from the environment of the program and the bytes of a
    file to the answer, and \<open>live_book_is_live_orders\<close> from the packets.
  \<^item> Defects: several properties state behaviour that comments of the source exclude (a zero-filled
    message after a lone prefix, the interval 0, prices of \<open>2 ^ 31\<close> and more in the top handler, requests
    and symbols that are not UTF-8, the
    array ladder outside its contract, the unreachable shutdown of live mode, the default
    interface, the descriptor lost by a throwing constructor, benchmarks that measure skipped
    messages, a histogram that stays empty).

  \<^bold>\<open>Not modelled.\<close> The insides of the HTTP and JSON libraries (printing, percent-decoding, the accept
  loop) and when the server thread starts to listen: the source only calls the libraries. The
  log lines printed while the program runs, and the final \<^verbatim>\<open>pause\<close>. Wall-clock times, memory statistics and the
  harness of the benchmarks. Memory reclamation of old snapshots (\<^verbatim>\<open>shared_ptr\<close>). The sockets of
  the tests, whose packets are given as a list.
\<close>

section \<open>From the file to the client\<close>

lemma file_mode_book:
  assumes "posix_read sys_read contents" and "contents s = concat (map (frame \<circ> encode) ms)"
    and "list_all encodable ms" and "feed_ok init_engine ms" and "length ms < 2 ^ 32"
    and "cf_snapshot_interval cf \<noteq> 0"
    and "st = with_control (of_nat (length ms)) (cf_snapshot_interval cf) True (run_feed ms init_engine)"
    and "env_ok (env st) st" and "lower_distinct st"
    and "instruments st l = Some i" and "books st l = Some b" and "to_lower sy = to_lower (in_symbol i)"
    and "depth_param p = Inr d"
  shows "\<exists>w. run_file sys_read env cf (Some s) = Some (Inr (0, w)) \<and> fst w = st \<and>
    get_book_handler sy p (snd w) = (if printable i then Inr (live_reply st l i b d) else Inl NotUtf8)"
proof -
  have "length ms < 2 ^ 64" using assms(5) by simp
  note run = file_end_to_end [OF assms(1-3) this assms(6,7), of env]
  have c: "consistent st" using consistent_feed [OF assms(4,5)] by (simp add: assms(7) consistent_control)
  have "get_book_handler sy p (Some (build_snapshot (env st) st)) =
      (if printable i then Inr (live_reply st l i b d) else Inl NotUtf8)"
    by (rule book_reply_live [OF c assms(8-13)])
  with run show ?thesis
    by (intro exI [of _ "(st, Some (build_snapshot (env st) st))"]) simp
qed

text \<open>
  (C4) The program end to end, from its environment and the bytes of a file to the answer to a
  client. Started in file mode on a file of encoded messages in which no add or replace takes the
  reference of another live order, \<^verbatim>\<open>main\<close> completes the feed and goes on to serve; a GET request
  for the book of an instrument, in any spelling of its symbol and with an accepted depth, is then
  answered with the live orders of that instrument and nothing else: for each side the live
  prices, best first, up to the depth, each with the number of live orders at that price and the
  sum of their shares. Only if the symbol or the trading state of the instrument is not valid UTF-8
  the printing of this answer throws instead. The snapshot interval is not 0 and no two instruments
  have symbols that differ in case only. The summary that \<^verbatim>\<open>main\<close> prints is that of the messages of the feed,
  and its last lines report their number and the port.
\<close>

theorem program_serves_live_orders:
  assumes "posix_read sys_read contents" and "http_documented api routes"
    and "read_config getenv = Some cf" and "cf_mode cf \<noteq> ''live''" and "open_file (cf_itch_file cf) = Some s"
    and "contents s = concat (map (frame \<circ> encode) ms)"
    and "list_all encodable ms" and "feed_ok init_engine ms" and "length ms < 2 ^ 32"
    and "cf_snapshot_interval cf \<noteq> 0"
    and "st = with_control (of_nat (length ms)) (cf_snapshot_interval cf) True (run_feed ms init_engine)"
    and "env_ok (env st) st" and "lower_distinct st"
    and "instruments st l = Some i" and "books st l = Some b" and "to_lower sy = to_lower (in_symbol i)"
    and "sy \<noteq> []" and "CHR ''/'' \<notin> set sy" and "depth_param p = Inr d"
  shows "\<exists>rest res w. main_program sys_read env api open_file queue evs getenv = Some (rest, FileRun res) \<and>
    res = Some (Inr (0, w)) \<and> fst w = st \<and> main_summary res = log_summary (run_feed ms init_engine) \<and>
    main_report (cf_rest_port cf) res =
      ''pipeline complete'' @ dash @ to_string (length ms) @ '' messages processed'' @ [CHR 0x0A] @
      ''REST server running at http://localhost:'' @ to_string (unat (cf_rest_port cf)) @ dash @
      ''press Ctrl+C to exit'' @ [CHR 0x0A] \<and>
    serve api rest now_ms symbols \<lparr>rq_path = ''/book/'' @ sy, rq_depth = p\<rparr> (snd w) =
      Some (if utf8_ok (in_symbol i) \<and> utf8_ok [in_trading_state i] then Inr \<lparr>rs_status = None, rs_body = JObj
       [(''symbol'', JStr (in_symbol i)), (''trading_state'', JStr [in_trading_state i]),
        (''last_update_timestamp'', time_entry (ob_last_update_timestamp b)),
        (''bid_count'', JInt (min d (int (length (live_book st l Bid))))),
        (''ask_count'', JInt (min d (int (length (live_book st l Ask))))),
        (''bids'', JArr (map level_entry (take (nat d) (live_book st l Bid)))),
        (''asks'', JArr (map level_entry (take (nat d) (live_book st l Ask))))]\<rparr>
       else Inl NotUtf8)"
proof -
  obtain w where w: "run_file sys_read env cf (Some s) = Some (Inr (0, w))" "fst w = st"
    "get_book_handler sy p (snd w) = (if printable i then Inr (live_reply st l i b d) else Inl NotUtf8)"
    using file_mode_book [where env = env, OF assms(1,6-16,19)] by blast
  obtain r where r: "main_program sys_read env api open_file queue evs getenv = Some (r, FileRun (Some (Inr (0, w))))"
    "rest_start (rest_construct api (cf_rest_port cf)) = Some r"
    using main_program_file [OF assms(3,4), of sys_read env api open_file queue evs] w(1) by (auto simp: assms(5))
  have "serve api r now_ms symbols \<lparr>rq_path = ''/book/'' @ sy, rq_depth = p\<rparr> (snd w) =
      Some (if printable i then Inr (live_reply st l i b d) else Inl NotUtf8)"
    using serve_book(1) [OF assms(2) started_routes [OF assms(2) r(2)] assms(17,18)] w(3) by simp
  moreover have "main_summary (Some (Inr (0, w))) = log_summary (run_feed ms init_engine)"
    by (simp add: main_summary_def w(2) assms(11))
  moreover have "unat (messages_processed (fst w)) = length ms"
    using assms(9) by (simp add: w(2) assms(11) unsigned_of_nat take_bit_nat_eq_self)
  then have "main_report (cf_rest_port cf) (Some (Inr (0, w))) =
      ''pipeline complete'' @ dash @ to_string (length ms) @ '' messages processed'' @ [CHR 0x0A] @
      ''REST server running at http://localhost:'' @ to_string (unat (cf_rest_port cf)) @ dash @
      ''press Ctrl+C to exit'' @ [CHR 0x0A]"
    by (simp add: main_report_def)
  ultimately show ?thesis using r(1) w(2) unfolding live_reply_def printable_def by blast
qed

text \<open>A file with a bid and an ask of an unannounced instrument, and an empty environment.\<close>

definition two_orders :: "ParsedMessage list" where
  "two_orders = [AddOrder (sample_add 1 CHR ''B'' 100 1000000), AddOrder (sample_add 2 CHR ''S'' 70 1000100)]"

lemma two_orders_encodable: "list_all encodable two_orders"
  by (simp add: two_orders_def sample_add_def ts_ok_def alpha_ok_def)

lemma two_orders_run: "run_feed two_orders init_engine = two_sided"
  by (simp add: two_orders_def two_sided_def one_bid_def)

lemma two_orders_ok: "feed_ok init_engine two_orders"
  by (simp add: two_orders_def sample_add_def handle_add_order_def add_order_closed init_engine_def)

theorem program_serves_live_orders_witness:
  "\<exists>rest res w st bids. main_program (chunk_read 4) one_bid_env list_http
      (\<lambda>_. Some (concat (map (frame \<circ> encode) two_orders))) () [] (\<lambda>_. None) = Some (rest, FileRun res) \<and>
    res = Some (Inr (0, w)) \<and> bids = map level_entry (take 5 (live_book st 7 Bid)) \<and>
    (\<exists>before after. serve list_http rest 0 [] \<lparr>rq_path = ''/book/'' @ ''Unknown_7'', rq_depth = Some ''5''\<rparr> (snd w) =
       Some (Inr \<lparr>rs_status = None, rs_body = JObj (before @ (''bids'', JArr bids) # after)\<rparr>))"
proof -
  let ?file = "concat (map (frame \<circ> encode) two_orders)"
  obtain cf where cf: "read_config (\<lambda>_. None) = Some cf" "cf_mode cf = ''file''" "cf_snapshot_interval cf = 1000"
    using default_configuration by blast
  let ?st = "with_control (of_nat (length two_orders)) (cf_snapshot_interval cf) True (run_feed two_orders init_engine)"
  have st: "?st = with_control (of_nat (length two_orders)) (cf_snapshot_interval cf) True two_sided"
    by (simp only: two_orders_run)
  have e: "env_ok (one_bid_env ?st) ?st"
    using two_sided_env_ok unfolding st env_ok_control by (simp add: one_bid_env_def)
  have l: "lower_distinct ?st" using two_sided_lower unfolding st lower_distinct_control .
  have i: "instruments ?st 7 = Some (placeholder 7)" using two_sided_instrument unfolding st by simp
  obtain b where b: "books ?st 7 = Some b" using two_sided_dom(1) unfolding st by fastforce
  have d: "depth_param (Some ''5'') = Inr 5" by code_simp
  have m: "cf_mode cf \<noteq> ''live''" by (simp add: cf)
  have f: "id ?file = ?file" by simp
  have n: "length two_orders < 2 ^ 32" by (simp add: two_orders_def)
  have k: "cf_snapshot_interval cf \<noteq> 0" by (simp add: cf)
  have r: "posix_read (chunk_read 4) id" by (rule posix_chunk_read) simp
  have sy: "''Unknown_7'' \<noteq> []" "CHR ''/'' \<notin> set ''Unknown_7''" by simp_all
  have split: "[a1, a2, a3, a4, a5, a6, a7] = [a1, a2, a3, a4, a5] @ a6 # [a7]" for a1 a2 a3 a4 a5 a6 a7 :: "string \<times> json"
    by simp
  show ?thesis
    using program_serves_live_orders [where env = one_bid_env and open_file = "\<lambda>_. Some ?file" and queue = "()" and evs = "[]"
        and now_ms = 0 and symbols = "[]", OF r list_http_documented cf(1) m refl f two_orders_encodable two_orders_ok n k
        refl e l i b two_sided_name sy d]
      placeholder_utf8
    unfolding split nat_numeral by (simp only: simp_thms if_True) blast
qed

end
